(* ===== verification/Go_Prelude.thy ===== *)
theory Go_Prelude
  imports
    Main
    "HOL-Library.Char_ord"
    "HOL-Library.List_Lexorder"
    "HOL-Library.Product_Lexorder"
    "HOL-Library.Sublist"
    "HOL-Library.AList"
    "HOL-Library.Multiset"
begin

text \<open>
  What every component of the repository uses of Go and of its standard library:
  error values with wrapping (\<open>errors.Is\<close>, \<open>fmt.Errorf\<close> with \<open>%w\<close>), polling of a
  \<open>context.Context\<close>, the functions of \<open>strings\<close>, \<open>bytes\<close> and \<open>strconv\<close> the sources call,
  64-bit wrap-around, maps as association lists whose list order is the (unspecified)
  iteration order, and the generic lemmas the components share.

  A Go \<open>string\<close> is a sequence of bytes and \<open>char\<close> is a byte, so \<open>string\<close> is exactly Go's type;
  its order is bytewise lexicographic, as \<open><\<close> on Go strings.
\<close>

named_theorems go_defs "definitions of the Go library model, to be unfolded together"
named_theorems err_intros "how an error passes through wrapping"

subsection \<open>Errors\<close>

text \<open>
  A formatted message is kept symbolic: literal text, a quoted (\<open>%q\<close>) or plain (\<open>%s\<close>, \<open>%v\<close>)
  string, a number (\<open>%d\<close>), a list (\<open>%v\<close> of a slice). An error is a sentinel or a wrapped error; \<open>errors.Is\<close>
  walks the chain of \<open>Unwrap\<close> and compares.
\<close>

datatype frag = Lit string | Quoted string | Plain string | Num int | Strs "string list"

type_synonym message = "frag list"

datatype 'e err = Err 'e | Wrap message "'e err"

fun errors_is :: "'e err \<Rightarrow> 'e \<Rightarrow> bool" where
  "errors_is (Err a) b = (a = b)"
| "errors_is (Wrap _ e) b = errors_is e b"

fun root_cause :: "'e err \<Rightarrow> 'e" where
  "root_cause (Err a) = a"
| "root_cause (Wrap _ e) = root_cause e"

lemma errors_is_root [simp]: "errors_is e a \<longleftrightarrow> root_cause e = a"
  by (induction e) auto

subsection \<open>Contexts\<close>

text \<open>
  \<open>ctx.Err()\<close> may change between two polls, because another goroutine cancels the context.
  A context is therefore the sequence of the answers its polls get; \<open>live\<close> is a context nobody
  cancels, \<open>cancel_monotone\<close> the documented law that a context once done stays done.
\<close>

type_synonym 'e ctx = "nat \<Rightarrow> 'e err option"

definition live :: "'e ctx" where
  "live = (\<lambda>_. None)"

lemma live_apply [simp]: "live n = None"
  by (simp add: live_def)

subsection \<open>64-bit integers\<close>

definition min_int64 :: int where "min_int64 = - (2 ^ 63)"
definition max_int64 :: int where "max_int64 = 2 ^ 63 - 1"

definition wrap64 :: "int \<Rightarrow> int" where
  "wrap64 x = (x + 2 ^ 63) mod 2 ^ 64 - 2 ^ 63"

definition in_int64 :: "int \<Rightarrow> bool" where
  "in_int64 x \<longleftrightarrow> min_int64 \<le> x \<and> x \<le> max_int64"

lemma wrap64_id [simp]: "in_int64 x \<Longrightarrow> wrap64 x = x"
  by (simp add: wrap64_def in_int64_def min_int64_def max_int64_def)

lemma wrap64_in_int64 [simp]: "in_int64 (wrap64 x)"
proof -
  have "0 \<le> (x + 2 ^ 63) mod 2 ^ 64" "(x + 2 ^ 63) mod 2 ^ 64 < 2 ^ 64"
    by simp_all
  then show ?thesis
    by (simp add: wrap64_def in_int64_def min_int64_def max_int64_def)
qed

text \<open>Go's integer division truncates towards zero.\<close>

definition quot :: "int \<Rightarrow> int \<Rightarrow> int" where
  "quot a b = sgn a * sgn b * (\<bar>a\<bar> div \<bar>b\<bar>)"

lemma quot_nonneg [simp]: "0 \<le> a \<Longrightarrow> 0 < b \<Longrightarrow> quot a b = a div b"
  by (cases "a = 0") (simp_all add: quot_def)

subsection \<open>White space, \<open>strings.TrimSpace\<close> and \<open>strings.Fields\<close>\<close>

text \<open>
  The UTF-8 encodings of the code points \<open>unicode.IsSpace\<close> accepts. Each starts with an ASCII
  byte or a lead byte, which never occurs inside another encoding, so testing for one of these
  prefixes at a byte position is what decoding a rune there and calling \<open>IsSpace\<close> gives, on
  invalid UTF-8 too.
\<close>

definition go_spaces :: "string list" where
  "go_spaces =
    [[CHR 0x09], [CHR 0x0A], [CHR 0x0B], [CHR 0x0C], [CHR 0x0D], [CHR 0x20],
     [CHR 0xC2, CHR 0x85], [CHR 0xC2, CHR 0xA0],
     [CHR 0xE1, CHR 0x9A, CHR 0x80],
     [CHR 0xE2, CHR 0x80, CHR 0x80], [CHR 0xE2, CHR 0x80, CHR 0x81],
     [CHR 0xE2, CHR 0x80, CHR 0x82], [CHR 0xE2, CHR 0x80, CHR 0x83],
     [CHR 0xE2, CHR 0x80, CHR 0x84], [CHR 0xE2, CHR 0x80, CHR 0x85],
     [CHR 0xE2, CHR 0x80, CHR 0x86], [CHR 0xE2, CHR 0x80, CHR 0x87],
     [CHR 0xE2, CHR 0x80, CHR 0x88], [CHR 0xE2, CHR 0x80, CHR 0x89],
     [CHR 0xE2, CHR 0x80, CHR 0x8A], [CHR 0xE2, CHR 0x80, CHR 0xA8],
     [CHR 0xE2, CHR 0x80, CHR 0xA9], [CHR 0xE2, CHR 0x80, CHR 0xAF],
     [CHR 0xE2, CHR 0x81, CHR 0x9F], [CHR 0xE3, CHR 0x80, CHR 0x80]]"

text \<open>The number of bytes of the white-space rune at the front (\<open>0\<close>: the string does not start with one).\<close>

definition space_width :: "string \<Rightarrow> nat" where
  "space_width s = (case find (\<lambda>p. prefix p s) go_spaces of None \<Rightarrow> 0 | Some p \<Rightarrow> length p)"

definition space_width_back :: "string \<Rightarrow> nat" where
  "space_width_back s =
     (case find (\<lambda>p. prefix (rev p) (rev s)) go_spaces of None \<Rightarrow> 0 | Some p \<Rightarrow> length p)"

lemma space_width_Nil [simp]: "space_width [] = 0"
  by (simp add: space_width_def go_spaces_def)

lemma space_width_back_Nil [simp]: "space_width_back [] = 0"
  by (simp add: space_width_back_def go_spaces_def)

function trim_left :: "string \<Rightarrow> string" where
  "trim_left s = (if space_width s = 0 then s else trim_left (drop (space_width s) s))"
  by pat_completeness auto
termination
proof (relation "measure length", simp)
  fix s :: string
  assume "space_width s \<noteq> 0"
  then show "(drop (space_width s) s, s) \<in> measure length"
    by (cases s) auto
qed

function trim_right :: "string \<Rightarrow> string" where
  "trim_right s =
     (if space_width_back s = 0 then s
      else trim_right (take (length s - space_width_back s) s))"
  by pat_completeness auto
termination
proof (relation "measure length", simp)
  fix s :: string
  assume "space_width_back s \<noteq> 0"
  then show "(take (length s - space_width_back s) s, s) \<in> measure length"
    by (cases s) (auto simp: min_def)
qed

declare trim_left.simps [simp del] trim_right.simps [simp del]

definition TrimSpace :: "string \<Rightarrow> string" where
  "TrimSpace s = trim_right (trim_left s)"

definition blank :: "string \<Rightarrow> bool" where
  "blank s \<longleftrightarrow> TrimSpace s = []"

lemma trim_left_Nil [simp]: "trim_left [] = []"
  by (subst trim_left.simps) simp

lemma trim_right_Nil [simp]: "trim_right [] = []"
  by (subst trim_right.simps) simp

lemma blank_Nil [simp]: "blank []"
  by (simp add: blank_def TrimSpace_def)

lemma length_trim_left: "length (trim_left s) \<le> length s"
proof (induction s rule: trim_left.induct)
  case (1 s)
  then show ?case
    by (cases "space_width s = 0") (auto simp: trim_left.simps [of s])
qed

lemma trim_left_space: "trim_left (CHR '' '' # s) = trim_left s"
proof -
  have "space_width (CHR '' '' # s) = 1"
    by (simp add: space_width_def go_spaces_def)
  then show ?thesis by (subst trim_left.simps) simp
qed

lemma blank_spaces: "list_all (\<lambda>c. c = CHR '' '') s \<Longrightarrow> blank s"
  unfolding blank_def TrimSpace_def
  by (induction s) (auto simp: trim_left_space)

subsection \<open>Splitting strings\<close>

text \<open>\<open>strings.Split\<close> with a one-byte separator: always at least one piece.\<close>

fun go_split :: "char \<Rightarrow> string \<Rightarrow> string list" where
  "go_split c [] = [[]]"
| "go_split c (x # xs) =
     (if x = c then [] # go_split c xs
      else (case go_split c xs of [] \<Rightarrow> [[x]] | p # ps \<Rightarrow> (x # p) # ps))"

lemma go_split_nonempty [simp]: "go_split c s \<noteq> []"
  by (induction s) (auto split: list.splits)

fun go_join :: "char \<Rightarrow> string list \<Rightarrow> string" where
  "go_join c [] = []"
| "go_join c [p] = p"
| "go_join c (p # ps) = p @ c # go_join c ps"

lemma go_join_cons: "ps \<noteq> [] \<Longrightarrow> go_join c (p # ps) = p @ c # go_join c ps"
  by (cases ps) auto

lemma go_join_split: "go_join c (go_split c s) = s"
proof (induction s)
  case (Cons x s)
  obtain p ps where p: "go_split c s = p # ps"
    by (cases "go_split c s") auto
  with Cons show ?case
    by (cases ps) (auto simp: go_join_cons)
qed simp

lemma go_split_no_sep: "p \<in> set (go_split c s) \<Longrightarrow> c \<notin> set p"
  by (induction s arbitrary: p) (auto split: list.splits if_splits)

text \<open>\<open>strings.Cut\<close> with a one-byte separator: the text before and after its first occurrence.\<close>

fun go_cut :: "char \<Rightarrow> string \<Rightarrow> string \<times> string \<times> bool" where
  "go_cut c [] = ([], [], False)"
| "go_cut c (x # xs) =
     (if x = c then ([], xs, True)
      else (case go_cut c xs of (b, a, f) \<Rightarrow> (x # b, a, f)))"

lemma go_cut_found: "go_cut c s = (b, a, True) \<longleftrightarrow> s = b @ c # a \<and> c \<notin> set b"
proof (induction s arbitrary: b)
  case (Cons x xs)
  show ?case
  proof (cases b)
    case Nil
    then show ?thesis by (cases "go_cut c xs") auto
  next
    case (Cons y ys)
    with Cons.IH [of ys] show ?thesis by (cases "go_cut c xs") auto
  qed
qed simp

lemma go_cut_not_found: "go_cut c s = (b, a, False) \<longleftrightarrow> b = s \<and> a = [] \<and> c \<notin> set s"
proof (induction s arbitrary: b)
  case (Cons x xs)
  show ?case
    using Cons.IH [of "tl b"] by (cases b; cases "go_cut c xs") auto
qed auto

subsection \<open>\<open>strconv\<close>\<close>

definition is_ascii_digit :: "char \<Rightarrow> bool" where
  "is_ascii_digit c \<longleftrightarrow> of_char c \<ge> (48::nat) \<and> of_char c \<le> (57::nat)"

definition digit_val :: "char \<Rightarrow> nat" where
  "digit_val c = of_char c - 48"

fun parse_digits :: "nat \<Rightarrow> string \<Rightarrow> nat option" where
  "parse_digits acc [] = Some acc"
| "parse_digits acc (c # cs) =
     (if is_ascii_digit c then parse_digits (10 * acc + digit_val c) cs else None)"

text \<open>
  \<open>strconv.ParseInt(s, 10, 64)\<close> and \<open>strconv.Atoi\<close> on a 64-bit platform: an optional sign,
  at least one decimal digit, and a value in the range of \<open>int64\<close>; \<open>None\<close> is the syntax or
  range error.
\<close>

definition ParseInt :: "string \<Rightarrow> int option" where
  "ParseInt s =
     (let (neg, ds) =
        (case s of
           [] \<Rightarrow> (False, [])
         | c # cs \<Rightarrow>
             if c = CHR ''+'' then (False, cs)
             else if c = CHR ''-'' then (True, cs)
             else (False, s))
      in if ds = [] then None
         else (case parse_digits 0 ds of
                 None \<Rightarrow> None
               | Some n \<Rightarrow>
                   (let v = (if neg then - int n else int n)
                    in if in_int64 v then Some v else None)))"

lemma ParseInt_in_int64: "ParseInt s = Some v \<Longrightarrow> in_int64 v"
  by (auto simp: ParseInt_def Let_def split: list.splits if_splits option.splits)

subsection \<open>Go maps\<close>

text \<open>
  A Go map is an association list with distinct keys. The order of the list is the order in
  which \<open>range\<close> happens to visit the entries; results of the components must not depend on it,
  and the permutation lemmas of the components say so.
\<close>

type_synonym ('k, 'v) gomap = "('k \<times> 'v) list"

definition gomap_ok :: "('k, 'v) gomap \<Rightarrow> bool" where
  "gomap_ok m \<longleftrightarrow> distinct (map fst m)"

lemma gomap_ok_Nil [simp]: "gomap_ok []"
  by (simp add: gomap_ok_def)

lemma gomap_ok_update [simp]: "gomap_ok m \<Longrightarrow> gomap_ok (AList.update k v m)"
  by (simp add: gomap_ok_def distinct_update)

lemma gomap_ok_delete [simp]: "gomap_ok m \<Longrightarrow> gomap_ok (AList.delete k m)"
  by (simp add: gomap_ok_def distinct_delete)

lemma gomap_mem: "gomap_ok m \<Longrightarrow> (k, v) \<in> set m \<longleftrightarrow> map_of m k = Some v"
  by (simp add: gomap_ok_def)

lemma gomap_perm:
  assumes "gomap_ok m" and "mset m = mset m'"
  shows "gomap_ok m'" and "map_of m' = map_of m"
proof -
  have "mset (map fst m) = mset (map fst m')"
    using assms(2) by simp
  then show ok: "gomap_ok m'"
    using assms(1) by (metis gomap_ok_def mset_eq_imp_distinct_iff)
  have "set m = set m'"
    using assms(2) by (rule mset_eq_setD)
  with ok assms(1) show "map_of m' = map_of m"
    unfolding gomap_ok_def by (intro map_of_eqI) auto
qed

subsection \<open>Sorting\<close>

text \<open>
  \<open>sort.Slice\<close> returns some permutation that is sorted by the comparison. When the keys of the
  elements are distinct there is exactly one, which \<open>sort_key\<close> computes.
\<close>

lemma sorted_perm_unique:
  assumes "mset xs = mset ys" and "sorted (map k xs)" and "sorted (map k ys)"
    and "distinct (map k xs)"
  shows "xs = ys"
proof -
  have inj: "inj_on k (set xs)"
    using assms(4) by (simp add: distinct_map)
  have "map k xs = map k ys"
    using assms(1-3) by (metis mset_map properties_for_sort)
  moreover have "set xs = set ys"
    using assms(1) by (rule mset_eq_setD)
  ultimately show ?thesis
    using inj by (metis map_inj_on sup.idem)
qed

end
