(* ===== verification/Go_Time.thy ===== *)
theory Go_Time
  imports Go_Prelude
begin

text \<open>
  The part of Go's \<open>time\<close> package the calendar uses: instants with a location, comparison,
  the proleptic Gregorian calendar with the algorithms of \<open>time.Date\<close>, \<open>Time.Date\<close> and
  \<open>Time.AddDate\<close> (400/100/4/1-year cycles, the \<open>daysBefore\<close> table, normalisation of
  out-of-range fields, zone lookup), and the lemmas that make the two directions inverse.

  An instant is a number of nanoseconds since 0001-01-01T00:00:00Z, so the zero \<open>Time\<close> is \<open>0\<close>.
  A location is its offset before the first transition and the list of its transitions
  (second of the change, offset from then on); \<open>UTC\<close> has no transition.
\<close>

datatype location = Location (first_offset: int) (transitions: "(int \<times> int) list")

definition UTC :: location where
  "UTC = Location 0 []"

record Time =
  instant :: int
  zone :: location

definition second :: int where "second = 10 ^ 9"
definition secondsPerDay :: int where "secondsPerDay = 86400"

lemmas time_units = second_def secondsPerDay_def

definition IsZero :: "Time \<Rightarrow> bool" where
  "IsZero t \<longleftrightarrow> instant t = 0"

definition Before :: "Time \<Rightarrow> Time \<Rightarrow> bool" where
  "Before t u \<longleftrightarrow> instant t < instant u"

definition After :: "Time \<Rightarrow> Time \<Rightarrow> bool" where
  "After t u \<longleftrightarrow> instant u < instant t"

definition TimeEqual :: "Time \<Rightarrow> Time \<Rightarrow> bool" where
  "TimeEqual t u \<longleftrightarrow> instant t = instant u"

text \<open>\<open>t.Sub(u)\<close>: a \<open>Duration\<close>, saturated at the bounds of \<open>int64\<close>.\<close>

definition TimeSub :: "Time \<Rightarrow> Time \<Rightarrow> int" where
  "TimeSub t u = max min_int64 (min max_int64 (instant t - instant u))"

lemmas time_cmp = IsZero_def Before_def After_def TimeEqual_def

subsection \<open>Zone lookup\<close>

text \<open>\<open>Location.lookup\<close>: the offset in force at a second, and the interval in which it is.\<close>

fun lookup_from ::
  "int \<Rightarrow> int option \<Rightarrow> (int \<times> int) list \<Rightarrow> int \<Rightarrow> int \<times> int option \<times> int option" where
  "lookup_from off st [] sec = (off, st, None)"
| "lookup_from off st ((w, off') # txs) sec =
     (if sec < w then (off, st, Some w) else lookup_from off' (Some w) txs sec)"

definition zone_lookup :: "location \<Rightarrow> int \<Rightarrow> int \<times> int option \<times> int option" where
  "zone_lookup l sec = lookup_from (first_offset l) None (transitions l) sec"

definition zone_offset :: "location \<Rightarrow> int \<Rightarrow> int" where
  "zone_offset l sec = fst (zone_lookup l sec)"

text \<open>A location with one offset for all time, as \<open>time.FixedZone\<close> and \<open>time.UTC\<close>.\<close>

definition fixed_zone :: "location \<Rightarrow> bool" where
  "fixed_zone l \<longleftrightarrow> transitions l = []"

lemma zone_lookup_fixed [simp]: "fixed_zone l \<Longrightarrow> zone_lookup l sec = (first_offset l, None, None)"
  by (simp add: zone_lookup_def fixed_zone_def)

lemma zone_offset_fixed [simp]: "fixed_zone l \<Longrightarrow> zone_offset l sec = first_offset l"
  by (simp add: zone_offset_def)

lemma fixed_zone_UTC [simp]: "fixed_zone UTC"
  by (simp add: UTC_def fixed_zone_def)

lemma first_offset_UTC [simp]: "first_offset UTC = 0"
  by (simp add: UTC_def)

subsection \<open>The calendar\<close>

definition isLeap :: "int \<Rightarrow> bool" where
  "isLeap y \<longleftrightarrow> y mod 4 = 0 \<and> (y mod 100 \<noteq> 0 \<or> y mod 400 = 0)"

definition days_in_year :: "int \<Rightarrow> int" where
  "days_in_year y = (if isLeap y then 366 else 365)"

definition daysSinceEpoch :: "int \<Rightarrow> int" where
  "daysSinceEpoch year =
     (let y = year - 1; n400 = y div 400; y1 = y mod 400; n100 = y1 div 100; y2 = y1 mod 100;
          n4 = y2 div 4; n1 = y2 mod 4
      in 146097 * n400 + 36524 * n100 + 1461 * n4 + 365 * n1)"

text \<open>The first half of \<open>absDate\<close>: the year of a day, and the day's number in it.\<close>

definition year_yday :: "int \<Rightarrow> int \<times> int" where
  "year_yday d =
     (let n400 = d div 146097; d1 = d mod 146097;
          c = d1 div 36524; n100 = c - c div 4; d2 = d1 - 36524 * n100;
          n4 = d2 div 1461; d3 = d2 - 1461 * n4;
          n = d3 div 365; n1 = n - n div 4
      in (400 * n400 + 100 * n100 + 4 * n4 + n1 + 1, d3 - 365 * n1))"

definition daysBefore :: "int \<Rightarrow> int" where
  "daysBefore m = [0, 31, 59, 90, 120, 151, 181, 212, 243, 273, 304, 334, 365] ! nat m"

text \<open>The second half of \<open>absDate\<close>: month (1 to 12) and day of the month of a day of the year.\<close>

definition month_day :: "bool \<Rightarrow> int \<Rightarrow> int \<times> int" where
  "month_day leap yday =
     (if leap \<and> yday = 59 then (2, 29)
      else (let day = (if leap \<and> yday > 59 then yday - 1 else yday);
                m = day div 31; end = daysBefore (m + 1)
            in if day \<ge> end then (m + 2, day - end + 1)
               else (m + 1, day - daysBefore m + 1)))"

definition civil :: "int \<Rightarrow> int \<times> int \<times> int" where
  "civil d = (case year_yday d of (y, yd) \<Rightarrow> (case month_day (isLeap y) yd of (m, dd) \<Rightarrow> (y, m, dd)))"

text \<open>The day number of day \<open>dd\<close> of month \<open>m\<close> (1 to 12) of year \<open>y\<close>, as \<open>time.Date\<close> computes it.\<close>

definition yday_of :: "bool \<Rightarrow> int \<Rightarrow> int \<Rightarrow> int" where
  "yday_of leap m dd = daysBefore (m - 1) + (if leap \<and> m \<ge> 3 then 1 else 0) + (dd - 1)"

definition day_number :: "int \<Rightarrow> int \<Rightarrow> int \<Rightarrow> int" where
  "day_number y m dd = daysSinceEpoch y + yday_of (isLeap y) m dd"

definition days_in_month :: "bool \<Rightarrow> int \<Rightarrow> int" where
  "days_in_month leap m = daysBefore m - daysBefore (m - 1) + (if leap \<and> m = 2 then 1 else 0)"

definition valid_date :: "int \<Rightarrow> int \<Rightarrow> int \<Rightarrow> bool" where
  "valid_date y m dd \<longleftrightarrow> 1 \<le> m \<and> m \<le> 12 \<and> 1 \<le> dd \<and> dd \<le> days_in_month (isLeap y) m"

lemma year_cycle:
  obtains n400 n100 n4 n1 where
    "y = 400 * n400 + 100 * n100 + 4 * n4 + n1 + 1"
    "0 \<le> n100" "n100 \<le> 3" "0 \<le> n4" "n4 \<le> 24" "0 \<le> n1" "n1 \<le> 3"
    "daysSinceEpoch y = 146097 * n400 + 36524 * n100 + 1461 * n4 + 365 * n1"
proof -
  define a r where "a = (y - 1) div 400" and "r = (y - 1) mod 400"
  define b q where "b = r div 100" and "q = r mod 100"
  define c d where "c = q div 4" and "d = q mod 4"
  have y: "y - 1 = 400 * a + r" "0 \<le> r" "r < 400"
    unfolding a_def r_def by simp_all
  have r: "r = 100 * b + q" "0 \<le> q" "q < 100"
    unfolding b_def q_def by simp_all
  have q: "q = 4 * c + d" "0 \<le> d" "d < 4"
    unfolding c_def d_def by simp_all
  have "y = 400 * a + 100 * b + 4 * c + d + 1" "0 \<le> b" "b \<le> 3" "0 \<le> c" "c \<le> 24" "0 \<le> d" "d \<le> 3"
    using y r q by linarith+
  moreover have "daysSinceEpoch y = 146097 * a + 36524 * b + 1461 * c + 365 * d"
    by (simp add: daysSinceEpoch_def Let_def a_def b_def c_def d_def r_def q_def)
  ultimately show ?thesis by (rule that)
qed

lemma mod_zero_iff_top:
  assumes "0 < r" "r \<le> (k::int)"
  shows "(k * n + r) mod k = 0 \<longleftrightarrow> r = k"
  using assms by (cases "r = k") (simp_all add: mod_pos_pos_trivial)

lemma isLeap_cycle:
  assumes y: "y = 400 * n400 + 100 * n100 + 4 * n4 + n1 + 1"
    and "0 \<le> n100" "n100 \<le> 3" "0 \<le> n4" "n4 \<le> 24" "0 \<le> n1" "n1 \<le> (3::int)"
  shows "isLeap y \<longleftrightarrow> n1 = 3 \<and> (n4 \<noteq> 24 \<or> n100 = 3)"
proof -
  have "y = 4 * (100 * n400 + 25 * n100 + n4) + (n1 + 1)" by (simp add: y)
  then have 4: "y mod 4 = 0 \<longleftrightarrow> n1 + 1 = 4"
    using assms mod_zero_iff_top [of "n1 + 1" 4] by (simp only:)
  have "y = 100 * (4 * n400 + n100) + (4 * n4 + n1 + 1)" by (simp add: y)
  then have 100: "y mod 100 = 0 \<longleftrightarrow> 4 * n4 + n1 + 1 = 100"
    using assms mod_zero_iff_top [of "4 * n4 + n1 + 1" 100] by (simp only:)
  have "y = 400 * n400 + (100 * n100 + 4 * n4 + n1 + 1)" by (simp add: y)
  then have 400: "y mod 400 = 0 \<longleftrightarrow> 100 * n100 + 4 * n4 + n1 + 1 = 400"
    using assms mod_zero_iff_top [of "100 * n100 + 4 * n4 + n1 + 1" 400] by (simp only:)
  show ?thesis unfolding isLeap_def 4 100 400 using assms(2-) by auto
qed

lemma daysSinceEpoch_cycle:
  assumes "0 \<le> n100" "n100 \<le> 3" "0 \<le> n4" "n4 \<le> 24" "0 \<le> n1" "n1 \<le> (3::int)"
  shows "daysSinceEpoch (400 * n400 + 100 * n100 + 4 * n4 + n1 + 1) =
         146097 * n400 + 36524 * n100 + 1461 * n4 + 365 * n1"
proof -
  let ?y = "400 * n400 + 100 * n100 + 4 * n4 + n1 + 1 - 1"
  have y: "?y = 400 * n400 + (100 * n100 + 4 * n4 + n1)" by simp
  have 400: "?y div 400 = n400" "?y mod 400 = 100 * n100 + (4 * n4 + n1)"
    using assms int_div_pos_eq [OF y] int_mod_pos_eq [OF y] by simp_all
  have 100: "(100 * n100 + (4 * n4 + n1)) div 100 = n100" "(100 * n100 + (4 * n4 + n1)) mod 100 = 4 * n4 + n1"
    using assms by (simp_all add: mod_pos_pos_trivial)
  have 4: "(4 * n4 + n1) div 4 = n4" "(4 * n4 + n1) mod 4 = n1"
    using assms by (simp_all add: mod_pos_pos_trivial)
  show ?thesis
    unfolding daysSinceEpoch_def Let_def 400 100 4 by simp
qed

text \<open>Three quarters of the \<open>n - n div 4\<close> steps of \<open>absDate\<close>: a quotient of 4 only stands for the last day of a cycle.\<close>

lemma cap_quarter:
  assumes "x = k * n + r" "0 \<le> r" "0 < k" "0 \<le> n" "n \<le> (3::int)" "r < k \<or> (n = 3 \<and> r = k)"
  shows "x div k - x div k div 4 = n"
proof (cases "r < k")
  case True
  then have "x div k = n" using assms by (intro int_div_pos_eq) auto
  with assms show ?thesis by (simp add: div_pos_pos_trivial)
next
  case False
  with assms have "x = k * 4" by simp
  with assms False show ?thesis by simp
qed

lemma year_yday_daysSinceEpoch:
  assumes yd: "0 \<le> yd" "yd < days_in_year y"
  shows "year_yday (daysSinceEpoch y + yd) = (y, yd)"
proof -
  obtain n400 n100 n4 n1 where y: "y = 400 * n400 + 100 * n100 + 4 * n4 + n1 + 1"
    and b: "0 \<le> n100" "n100 \<le> 3" "0 \<le> n4" "n4 \<le> 24" "0 \<le> n1" "n1 \<le> 3"
    and d: "daysSinceEpoch y = 146097 * n400 + 36524 * n100 + 1461 * n4 + 365 * n1"
    by (rule year_cycle)
  define d3 where "d3 = 365 * n1 + yd"
  define d2 where "d2 = 1461 * n4 + d3"
  define d1 where "d1 = 36524 * n100 + d2"
  have leap: "yd < 365 \<or> (yd = 365 \<and> n1 = 3 \<and> (n4 \<noteq> 24 \<or> n100 = 3))"
    using yd isLeap_cycle [OF y b] by (auto simp: days_in_year_def split: if_splits)
  have d3: "0 \<le> d3" "d3 < 1461" "d3 = 1460 \<longrightarrow> n4 \<noteq> 24 \<or> n100 = 3"
    unfolding d3_def using leap b yd by auto
  have d2: "0 \<le> d2" "d2 < 36524 \<or> (n100 = 3 \<and> d2 = 36524)"
    unfolding d2_def using d3 b by auto
  have d1: "0 \<le> d1" "d1 < 146097"
    unfolding d1_def using d2 b by auto
  have all: "daysSinceEpoch y + yd = 146097 * n400 + d1"
    by (simp add: d d1_def d2_def d3_def)
  have q: "(daysSinceEpoch y + yd) div 146097 = n400" "(daysSinceEpoch y + yd) mod 146097 = d1"
    using d1 by (simp_all add: all mod_pos_pos_trivial)
  have c: "d1 div 36524 - d1 div 36524 div 4 = n100"
    using d2 b by (intro cap_quarter [where r = d2]) (auto simp: d1_def)
  have n4: "d2 div 1461 = n4"
    using d3 by (simp add: d2_def)
  have n1: "d3 div 365 - d3 div 365 div 4 = n1"
    using leap yd b by (intro cap_quarter [where r = yd]) (auto simp: d3_def)
  have d2': "d1 - 36524 * n100 = d2" and d3': "d2 - 1461 * n4 = d3"
    by (simp_all add: d1_def d2_def)
  show ?thesis
    unfolding year_yday_def Let_def q c d2' n4 d3' n1 by (simp add: y d3_def)
qed

lemma cap_quarter_bounds:
  assumes "0 \<le> x" "0 < k" "x \<le> (4::int) * k"
  defines "n \<equiv> x div k - x div k div 4"
  shows "0 \<le> n" "n \<le> 3" "0 \<le> x - k * n" "x - k * n < k \<or> (n = 3 \<and> x = 4 * k)"
proof -
  define q r where "q = x div k" and "r = x mod k"
  have x: "x = k * q + r" "0 \<le> r" "r < k"
    using assms by (simp_all add: q_def r_def)
  have "0 \<le> q" unfolding q_def using assms by (simp add: pos_imp_zdiv_nonneg_iff)
  have "q \<le> 4" unfolding q_def using assms zdiv_mono1 [of x "4 * k" k] by simp
  with \<open>0 \<le> q\<close> consider "q = 0" | "q = 1" | "q = 2" | "q = 3" | "q = 4" by linarith
  then have "0 \<le> n \<and> n \<le> 3 \<and> 0 \<le> x - k * n \<and> (x - k * n < k \<or> (n = 3 \<and> x = 4 * k))"
    unfolding n_def q_def [symmetric] using x assms(3) by cases (auto simp: algebra_simps)
  then show "0 \<le> n" "n \<le> 3" "0 \<le> x - k * n" "x - k * n < k \<or> (n = 3 \<and> x = 4 * k)"
    by blast+
qed

lemma year_yday_inverse:
  assumes "year_yday d = (y, yd)"
  shows "daysSinceEpoch y + yd = d" "0 \<le> yd" "yd < days_in_year y"
proof -
  define n400 d1 where "n400 = d div 146097" and "d1 = d mod 146097"
  define n100 where "n100 = d1 div 36524 - d1 div 36524 div 4"
  define d2 where "d2 = d1 - 36524 * n100"
  define n4 where "n4 = d2 div 1461"
  define d3 where "d3 = d2 - 1461 * n4"
  define n1 where "n1 = d3 div 365 - d3 div 365 div 4"
  have y: "y = 400 * n400 + 100 * n100 + 4 * n4 + n1 + 1" and yd: "yd = d3 - 365 * n1"
    using assms unfolding year_yday_def Let_def n400_def [symmetric] d1_def [symmetric]
      n100_def [symmetric] d2_def [symmetric] n4_def [symmetric] d3_def [symmetric] n1_def [symmetric]
    by simp_all
  have d: "d = 146097 * n400 + d1" "0 \<le> d1" "d1 < 146097"
    by (simp_all add: n400_def d1_def)
  have d1_le: "d1 \<le> 4 * 36524" using d(3) by linarith
  have c: "0 \<le> n100" "n100 \<le> 3" "0 \<le> d2" "d2 < 36524 \<or> (n100 = 3 \<and> d1 = 4 * 36524)"
    unfolding n100_def d2_def using cap_quarter_bounds [OF d(2) _ d1_le] by simp_all
  have d2: "d2 = 1461 * n4 + d3" "0 \<le> d3" "d3 < 1461" "0 \<le> n4"
    using c by (simp_all add: d3_def n4_def pos_imp_zdiv_nonneg_iff minus_mult_div_eq_mod)
  have "d2 \<le> 36524" using c d2_def by auto
  then have n4: "n4 \<le> 24" using d2 by linarith
  have d3_le: "d3 \<le> 4 * 365" using d2(3) by linarith
  have e: "0 \<le> n1" "n1 \<le> 3" "0 \<le> d3 - 365 * n1" "d3 - 365 * n1 < 365 \<or> (n1 = 3 \<and> d3 = 4 * 365)"
    unfolding n1_def using cap_quarter_bounds [OF d2(2) _ d3_le] by simp_all
  show "0 \<le> yd" using e yd by simp
  show "daysSinceEpoch y + yd = d"
    unfolding y using daysSinceEpoch_cycle [OF c(1,2) d2(4) n4 e(1,2)] d d2 yd
    by (simp add: d2_def)
  have "isLeap y \<longleftrightarrow> n1 = 3 \<and> (n4 \<noteq> 24 \<or> n100 = 3)"
    by (rule isLeap_cycle [OF y c(1,2) d2(4) n4 e(1,2)])
  then show "yd < days_in_year y"
    using e yd c d2 unfolding days_in_year_def by auto
qed

text \<open>Month and day of the year, both directions, checked for all days of a common and of a leap year.\<close>

definition month_table_ok :: "bool \<Rightarrow> bool" where
  "month_table_ok leap \<longleftrightarrow>
     list_all (\<lambda>m. list_all (\<lambda>dd. month_day leap (yday_of leap m dd) = (m, dd) \<and>
        0 \<le> yday_of leap m dd \<and> yday_of leap m dd < (if leap then 366 else 365))
        [1..days_in_month leap m]) [1..12]"

definition yday_table_ok :: "bool \<Rightarrow> bool" where
  "yday_table_ok leap \<longleftrightarrow>
     list_all (\<lambda>yd. case month_day leap yd of (m, dd) \<Rightarrow>
        1 \<le> m \<and> m \<le> 12 \<and> 1 \<le> dd \<and> dd \<le> days_in_month leap m \<and> yday_of leap m dd = yd)
        [0..(if leap then 365 else 364)]"

lemma month_table: "month_table_ok leap"
  by (cases leap; simp only:; code_simp)

lemma yday_table: "yday_table_ok leap"
  by (cases leap; simp only:; code_simp)

lemma month_day_yday_of:
  assumes "1 \<le> m" "m \<le> 12" "1 \<le> dd" "dd \<le> days_in_month leap m"
  shows "month_day leap (yday_of leap m dd) = (m, dd)"
    and "0 \<le> yday_of leap m dd" and "yday_of leap m dd < (if leap then 366 else 365)"
  using month_table [of leap] assms by (auto simp: month_table_ok_def list_all_iff)

lemma yday_of_month_day:
  assumes "month_day leap yd = (m, dd)" "0 \<le> yd" "yd < (if leap then 366 else 365)"
  shows "1 \<le> m" "m \<le> 12" "1 \<le> dd" "dd \<le> days_in_month leap m" "yday_of leap m dd = yd"
proof -
  have "yd \<in> set [0..(if leap then 365 else 364)]"
    using assms(2,3) by (auto split: if_splits)
  with yday_table [of leap, unfolded yday_table_ok_def list_all_iff]
  have "case month_day leap yd of (m, dd) \<Rightarrow>
      1 \<le> m \<and> m \<le> 12 \<and> 1 \<le> dd \<and> dd \<le> days_in_month leap m \<and> yday_of leap m dd = yd"
    by (rule bspec)
  then show "1 \<le> m" "m \<le> 12" "1 \<le> dd" "dd \<le> days_in_month leap m" "yday_of leap m dd = yd"
    using assms(1) by simp_all
qed

lemma civil_day_number:
  assumes "valid_date y m dd"
  shows "civil (day_number y m dd) = (y, m, dd)"
proof -
  have "0 \<le> yday_of (isLeap y) m dd" "yday_of (isLeap y) m dd < days_in_year y"
    using assms month_day_yday_of [of m dd "isLeap y"] by (auto simp: valid_date_def days_in_year_def)
  then have "year_yday (day_number y m dd) = (y, yday_of (isLeap y) m dd)"
    unfolding day_number_def by (rule year_yday_daysSinceEpoch)
  then show ?thesis
    using assms month_day_yday_of(1) [of m dd "isLeap y"] by (simp add: civil_def valid_date_def)
qed

lemma day_number_civil:
  assumes "civil d = (y, m, dd)"
  shows "day_number y m dd = d" and "valid_date y m dd"
proof -
  obtain yd where yd: "year_yday d = (y, yd)" and md: "month_day (isLeap y) yd = (m, dd)"
    using assms by (auto simp: civil_def split: prod.splits)
  note inv = year_yday_inverse [OF yd]
  have "yd < (if isLeap y then 366 else 365)" using inv(3) by (simp add: days_in_year_def)
  note md' = yday_of_month_day [OF md inv(2) this]
  show "day_number y m dd = d" using md'(5) inv(1) by (simp add: day_number_def)
  show "valid_date y m dd" using md' by (simp add: valid_date_def)
qed

subsection \<open>\<open>time.Date\<close>, the fields of a time, and \<open>AddDate\<close>\<close>

definition local_seconds :: "Time \<Rightarrow> int" where
  "local_seconds t = instant t div second + zone_offset (zone t) (instant t div second)"

definition TimeDate :: "Time \<Rightarrow> int \<times> int \<times> int" where
  "TimeDate t = civil (local_seconds t div secondsPerDay)"

definition Year :: "Time \<Rightarrow> int" where "Year t = fst (TimeDate t)"
definition Month :: "Time \<Rightarrow> int" where "Month t = fst (snd (TimeDate t))"
definition Day :: "Time \<Rightarrow> int" where "Day t = snd (snd (TimeDate t))"

definition TimeClock :: "Time \<Rightarrow> int \<times> int \<times> int" where
  "TimeClock t =
     (let s = local_seconds t mod secondsPerDay in (s div 3600, s mod 3600 div 60, s mod 60))"

text \<open>
  \<open>Date\<close> normalises every field into the next larger one, converts to seconds and then
  corrects by the offset of the location: it first looks the wall-clock second up as if it were
  UTC and repeats the lookup if the corrected second falls outside that interval.
\<close>

definition Date ::
  "int \<Rightarrow> int \<Rightarrow> int \<Rightarrow> int \<Rightarrow> int \<Rightarrow> int \<Rightarrow> int \<Rightarrow> location \<Rightarrow> Time" where
  "Date year month day hour mn sec nsec l =
     (let m = month - 1; year' = year + m div 12; m' = m mod 12;
          sec' = sec + nsec div second; nsec' = nsec mod second;
          mn' = mn + sec' div 60; sec'' = sec' mod 60;
          hour' = hour + mn' div 60; mn'' = mn' mod 60;
          day' = day + hour' div 24; hour'' = hour' mod 24;
          wall = day_number year' (m' + 1) day' * secondsPerDay
                 + (hour'' * 3600 + mn'' * 60 + sec'');
          secs = (case zone_lookup l wall of (off, st, en) \<Rightarrow>
                    if off = 0 then wall
                    else (let utc = wall - off in
                      if (case st of None \<Rightarrow> False | Some a \<Rightarrow> utc < a)
                         \<or> (case en of None \<Rightarrow> False | Some b \<Rightarrow> utc \<ge> b)
                      then wall - zone_offset l utc else utc))
      in \<lparr>instant = secs * second + nsec', zone = l\<rparr>)"

definition AddDate :: "Time \<Rightarrow> int \<Rightarrow> int \<Rightarrow> int \<Rightarrow> Time" where
  "AddDate t years months days =
     (case TimeDate t of (y, m, d) \<Rightarrow> (case TimeClock t of (hh, mm, ss) \<Rightarrow>
        Date (y + years) (m + months) (d + days) hh mm ss (instant t mod second) (zone t)))"

lemma zone_Date [simp]: "zone (Date y m d hh mm ss n l) = l"
  by (simp add: Date_def Let_def split: prod.splits)

lemma zone_AddDate [simp]: "zone (AddDate t y m d) = zone t"
  by (simp add: AddDate_def split: prod.splits)

text \<open>In a location with one offset, \<open>Date\<close> at midnight and the fields of the result.\<close>

lemma Date_midnight:
  assumes "fixed_zone l"
  shows "instant (Date y m d 0 0 0 0 l) =
    (day_number (y + (m - 1) div 12) ((m - 1) mod 12 + 1) d * secondsPerDay - first_offset l) * second"
  using assms by (simp add: Date_def Let_def)

lemma Date_midnight_valid:
  assumes "fixed_zone l" "1 \<le> m" "m \<le> 12"
  shows "instant (Date y m d 0 0 0 0 l) =
    (day_number y m d * secondsPerDay - first_offset l) * second"
proof -
  have "(m - 1) div 12 = 0" "(m - 1) mod 12 = m - 1"
    using assms by (simp_all add: div_pos_pos_trivial mod_pos_pos_trivial)
  with Date_midnight [OF assms(1), of y m d] show ?thesis by simp
qed

lemma local_seconds_midnight:
  assumes "fixed_zone (zone t)" "instant t = (k * secondsPerDay - first_offset (zone t)) * second"
  shows "local_seconds t = k * secondsPerDay"
  using assms by (simp add: local_seconds_def second_def)

lemma TimeDate_midnight:
  assumes "fixed_zone l" "valid_date y m d"
  shows "TimeDate (Date y m d 0 0 0 0 l) = (y, m, d)"
proof -
  have "local_seconds (Date y m d 0 0 0 0 l) = day_number y m d * secondsPerDay"
    using assms by (intro local_seconds_midnight) (auto simp: Date_midnight_valid valid_date_def)
  with assms(2) show ?thesis
    by (simp add: TimeDate_def secondsPerDay_def civil_day_number)
qed

lemma AddDate_midnight:
  assumes "fixed_zone l" "valid_date y m d"
  shows "AddDate (Date y m d 0 0 0 0 l) dy dm dd = Date (y + dy) (m + dm) (d + dd) 0 0 0 0 l"
proof -
  let ?t = "Date y m d 0 0 0 0 l"
  have i: "instant ?t = (day_number y m d * secondsPerDay - first_offset (zone ?t)) * second"
    using assms by (simp add: Date_midnight_valid valid_date_def)
  have "local_seconds ?t = day_number y m d * secondsPerDay"
    using assms i by (intro local_seconds_midnight) auto
  then have "TimeClock ?t = (0, 0, 0)"
    by (simp add: TimeClock_def secondsPerDay_def)
  moreover have "instant ?t mod second = 0"
    unfolding i by (simp add: second_def)
  ultimately show ?thesis
    using TimeDate_midnight [OF assms] by (simp add: AddDate_def)
qed

lemma day_number_Suc: "day_number y m (d + k) = day_number y m d + k"
  by (simp add: day_number_def yday_of_def)

lemma TimeDate_valid:
  assumes "TimeDate t = (y, m, d)"
  shows "valid_date y m d" "day_number y m d = local_seconds t div secondsPerDay"
  using day_number_civil [of "local_seconds t div secondsPerDay"] assms by (auto simp: TimeDate_def)

text \<open>The first day of the next month comes right after the last day of the month.\<close>

lemma daysSinceEpoch_next: "daysSinceEpoch (y + 1) = daysSinceEpoch y + days_in_year y"
proof -
  obtain n400 n100 n4 n1 where y: "y = 400 * n400 + 100 * n100 + 4 * n4 + n1 + 1"
    and b: "0 \<le> n100" "n100 \<le> 3" "0 \<le> n4" "n4 \<le> 24" "0 \<le> n1" "n1 \<le> 3"
    and d: "daysSinceEpoch y = 146097 * n400 + 36524 * n100 + 1461 * n4 + 365 * n1"
    by (rule year_cycle)
  have leap: "isLeap y \<longleftrightarrow> n1 = 3 \<and> (n4 \<noteq> 24 \<or> n100 = 3)"
    by (rule isLeap_cycle [OF y b])
  consider "n1 < 3" | "n1 = 3" "n4 < 24" | "n1 = 3" "n4 = 24" "n100 < 3" | "n1 = 3" "n4 = 24" "n100 = 3"
    using b by linarith
  then show ?thesis
  proof cases
    case 1
    then show ?thesis
      using daysSinceEpoch_cycle [of n100 n4 "n1 + 1" n400] b d y leap by (simp add: days_in_year_def)
  next
    case 2
    then show ?thesis
      using daysSinceEpoch_cycle [of n100 "n4 + 1" 0 n400] b d y leap by (simp add: days_in_year_def)
  next
    case 3
    then show ?thesis
      using daysSinceEpoch_cycle [of "n100 + 1" 0 0 n400] b d y leap by (simp add: days_in_year_def)
  next
    case 4
    then show ?thesis
      using daysSinceEpoch_cycle [of 0 0 0 "n400 + 1"] b d y leap by (simp add: days_in_year_def)
  qed
qed

lemma month_cases:
  assumes "1 \<le> m" "m \<le> (12::int)"
  obtains "m = 1" | "m = 2" | "m = 3" | "m = 4" | "m = 5" | "m = 6" | "m = 7" | "m = 8" | "m = 9"
    | "m = 10" | "m = 11" | "m = 12"
proof -
  have "m = 1 \<or> m = 2 \<or> m = 3 \<or> m = 4 \<or> m = 5 \<or> m = 6 \<or> m = 7 \<or> m = 8 \<or> m = 9
    \<or> m = 10 \<or> m = 11 \<or> m = 12"
    using assms by presburger
  with that show ?thesis by blast
qed

lemma day_number_next_month:
  assumes "1 \<le> m" "m \<le> 12"
  shows "day_number (y + m div 12) (m mod 12 + 1) 1 = day_number y m 1 + days_in_month (isLeap y) m"
  using assms
proof (cases "m = 12")
  case True
  then show ?thesis
    by (simp add: day_number_def yday_of_def days_in_month_def daysBefore_def daysSinceEpoch_next
        days_in_year_def)
next
  case False
  with assms show ?thesis
    by (cases rule: month_cases [OF assms])
      (simp_all add: day_number_def yday_of_def days_in_month_def daysBefore_def)
qed

subsection \<open>Instants of a local day\<close>

lemma mult_le_iff_le_div:
  assumes "0 < (k::int)"
  shows "a * k \<le> b \<longleftrightarrow> a \<le> b div k"
proof
  assume "a * k \<le> b"
  from zdiv_mono1 [OF this assms] show "a \<le> b div k" using assms by simp
next
  assume "a \<le> b div k"
  then have "a * k \<le> b div k * k" using assms by simp
  also have "\<dots> \<le> b" using assms by (metis add_le_same_cancel1 div_mult_mod_eq pos_mod_sign le_add_same_cancel1)
  finally show "a * k \<le> b" .
qed

text \<open>The number of the local day of an instant.\<close>

definition local_day :: "location \<Rightarrow> int \<Rightarrow> int" where
  "local_day l i = local_seconds \<lparr>instant = i, zone = l\<rparr> div secondsPerDay"

lemma TimeDate_local_day: "TimeDate t = civil (local_day (zone t) (instant t))"
  by (simp add: TimeDate_def local_day_def local_seconds_def)

text \<open>With one offset, local midnight of day \<open>k\<close> is the first instant of day \<open>k\<close>.\<close>

lemma local_midnight_le:
  assumes "fixed_zone l"
  shows "(k * secondsPerDay - first_offset l) * second \<le> i \<longleftrightarrow> k \<le> local_day l i"
proof -
  have "(k * secondsPerDay - first_offset l) * second \<le> i
      \<longleftrightarrow> k * secondsPerDay - first_offset l \<le> i div second"
    by (rule mult_le_iff_le_div) (simp add: second_def)
  also have "\<dots> \<longleftrightarrow> k * secondsPerDay \<le> i div second + first_offset l" by linarith
  also have "\<dots> \<longleftrightarrow> k \<le> (i div second + first_offset l) div secondsPerDay"
    by (rule mult_le_iff_le_div) (simp add: secondsPerDay_def)
  finally show ?thesis using assms by (simp add: local_day_def local_seconds_def)
qed

lemma civil_inj: "civil d = civil d' \<longleftrightarrow> d = d'"
  by (metis day_number_civil(1) prod_cases3)

lemma civil_month_iff:
  assumes "1 \<le> m" "m \<le> 12"
  shows "(\<exists>dd. civil d = (y, m, dd)) \<longleftrightarrow>
    day_number y m 1 \<le> d \<and> d < day_number y m 1 + days_in_month (isLeap y) m"
proof
  assume "\<exists>dd. civil d = (y, m, dd)"
  then obtain dd where "civil d = (y, m, dd)" by blast
  note c = day_number_civil [OF this]
  show "day_number y m 1 \<le> d \<and> d < day_number y m 1 + days_in_month (isLeap y) m"
    using c day_number_Suc [of y m 1 "dd - 1"] by (auto simp: valid_date_def)
next
  assume d: "day_number y m 1 \<le> d \<and> d < day_number y m 1 + days_in_month (isLeap y) m"
  let ?dd = "1 + (d - day_number y m 1)"
  have "valid_date y m ?dd" using d assms by (auto simp: valid_date_def)
  moreover have "day_number y m ?dd = d" by (simp add: day_number_Suc)
  ultimately have "civil d = (y, m, ?dd)" using civil_day_number by metis
  then show "\<exists>dd. civil d = (y, m, dd)" by blast
qed

end
