(* ===== verification/Calendar_Event.thy ===== *)
theory Calendar_Event
  imports Go_Time
begin

text \<open>
  The domain of the calendar: the events and business errors of \<open>internal/storage/event.go\<close>,
  the notifications of \<open>internal/notification/notification.go\<close>, their validation, and the
  abstract calendar every storage implements: a finite map from event identifiers to events
  with the contracts of the four operations of the application's \<open>Storage\<close> interface.
\<close>

subsection \<open>Errors of the calendar services\<close>

text \<open>
  The sentinels of the packages, the two errors of \<open>context\<close>, \<open>io.EOF\<close>, an error of the PostgreSQL driver or of the
  Kafka protocol with its code, any other error of a library by its text, and an error the sources build from a message alone.
\<close>

datatype cal_error =
    ErrEventAlreadyExists
  | ErrEventNotFound
  | ErrDateBusy
  | ErrInvalidEvent
  | ErrNotConnected
  | ErrInvalidNotification
  | ErrInvalidConfig
  | Canceled
  | DeadlineExceeded
  | EOF
  | PqError string
  | KafkaError int
  | LibError string
  | Errorf message

type_synonym error = "cal_error err"
type_synonym cctx = "cal_error ctx"

text \<open>
  A context reports its own two errors only, never one of the storage; this is what
  \<open>context.Context\<close> documents for \<open>Err\<close>.
\<close>

definition ctx_law :: "cctx \<Rightarrow> bool" where
  "ctx_law c \<longleftrightarrow> (\<forall>n e. c n = Some e \<longrightarrow> e = Err Canceled \<or> e = Err DeadlineExceeded)"

lemma ctx_law_live [simp]: "ctx_law live"
  by (simp add: ctx_law_def)

lemma ctx_law_cause:
  assumes "ctx_law c" "c n = Some e"
  shows "root_cause e = Canceled \<or> root_cause e = DeadlineExceeded"
  using assms unfolding ctx_law_def by fastforce

subsection \<open>Events\<close>

record Event =
  ID :: string
  Title :: string
  StartAt :: Time
  EndAt :: Time
  Description :: string
  UserID :: string
  NotifyBefore :: int

definition ValidateEvent :: "Event \<Rightarrow> error option" where
  "ValidateEvent event =
     (if blank (ID event) \<or> blank (Title event) \<or> blank (UserID event)
         \<or> IsZero (StartAt event) \<or> IsZero (EndAt event)
         \<or> \<not> After (EndAt event) (StartAt event)
         \<or> NotifyBefore event < 0
      then Some (Err ErrInvalidEvent) else None)"

definition valid_event :: "Event \<Rightarrow> bool" where
  "valid_event e \<longleftrightarrow> ValidateEvent e = None"

lemma valid_eventD:
  assumes "valid_event e"
  shows "\<not> blank (ID e)" "\<not> blank (Title e)" "\<not> blank (UserID e)"
    "instant (StartAt e) < instant (EndAt e)" "0 \<le> NotifyBefore e"
    "\<not> IsZero (StartAt e)" "\<not> IsZero (EndAt e)"
  using assms by (auto simp: valid_event_def ValidateEvent_def time_cmp split: if_splits)

lemma ValidateEvent_cases: "ValidateEvent e = (if valid_event e then None else Some (Err ErrInvalidEvent))"
  by (auto simp: valid_event_def ValidateEvent_def split: if_splits)

subsection \<open>Notifications\<close>

record Notification =
  n_EventID :: string
  n_Title :: string
  n_EventAt :: Time
  n_UserID :: string

definition ValidateNotification :: "Notification \<Rightarrow> error option" where
  "ValidateNotification n =
     (if blank (n_EventID n) then Some (Wrap [Lit '': event ID is empty''] (Err ErrInvalidNotification))
      else if blank (n_Title n) then Some (Wrap [Lit '': title is empty''] (Err ErrInvalidNotification))
      else if IsZero (n_EventAt n) then Some (Wrap [Lit '': event time is zero''] (Err ErrInvalidNotification))
      else if blank (n_UserID n) then Some (Wrap [Lit '': user ID is empty''] (Err ErrInvalidNotification))
      else None)"

lemma ValidateNotification_error:
  "ValidateNotification n = Some e \<Longrightarrow> root_cause e = ErrInvalidNotification"
  by (auto simp: ValidateNotification_def split: if_splits)

text \<open>The notification the scheduler builds for a valid event is valid.\<close>

definition notification_of :: "Event \<Rightarrow> Notification" where
  "notification_of e =
     \<lparr>n_EventID = ID e, n_Title = Title e, n_EventAt = StartAt e, n_UserID = UserID e\<rparr>"

lemma notification_of_valid: "valid_event e \<Longrightarrow> ValidateNotification (notification_of e) = None"
  by (auto simp: ValidateNotification_def notification_of_def dest: valid_eventD)

subsection \<open>Intervals\<close>

definition intervalsOverlap :: "Time \<Rightarrow> Time \<Rightarrow> Time \<Rightarrow> Time \<Rightarrow> bool" where
  "intervalsOverlap firstStart firstEnd secondStart secondEnd \<longleftrightarrow>
     Before firstStart secondEnd \<and> Before secondStart firstEnd"

text \<open>
  What the check means: two non-empty half-open intervals overlap exactly when they share an
  instant.
\<close>

definition covers :: "Time \<Rightarrow> Time \<Rightarrow> int \<Rightarrow> bool" where
  "covers s e i \<longleftrightarrow> instant s \<le> i \<and> i < instant e"

lemma intervalsOverlap_iff_common:
  assumes "Before a b" "Before c d"
  shows "intervalsOverlap a b c d \<longleftrightarrow> (\<exists>i. covers a b i \<and> covers c d i)"
proof
  assume "intervalsOverlap a b c d"
  then have "covers a b (max (instant a) (instant c)) \<and> covers c d (max (instant a) (instant c))"
    using assms by (auto simp: intervalsOverlap_def covers_def time_cmp)
  then show "\<exists>i. covers a b i \<and> covers c d i" by blast
next
  assume "\<exists>i. covers a b i \<and> covers c d i"
  then show "intervalsOverlap a b c d"
    by (auto simp: intervalsOverlap_def covers_def time_cmp)
qed

lemma intervalsOverlap_sym: "intervalsOverlap a b c d \<longleftrightarrow> intervalsOverlap c d a b"
  by (auto simp: intervalsOverlap_def)

subsection \<open>The abstract calendar\<close>

type_synonym calendar = "string \<rightharpoonup> Event"

definition clash :: "Event \<Rightarrow> Event \<Rightarrow> bool" where
  "clash e f \<longleftrightarrow> UserID e = UserID f \<and> intervalsOverlap (StartAt e) (EndAt e) (StartAt f) (EndAt f)"

lemma clash_sym: "clash e f \<longleftrightarrow> clash f e"
  by (auto simp: clash_def intervalsOverlap_sym)

text \<open>The user of \<open>ev\<close> has another event at that time, one stored under an identifier other than \<open>excluded\<close>.\<close>

definition busy :: "calendar \<Rightarrow> Event \<Rightarrow> string option \<Rightarrow> bool" where
  "busy m ev excluded \<longleftrightarrow> (\<exists>i e. m i = Some e \<and> excluded \<noteq> Some i \<and> clash e ev)"

text \<open>
  A consistent calendar: every event is valid and stored under its own identifier, and no user
  has two events at the same time.
\<close>

definition calendar_ok :: "calendar \<Rightarrow> bool" where
  "calendar_ok m \<longleftrightarrow>
     (\<forall>i e. m i = Some e \<longrightarrow> valid_event e \<and> ID e = i) \<and>
     (\<forall>i j e f. m i = Some e \<longrightarrow> m j = Some f \<longrightarrow> i \<noteq> j \<longrightarrow> \<not> clash e f)"

lemma calendar_ok_empty [simp]: "calendar_ok Map.empty"
  by (simp add: calendar_ok_def)

lemma calendar_okD:
  assumes "calendar_ok m" "m i = Some e"
  shows "valid_event e" "ID e = i"
  using assms by (auto simp: calendar_ok_def)

lemma calendar_ok_insert:
  assumes "calendar_ok m" "valid_event ev" "\<not> busy m ev (Some (ID ev))"
  shows "calendar_ok (m(ID ev \<mapsto> ev))"
proof -
  have "\<not> clash e ev \<and> \<not> clash ev e" if "m i = Some e" "i \<noteq> ID ev" for i e
    using assms(3) that by (auto simp: busy_def clash_sym)
  with assms(1,2) show ?thesis
    unfolding calendar_ok_def by auto
qed

text \<open>
  What survives a storage that rounds the times it keeps: as above, but a start may have been rounded to the zero time.
\<close>

definition proper_event :: "Event \<Rightarrow> bool" where
  "proper_event e \<longleftrightarrow> \<not> blank (ID e) \<and> \<not> blank (Title e) \<and> \<not> blank (UserID e) \<and> Before (StartAt e) (EndAt e) \<and> 0 \<le> NotifyBefore e"

definition consistent :: "calendar \<Rightarrow> bool" where
  "consistent m \<longleftrightarrow>
     (\<forall>i e. m i = Some e \<longrightarrow> proper_event e \<and> ID e = i) \<and>
     (\<forall>i j e f. m i = Some e \<longrightarrow> m j = Some f \<longrightarrow> i \<noteq> j \<longrightarrow> \<not> clash e f)"

lemma valid_event_proper: "valid_event e \<Longrightarrow> proper_event e"
  by (auto simp: proper_event_def Before_def dest: valid_eventD)

lemma calendar_ok_consistent: "calendar_ok m \<Longrightarrow> consistent m"
  unfolding calendar_ok_def consistent_def using valid_event_proper by blast

lemma consistent_empty [simp]: "consistent Map.empty"
  by (simp add: consistent_def)

lemma consistentD:
  assumes "consistent m" "m i = Some e"
  shows "proper_event e" "ID e = i"
  using assms by (auto simp: consistent_def)

lemma consistent_insert:
  assumes "consistent m" "proper_event ev" "\<not> busy m ev (Some (ID ev))"
  shows "consistent (m(ID ev \<mapsto> ev))"
proof -
  have "\<not> clash e ev \<and> \<not> clash ev e" if "m i = Some e" "i \<noteq> ID ev" for i e
    using assms(3) that by (auto simp: busy_def clash_sym)
  with assms(1,2) show ?thesis
    unfolding consistent_def by auto
qed

lemma consistent_submap: "consistent m \<Longrightarrow> m' \<subseteq>\<^sub>m m \<Longrightarrow> consistent m'"
  unfolding consistent_def map_le_def by (metis domI)

lemma consistent_delete: "consistent m \<Longrightarrow> consistent (m(i := None))"
  by (simp add: consistent_def)

lemma calendar_ok_delete: "calendar_ok m \<Longrightarrow> calendar_ok (m(i := None))"
  by (simp add: calendar_ok_def)

lemma calendar_ok_submap: "calendar_ok m \<Longrightarrow> m' \<subseteq>\<^sub>m m \<Longrightarrow> calendar_ok m'"
  unfolding calendar_ok_def map_le_def by (metis domI)

text \<open>
  The contracts of the interface \<open>Storage\<close> of \<open>internal/app\<close>: what an answer says of the
  calendar before and after, for a storage that keeps a time \<open>t\<close> as \<open>rnd t\<close> (the identity in memory, the resolution of
  a timestamp column in PostgreSQL). A success has taken effect. A failure that names a reason (one of the
  sentinels) tells the truth and has changed nothing; after any other failure, such as a lost connection, the call may
  have taken effect, as a whole.
\<close>

definition kept_as :: "(Time \<Rightarrow> Time) \<Rightarrow> Event \<Rightarrow> Event" where
  "kept_as rnd ev = ev\<lparr>StartAt := rnd (StartAt ev), EndAt := rnd (EndAt ev)\<rparr>"

lemma kept_as_id [simp]: "kept_as (\<lambda>t. t) ev = ev"
  by (simp add: kept_as_def)

lemma kept_as_fields [simp]:
  "ID (kept_as rnd ev) = ID ev" "Title (kept_as rnd ev) = Title ev" "UserID (kept_as rnd ev) = UserID ev"
  "NotifyBefore (kept_as rnd ev) = NotifyBefore ev" "Description (kept_as rnd ev) = Description ev"
  "StartAt (kept_as rnd ev) = rnd (StartAt ev)" "EndAt (kept_as rnd ev) = rnd (EndAt ev)"
  by (simp_all add: kept_as_def)

definition states_reason :: "error \<Rightarrow> bool" where
  "states_reason e \<longleftrightarrow> errors_is e ErrInvalidEvent \<or> errors_is e ErrEventAlreadyExists \<or> errors_is e ErrEventNotFound \<or> errors_is e ErrDateBusy"

definition created :: "(Time \<Rightarrow> Time) \<Rightarrow> calendar \<Rightarrow> Event \<Rightarrow> calendar \<Rightarrow> bool" where
  "created rnd m ev m' \<longleftrightarrow> valid_event ev \<and> proper_event (kept_as rnd ev) \<and> ID ev \<notin> dom m \<and>
     \<not> busy m (kept_as rnd ev) None \<and> m' = m(ID ev \<mapsto> kept_as rnd ev)"

definition updated :: "(Time \<Rightarrow> Time) \<Rightarrow> calendar \<Rightarrow> Event \<Rightarrow> calendar \<Rightarrow> bool" where
  "updated rnd m ev m' \<longleftrightarrow> valid_event ev \<and> proper_event (kept_as rnd ev) \<and> ID ev \<in> dom m \<and>
     \<not> busy m (kept_as rnd ev) (Some (ID ev)) \<and> m' = m(ID ev \<mapsto> kept_as rnd ev)"

definition create_post :: "(Time \<Rightarrow> Time) \<Rightarrow> calendar \<Rightarrow> Event \<Rightarrow> error option \<Rightarrow> calendar \<Rightarrow> bool" where
  "create_post rnd m ev r m' \<longleftrightarrow>
     (case r of
        None \<Rightarrow> created rnd m ev m'
      | Some e \<Rightarrow> (m' = m \<or> \<not> states_reason e \<and> created rnd m ev m') \<and>
          (errors_is e ErrInvalidEvent \<longrightarrow> \<not> valid_event ev \<or> \<not> proper_event (kept_as rnd ev)) \<and>
          (errors_is e ErrEventAlreadyExists \<longrightarrow> ID ev \<in> dom m) \<and>
          (errors_is e ErrDateBusy \<longrightarrow> busy m (kept_as rnd ev) None))"

definition update_post :: "(Time \<Rightarrow> Time) \<Rightarrow> calendar \<Rightarrow> Event \<Rightarrow> error option \<Rightarrow> calendar \<Rightarrow> bool" where
  "update_post rnd m ev r m' \<longleftrightarrow>
     (case r of
        None \<Rightarrow> updated rnd m ev m'
      | Some e \<Rightarrow> (m' = m \<or> \<not> states_reason e \<and> updated rnd m ev m') \<and>
          (errors_is e ErrInvalidEvent \<longrightarrow> \<not> valid_event ev \<or> \<not> proper_event (kept_as rnd ev)) \<and>
          (errors_is e ErrEventNotFound \<longrightarrow> ID ev \<notin> dom m) \<and>
          (errors_is e ErrDateBusy \<longrightarrow> busy m (kept_as rnd ev) (Some (ID ev))))"

definition delete_post :: "calendar \<Rightarrow> string \<Rightarrow> error option \<Rightarrow> calendar \<Rightarrow> bool" where
  "delete_post m i r m' \<longleftrightarrow>
     (case r of
        None \<Rightarrow> i \<in> dom m \<and> m' = m(i := None)
      | Some e \<Rightarrow> (m' = m \<or> \<not> states_reason e \<and> i \<in> dom m \<and> m' = m(i := None)) \<and>
          (errors_is e ErrInvalidEvent \<longrightarrow> blank i) \<and>
          (errors_is e ErrEventNotFound \<longrightarrow> i \<notin> dom m))"

definition list_key :: "Event \<Rightarrow> int \<times> string" where
  "list_key e = (instant (StartAt e), ID e)"

definition in_range :: "string \<Rightarrow> Time \<Rightarrow> Time \<Rightarrow> Event \<Rightarrow> bool" where
  "in_range userID from to e \<longleftrightarrow>
     UserID e = userID \<and> intervalsOverlap (StartAt e) (EndAt e) from to"

definition valid_query :: "string \<Rightarrow> Time \<Rightarrow> Time \<Rightarrow> bool" where
  "valid_query userID from to \<longleftrightarrow> \<not> blank userID \<and> \<not> IsZero from \<and> \<not> IsZero to \<and> Before from to"

definition list_post :: "(Time \<Rightarrow> Time) \<Rightarrow> calendar \<Rightarrow> string \<Rightarrow> Time \<Rightarrow> Time \<Rightarrow> error + Event list \<Rightarrow> bool" where
  "list_post rnd m userID from to r \<longleftrightarrow>
     (case r of
        Inr es \<Rightarrow> valid_query userID from to \<and> distinct es \<and> sorted (map list_key es) \<and>
                  set es = {e \<in> ran m. in_range userID (rnd from) (rnd to) e}
      | Inl e \<Rightarrow> errors_is e ErrInvalidEvent \<longrightarrow> \<not> valid_query userID from to)"

lemma created_consistent: "consistent m \<Longrightarrow> created rnd m ev m' \<Longrightarrow> consistent m'"
  using consistent_insert [of m "kept_as rnd ev"] by (auto simp: created_def busy_def)

lemma updated_consistent: "consistent m \<Longrightarrow> updated rnd m ev m' \<Longrightarrow> consistent m'"
  using consistent_insert [of m "kept_as rnd ev"] by (auto simp: updated_def)

lemma create_post_ok: "consistent m \<Longrightarrow> create_post rnd m ev r m' \<Longrightarrow> consistent m'"
  using created_consistent by (auto simp: create_post_def split: option.splits)

lemma update_post_ok: "consistent m \<Longrightarrow> update_post rnd m ev r m' \<Longrightarrow> consistent m'"
  using updated_consistent by (auto simp: update_post_def split: option.splits)

lemma delete_post_ok: "consistent m \<Longrightarrow> delete_post m i r m' \<Longrightarrow> consistent m'"
  by (auto simp: delete_post_def consistent_delete split: option.splits)

lemmas post_ok = create_post_ok update_post_ok delete_post_ok
lemmas post_defs = create_post_def update_post_def delete_post_def created_def updated_def

text \<open>A storage that keeps the times as they are keeps valid events valid.\<close>

lemma exact_post_ok:
  "calendar_ok m \<Longrightarrow> create_post (\<lambda>t. t) m ev r m' \<Longrightarrow> calendar_ok m'"
  "calendar_ok m \<Longrightarrow> update_post (\<lambda>t. t) m ev r m' \<Longrightarrow> calendar_ok m'"
  "calendar_ok m \<Longrightarrow> delete_post m i r m' \<Longrightarrow> calendar_ok m'"
  using calendar_ok_insert [of m ev]
  by (auto simp: post_defs busy_def calendar_ok_delete split: option.splits)

text \<open>Two answers to the same query are the same list: the order is total on a consistent calendar.\<close>

lemma list_post_unique:
  assumes "consistent m" "list_post rnd m u a b (Inr es)" "list_post rnd m u a b (Inr fs)"
  shows "es = fs"
proof (rule sorted_perm_unique [where k = list_key])
  have e: "set es \<subseteq> ran m" "set es = set fs" "distinct es" "distinct fs"
    using assms by (auto simp: list_post_def)
  then show "mset es = mset fs" by (simp add: set_eq_iff_mset_eq_distinct)
  show "sorted (map list_key es)" "sorted (map list_key fs)"
    using assms by (auto simp: list_post_def)
  have "inj_on list_key (set es)"
  proof (rule inj_onI)
    fix x y assume "x \<in> set es" "y \<in> set es" "list_key x = list_key y"
    then have "x \<in> ran m" "y \<in> ran m" "ID x = ID y"
      using e(1) by (auto simp: list_key_def)
    then show "x = y"
      using assms(1) unfolding ran_def mem_Collect_eq by (metis consistentD(2) option.inject)
  qed
  with e show "distinct (map list_key es)" by (simp add: distinct_map)
qed

subsection \<open>The interface of an event storage\<close>

text \<open>
  The locale states what the application relies on: operations on a storage state \<open>'s\<close>, an
  abstraction to the calendar, an invariant, and one contract per operation. \<open>rnd\<close> is how the storage keeps a time.
  The locale is interpreted on both storages; \<open>atomic_storage\<close> adds what only the in-memory storage promises,
  that no failed call has taken effect.
\<close>

locale event_storage =
  fixes create :: "cctx \<Rightarrow> Event \<Rightarrow> 's \<Rightarrow> error option \<times> 's"
    and update :: "cctx \<Rightarrow> Event \<Rightarrow> 's \<Rightarrow> error option \<times> 's"
    and delete :: "cctx \<Rightarrow> string \<Rightarrow> 's \<Rightarrow> error option \<times> 's"
    and list :: "cctx \<Rightarrow> string \<Rightarrow> Time \<Rightarrow> Time \<Rightarrow> 's \<Rightarrow> error + Event list"
    and abs :: "'s \<Rightarrow> calendar"
    and invar :: "'s \<Rightarrow> bool"
    and rnd :: "Time \<Rightarrow> Time"
  assumes invar_calendar: "invar s \<Longrightarrow> consistent (abs s)"
    and create_invar: "ctx_law c \<Longrightarrow> invar s \<Longrightarrow> create c ev s = (r, s') \<Longrightarrow> invar s'"
    and update_invar: "ctx_law c \<Longrightarrow> invar s \<Longrightarrow> update c ev s = (r, s') \<Longrightarrow> invar s'"
    and delete_invar: "ctx_law c \<Longrightarrow> invar s \<Longrightarrow> delete c i s = (r, s') \<Longrightarrow> invar s'"
    and create_contract: "ctx_law c \<Longrightarrow> invar s \<Longrightarrow> create c ev s = (r, s') \<Longrightarrow> create_post rnd (abs s) ev r (abs s')"
    and update_contract: "ctx_law c \<Longrightarrow> invar s \<Longrightarrow> update c ev s = (r, s') \<Longrightarrow> update_post rnd (abs s) ev r (abs s')"
    and delete_contract: "ctx_law c \<Longrightarrow> invar s \<Longrightarrow> delete c i s = (r, s') \<Longrightarrow> delete_post (abs s) i r (abs s')"
    and list_contract: "ctx_law c \<Longrightarrow> invar s \<Longrightarrow> list_post rnd (abs s) u a b (list c u a b s)"
begin

text \<open>Reading back: an event that was created is listed, as it is kept, in every range it overlaps.\<close>

lemma create_then_list:
  assumes "invar s" "create c ev s = (None, s')" "list c' (UserID ev) a b s' = Inr es"
    and "intervalsOverlap (rnd (StartAt ev)) (rnd (EndAt ev)) (rnd a) (rnd b)" and law: "ctx_law c" "ctx_law c'"
  shows "kept_as rnd ev \<in> set es"
proof -
  have "abs s' (ID ev) = Some (kept_as rnd ev)"
    using create_contract [OF law(1) assms(1,2)] by (simp add: create_post_def created_def)
  then have "kept_as rnd ev \<in> {e \<in> ran (abs s'). in_range (UserID ev) (rnd a) (rnd b) e}"
    using assms(4) by (auto simp: in_range_def ran_def)
  moreover have "set es = {e \<in> ran (abs s'). in_range (UserID ev) (rnd a) (rnd b) e}"
    using list_contract [OF law(2) create_invar [OF law(1) assms(1,2)], where u = "UserID ev" and a = a and b = b] assms(3)
    by (simp add: list_post_def)
  ultimately show ?thesis by simp
qed

text \<open>An event that was deleted is never listed.\<close>

lemma delete_then_list:
  assumes "invar s" "delete c i s = (None, s')" "list c' u a b s' = Inr es" "e \<in> set es"
    and law: "ctx_law c" "ctx_law c'"
  shows "ID e \<noteq> i"
proof -
  have "abs s' i = None"
    using delete_contract [OF law(1) assms(1,2)] by (simp add: delete_post_def)
  moreover have "e \<in> ran (abs s')"
    using list_contract [OF law(2) delete_invar [OF law(1) assms(1,2)], where u = u and a = a and b = b] assms(3,4)
    by (auto simp: list_post_def)
  then obtain j where "abs s' j = Some e" by (auto simp: ran_def)
  moreover from this have "ID e = j"
    using invar_calendar [OF delete_invar [OF law(1) assms(1,2)]] by (auto dest: consistentD)
  ultimately show ?thesis by auto
qed

text \<open>A listing never shows two different events of the user at the same time.\<close>

lemma list_no_clash:
  assumes "invar s" "list c u a b s = Inr es" "e \<in> set es" "f \<in> set es" "e \<noteq> f" and law: "ctx_law c"
  shows "\<not> intervalsOverlap (StartAt e) (EndAt e) (StartAt f) (EndAt f)"
proof -
  have s: "set es = {e \<in> ran (abs s). in_range u (rnd a) (rnd b) e}"
    using list_contract [OF law assms(1), where u = u and a = a and b = b] assms(2)
    by (simp add: list_post_def)
  with assms(3,4) obtain i j where ij: "abs s i = Some e" "abs s j = Some f"
    by (auto simp: ran_def)
  with assms(5) have "i \<noteq> j" by auto
  with ij invar_calendar [OF assms(1)] have "\<not> clash e f"
    unfolding consistent_def by blast
  moreover have "UserID e = u" "UserID f = u"
    using s assms(3,4) by (auto simp: in_range_def)
  ultimately show ?thesis by (simp add: clash_def)
qed

end

locale atomic_storage = event_storage +
  assumes create_atomic: "create c ev s = (Some e, s') \<Longrightarrow> abs s' = abs s"
    and update_atomic: "update c ev s = (Some e, s') \<Longrightarrow> abs s' = abs s"
    and delete_atomic: "delete c i s = (Some e, s') \<Longrightarrow> abs s' = abs s"

end
