(* ===== verification/Memory_Storage.thy ===== *)
theory Memory_Storage
  imports Calendar_Event
begin

text \<open>
  The in-memory storage of \<open>internal/storage/memory/storage.go\<close>. The state is the map of
  events (\<open>None\<close> is a nil map, which reads as empty); each operation is the section between
  \<open>Lock\<close> and \<open>Unlock\<close> together with the checks before it, which do not read the state, so
  concurrent calls are sequences of these steps. A context answers its polls in order:
  poll 0 before the lock, poll 1 after it.
\<close>

record Storage =
  events :: "(string, Event) gomap option"

definition New :: Storage where
  "New = \<lparr>events = Some []\<rparr>"

definition stored :: "Storage \<Rightarrow> (string, Event) gomap" where
  "stored s = (case events s of None \<Rightarrow> [] | Some m \<Rightarrow> m)"

text \<open>The loop of \<open>dateBusy\<close>: skip the excluded event and those of other users, stop at the first overlap.\<close>

fun dateBusy_loop :: "(string, Event) gomap \<Rightarrow> Event \<Rightarrow> string \<Rightarrow> bool" where
  "dateBusy_loop [] candidate excludedID = False"
| "dateBusy_loop ((i, event) # rest) candidate excludedID =
     (if i = excludedID \<or> UserID event \<noteq> UserID candidate
      then dateBusy_loop rest candidate excludedID
      else if intervalsOverlap (StartAt event) (EndAt event) (StartAt candidate) (EndAt candidate)
      then True
      else dateBusy_loop rest candidate excludedID)"

definition dateBusy :: "Storage \<Rightarrow> Event \<Rightarrow> string \<Rightarrow> bool" where
  "dateBusy s candidate excludedID = dateBusy_loop (stored s) candidate excludedID"

definition CreateEvent :: "cctx \<Rightarrow> Event \<Rightarrow> Storage \<Rightarrow> error option \<times> Storage" where
  "CreateEvent ctx event s =
     (case ctx 0 of Some err \<Rightarrow> (Some err, s) | None \<Rightarrow>
      case ValidateEvent event of Some err \<Rightarrow> (Some err, s) | None \<Rightarrow>
      case ctx 1 of Some err \<Rightarrow> (Some err, s) | None \<Rightarrow>
      if map_of (stored s) (ID event) \<noteq> None then (Some (Err ErrEventAlreadyExists), s)
      else if dateBusy s event '''' then (Some (Err ErrDateBusy), s)
      else (let s1 = (if events s = None then s\<lparr>events := Some []\<rparr> else s)
            in (None, s1\<lparr>events := Some (AList.update (ID event) event (stored s1))\<rparr>)))"

definition UpdateEvent :: "cctx \<Rightarrow> Event \<Rightarrow> Storage \<Rightarrow> error option \<times> Storage" where
  "UpdateEvent ctx event s =
     (case ctx 0 of Some err \<Rightarrow> (Some err, s) | None \<Rightarrow>
      case ValidateEvent event of Some err \<Rightarrow> (Some err, s) | None \<Rightarrow>
      case ctx 1 of Some err \<Rightarrow> (Some err, s) | None \<Rightarrow>
      if map_of (stored s) (ID event) = None then (Some (Err ErrEventNotFound), s)
      else if dateBusy s event (ID event) then (Some (Err ErrDateBusy), s)
      else (None, s\<lparr>events := Some (AList.update (ID event) event (stored s))\<rparr>))"

definition DeleteEvent :: "cctx \<Rightarrow> string \<Rightarrow> Storage \<Rightarrow> error option \<times> Storage" where
  "DeleteEvent ctx i s =
     (case ctx 0 of Some err \<Rightarrow> (Some err, s) | None \<Rightarrow>
      if blank i then (Some (Err ErrInvalidEvent), s) else
      case ctx 1 of Some err \<Rightarrow> (Some err, s) | None \<Rightarrow>
      if map_of (stored s) i = None then (Some (Err ErrEventNotFound), s)
      else (None, s\<lparr>events := Some (AList.delete i (stored s))\<rparr>))"

text \<open>The loop of \<open>ListEvents\<close> polls the context before each entry; \<open>k\<close> is the next poll.\<close>

fun list_loop ::
  "cctx \<Rightarrow> nat \<Rightarrow> string \<Rightarrow> Time \<Rightarrow> Time \<Rightarrow> (string, Event) gomap \<Rightarrow> Event list
    \<Rightarrow> error + (Event list \<times> nat)" where
  "list_loop ctx k userID from to [] acc = Inr (acc, k)"
| "list_loop ctx k userID from to ((i, event) # rest) acc =
     (case ctx k of
        Some err \<Rightarrow> Inl err
      | None \<Rightarrow> list_loop ctx (Suc k) userID from to rest
          (if UserID event = userID \<and> intervalsOverlap (StartAt event) (EndAt event) from to
           then acc @ [event] else acc))"

definition ListEvents ::
  "cctx \<Rightarrow> string \<Rightarrow> Time \<Rightarrow> Time \<Rightarrow> Storage \<Rightarrow> error + Event list" where
  "ListEvents ctx userID from to s =
     (case ctx 0 of Some err \<Rightarrow> Inl err | None \<Rightarrow>
      if blank userID \<or> IsZero from \<or> IsZero to \<or> \<not> After to from then Inl (Err ErrInvalidEvent)
      else case list_loop ctx 1 userID from to (stored s) [] of
             Inl err \<Rightarrow> Inl err
           | Inr (es, k) \<Rightarrow>
               (let sorted_es = sort_key (\<lambda>e. (instant (StartAt e), ID e)) es
                in case ctx k of Some err \<Rightarrow> Inl err | None \<Rightarrow> Inr sorted_es))"

subsection \<open>Abstraction and invariant\<close>

definition calendar_of :: "Storage \<Rightarrow> calendar" where
  "calendar_of s = map_of (stored s)"

definition storage_inv :: "Storage \<Rightarrow> bool" where
  "storage_inv s \<longleftrightarrow> gomap_ok (stored s) \<and> calendar_ok (calendar_of s)"

lemma storage_inv_New [simp]: "storage_inv New"
  by (simp add: storage_inv_def calendar_of_def stored_def New_def)

lemma stored_upd [simp]: "stored (s\<lparr>events := Some m\<rparr>) = m"
  by (simp add: stored_def)

lemma stored_make [simp]: "stored (if events s = None then s\<lparr>events := Some []\<rparr> else s) = stored s"
  by (simp add: stored_def)

lemma dateBusy_loop_iff:
  "dateBusy_loop m ev x \<longleftrightarrow> (\<exists>(i, e) \<in> set m. i \<noteq> x \<and> clash e ev)"
  by (induction m ev x rule: dateBusy_loop.induct) (auto simp: clash_def)

lemma dateBusy_iff:
  assumes "storage_inv s"
  shows "dateBusy s ev x \<longleftrightarrow> busy (calendar_of s) ev (Some x)"
  using assms by (force simp: dateBusy_def dateBusy_loop_iff busy_def calendar_of_def storage_inv_def gomap_mem)

lemma dateBusy_create:
  assumes "storage_inv s"
  shows "dateBusy s ev '''' \<longleftrightarrow> busy (calendar_of s) ev None"
proof -
  have "calendar_of s '''' = None"
  proof (rule ccontr)
    assume "calendar_of s '''' \<noteq> None"
    then obtain e where "calendar_of s '''' = Some e" by auto
    with assms have "valid_event e" "ID e = ''''"
      by (auto simp: storage_inv_def dest: calendar_okD)
    then show False using valid_eventD(1) by fastforce
  qed
  then show ?thesis
    unfolding dateBusy_iff [OF assms] busy_def by (metis option.distinct(1) option.inject)
qed

subsection \<open>The operations meet their contracts\<close>

lemma CreateEvent_contract:
  assumes "ctx_law c" "storage_inv s" "CreateEvent c ev s = (r, s')"
  shows "create_post (\<lambda>t. t) (calendar_of s) ev r (calendar_of s')"
  using assms(3)
  by (auto simp: CreateEvent_def create_post_def created_def valid_event_proper states_reason_def dateBusy_create [OF assms(2)] ValidateEvent_cases
      Let_def calendar_of_def update_conv dom_def split: option.splits if_splits dest!: ctx_law_cause [OF assms(1)])

text \<open>Creation under a context nobody cancels, branch by branch.\<close>

lemma CreateEvent_live:
  assumes "storage_inv s"
  shows "CreateEvent live ev s = (r, s') \<Longrightarrow>
    r = (if \<not> valid_event ev then Some (Err ErrInvalidEvent)
         else if ID ev \<in> dom (calendar_of s) then Some (Err ErrEventAlreadyExists)
         else if busy (calendar_of s) ev None then Some (Err ErrDateBusy)
         else None)
    \<and> (r = None \<longrightarrow> calendar_of s' = (calendar_of s)(ID ev \<mapsto> ev))
    \<and> (r \<noteq> None \<longrightarrow> s' = s)"
  by (auto simp: CreateEvent_def dateBusy_create [OF assms] ValidateEvent_cases Let_def calendar_of_def
      update_conv dom_def split: if_splits)

lemma DeleteEvent_live:
  "DeleteEvent live i s = (r, s') \<Longrightarrow>
    r = (if blank i then Some (Err ErrInvalidEvent) else if i \<notin> dom (calendar_of s) then Some (Err ErrEventNotFound) else None)
    \<and> (r = None \<longrightarrow> calendar_of s' = (calendar_of s)(i := None)) \<and> (r \<noteq> None \<longrightarrow> s' = s)"
  by (auto simp: DeleteEvent_def calendar_of_def delete_conv stored_def split: if_splits)

lemma UpdateEvent_contract:
  assumes "ctx_law c" "storage_inv s" "UpdateEvent c ev s = (r, s')"
  shows "update_post (\<lambda>t. t) (calendar_of s) ev r (calendar_of s')"
  using assms(3)
  by (auto simp: UpdateEvent_def update_post_def updated_def valid_event_proper states_reason_def dateBusy_iff [OF assms(2)] ValidateEvent_cases
      calendar_of_def update_conv dom_def split: option.splits if_splits dest!: ctx_law_cause [OF assms(1)])

lemma DeleteEvent_contract:
  assumes "ctx_law c" "storage_inv s" "DeleteEvent c i s = (r, s')"
  shows "delete_post (calendar_of s) i r (calendar_of s')"
  using assms(3)
  by (auto simp: DeleteEvent_def delete_post_def calendar_of_def delete_conv dom_def
      split: option.splits if_splits dest!: ctx_law_cause [OF assms(1)])

lemma list_loop_result:
  "list_loop ctx k u a b m acc = Inr (es, k') \<Longrightarrow>
     es = acc @ filter (in_range u a b) (map snd m) \<and> k' = k + length m"
  by (induction ctx k u a b m acc rule: list_loop.induct)
    (auto simp: in_range_def split: option.splits if_splits)

lemma list_loop_error:
  "list_loop ctx k u a b m acc = Inl err \<Longrightarrow> \<exists>n. ctx n = Some err"
  by (induction ctx k u a b m acc rule: list_loop.induct) (auto split: option.splits)

lemma list_loop_live:
  "list_loop live k u a b m acc = Inr (acc @ filter (in_range u a b) (map snd m), k + length m)"
  by (induction m arbitrary: k acc) (auto simp: in_range_def)

lemma storage_inv_distinct:
  assumes "storage_inv s"
  shows "distinct (map snd (stored s))"
proof -
  have "ID e = i" if "(i, e) \<in> set (stored s)" for i e
    using that assms by (auto simp: storage_inv_def calendar_of_def gomap_mem dest: calendar_okD(2))
  then have eq: "map (ID \<circ> snd) (stored s) = map fst (stored s)" by (auto intro: map_cong)
  have "distinct (map ID (map snd (stored s)))"
    using assms unfolding map_map eq by (simp add: storage_inv_def gomap_ok_def)
  then show ?thesis using distinct_map by blast
qed

lemma ran_calendar_of: "storage_inv s \<Longrightarrow> ran (calendar_of s) = set (map snd (stored s))"
  by (auto simp: storage_inv_def calendar_of_def ran_def gomap_mem [symmetric] image_iff) force

lemma ListEvents_contract:
  assumes "ctx_law c" "storage_inv s"
  shows "list_post (\<lambda>t. t) (calendar_of s) u a b (ListEvents c u a b s)"
proof (cases "ListEvents c u a b s")
  case (Inl e)
  then show ?thesis
    by (auto simp: ListEvents_def list_post_def valid_query_def time_cmp Let_def
        dest!: ctx_law_cause [OF assms(1)] list_loop_error split: option.splits if_splits sum.splits prod.splits)
next
  case (Inr es)
  then obtain xs k where q: "valid_query u a b" and xs: "list_loop c 1 u a b (stored s) [] = Inr (xs, k)"
    and es: "es = sort_key list_key xs"
    by (auto simp: ListEvents_def valid_query_def time_cmp Let_def list_key_def [abs_def]
        split: option.splits if_splits sum.splits prod.splits)
  have "xs = filter (in_range u a b) (map snd (stored s))"
    using list_loop_result [OF xs] by simp
  with q es Inr storage_inv_distinct [OF assms(2)] ran_calendar_of [OF assms(2)] show ?thesis
    by (auto simp: list_post_def distinct_filter)
qed

text \<open>The invariant is kept: the list of entries stays a map, and the contracts keep the calendar consistent.\<close>

lemma gomap_ok_preserved:
  "gomap_ok (stored s) \<Longrightarrow> CreateEvent c ev s = (r, s') \<Longrightarrow> gomap_ok (stored s')"
  "gomap_ok (stored s) \<Longrightarrow> UpdateEvent c ev s = (r, s') \<Longrightarrow> gomap_ok (stored s')"
  "gomap_ok (stored s) \<Longrightarrow> DeleteEvent c i s = (r, s') \<Longrightarrow> gomap_ok (stored s')"
  by (auto simp: CreateEvent_def UpdateEvent_def DeleteEvent_def Let_def split: option.splits if_splits)

lemma CreateEvent_inv:
  assumes "ctx_law c" "storage_inv s" "CreateEvent c ev s = (r, s')"
  shows "storage_inv s'"
  using exact_post_ok(1) [OF _ CreateEvent_contract [OF assms]] gomap_ok_preserved(1) [OF _ assms(3)] assms(2)
  by (simp add: storage_inv_def)

lemma UpdateEvent_inv:
  assumes "ctx_law c" "storage_inv s" "UpdateEvent c ev s = (r, s')"
  shows "storage_inv s'"
  using exact_post_ok(2) [OF _ UpdateEvent_contract [OF assms]] gomap_ok_preserved(2) [OF _ assms(3)] assms(2)
  by (simp add: storage_inv_def)

lemma DeleteEvent_inv:
  assumes "ctx_law c" "storage_inv s" "DeleteEvent c i s = (r, s')"
  shows "storage_inv s'"
  using exact_post_ok(3) [OF _ DeleteEvent_contract [OF assms]] gomap_ok_preserved(3) [OF _ assms(3)] assms(2)
  by (simp add: storage_inv_def)

lemma failed_call_keeps_storage:
  "CreateEvent c ev s = (Some e, s') \<Longrightarrow> s' = s"
  "UpdateEvent c ev s = (Some e, s') \<Longrightarrow> s' = s"
  "DeleteEvent c i s = (Some e, s') \<Longrightarrow> s' = s"
  by (auto simp: CreateEvent_def UpdateEvent_def DeleteEvent_def Let_def split: option.splits if_splits)

interpretation memory: atomic_storage CreateEvent UpdateEvent DeleteEvent ListEvents calendar_of storage_inv
    "\<lambda>t. t"
  by unfold_locales
    (simp add: storage_inv_def calendar_ok_consistent,
      (blast intro: CreateEvent_inv UpdateEvent_inv DeleteEvent_inv CreateEvent_contract UpdateEvent_contract
        DeleteEvent_contract ListEvents_contract dest: failed_call_keeps_storage)+)

subsection \<open>Concurrent clients\<close>

text \<open>
  Calls by concurrent goroutines are serialised by the mutex: the states the storage goes through are those
  reached by any sequence of operations, with any events and any contexts.
\<close>

inductive mem_step :: "Storage \<Rightarrow> Storage \<Rightarrow> bool" where
  create: "ctx_law c \<Longrightarrow> CreateEvent c ev s = (r, s') \<Longrightarrow> mem_step s s'"
| update: "ctx_law c \<Longrightarrow> UpdateEvent c ev s = (r, s') \<Longrightarrow> mem_step s s'"
| delete: "ctx_law c \<Longrightarrow> DeleteEvent c i s = (r, s') \<Longrightarrow> mem_step s s'"

inductive_cases mem_stepE: "mem_step s s'"

inductive mem_reachable :: "Storage \<Rightarrow> bool" where
  init: "mem_reachable New"
| step: "mem_reachable s \<Longrightarrow> mem_step s s' \<Longrightarrow> mem_reachable s'"

lemma mem_step_inv: "mem_step s s' \<Longrightarrow> storage_inv s \<Longrightarrow> storage_inv s'"
  by (auto elim!: mem_stepE intro: CreateEvent_inv UpdateEvent_inv DeleteEvent_inv)

lemma mem_reachable_inv: "mem_reachable s \<Longrightarrow> storage_inv s"
  by (induction rule: mem_reachable.induct) (auto intro: mem_step_inv)

text \<open>Two sample events of one user, back to back, and a third that overlaps the first.\<close>

definition at_second :: "int \<Rightarrow> Time" where
  "at_second n = \<lparr>instant = n * second, zone = UTC\<rparr>"

definition meeting :: Event where
  "meeting = \<lparr>ID = ''m1'', Title = ''meeting'', StartAt = at_second 63900000000,
     EndAt = at_second 63900003600, Description = [], UserID = ''u'', NotifyBefore = 0\<rparr>"

definition lunch :: Event where
  "lunch = meeting\<lparr>ID := ''m2'', Title := ''lunch'', StartAt := at_second 63900003600,
     EndAt := at_second 63900007200\<rparr>"

definition intruder :: Event where
  "intruder = meeting\<lparr>ID := ''m3'', StartAt := at_second 63900001800\<rparr>"

definition two_events :: Storage where
  "two_events = snd (CreateEvent live lunch (snd (CreateEvent live meeting New)))"

lemmas sample_defs = at_second_def meeting_def lunch_def intruder_def second_def

lemma two_events_stored: "stored two_events = [(''m1'', meeting), (''m2'', lunch)]"
  by code_simp

lemma sample_valid: "valid_event meeting" "valid_event lunch" "valid_event intruder"
  by code_simp+

lemma two_events_reachable: "mem_reachable two_events"
proof -
  have "mem_step New (snd (CreateEvent live meeting New))"
    by (rule mem_step.create [OF ctx_law_live]) (rule prod.collapse [symmetric])
  then have "mem_reachable (snd (CreateEvent live meeting New))"
    by (rule mem_reachable.step [OF mem_reachable.init])
  moreover have "mem_step (snd (CreateEvent live meeting New)) two_events"
    unfolding two_events_def
    by (rule mem_step.create [OF ctx_law_live]) (rule prod.collapse [symmetric])
  ultimately show ?thesis by (rule mem_reachable.step)
qed

subsection \<open>Properties\<close>

text \<open>
  in every state concurrent clients can bring the in-memory storage to, no user has two
  events that share an instant.
\<close>

theorem memory_no_double_booking:
  assumes "mem_reachable s"
    and "calendar_of s i = Some e" "calendar_of s j = Some f" "i \<noteq> j" "UserID e = UserID f"
  shows "\<not> (\<exists>t. covers (StartAt e) (EndAt e) t \<and> covers (StartAt f) (EndAt f) t)"
proof -
  have ok: "calendar_ok (calendar_of s)"
    using mem_reachable_inv [OF assms(1)] by (simp add: storage_inv_def)
  then have "\<not> clash e f" using assms unfolding calendar_ok_def by blast
  moreover have "Before (StartAt e) (EndAt e)" "Before (StartAt f) (EndAt f)"
    using calendar_okD(1) [OF ok] assms(2,3) valid_eventD(4) by (auto simp: Before_def)
  ultimately show ?thesis
    using assms(5) intervalsOverlap_iff_common by (auto simp: clash_def)
qed

theorem memory_no_double_booking_witness:
  "calendar_of two_events ''m1'' = Some meeting \<and> calendar_of two_events ''m2'' = Some lunch \<and>
   \<not> (\<exists>t. covers (StartAt meeting) (EndAt meeting) t \<and> covers (StartAt lunch) (EndAt lunch) t)"
proof -
  have m: "calendar_of two_events ''m1'' = Some meeting" "calendar_of two_events ''m2'' = Some lunch"
    by (simp_all add: calendar_of_def two_events_stored)
  have "UserID meeting = UserID lunch" by (simp add: lunch_def)
  then show ?thesis
    using m memory_no_double_booking [OF two_events_reachable m] by simp
qed

text \<open>
  creation succeeds exactly when the event is valid, its identifier is free and the user is free at
  that time; then the event is stored and nothing else changes. Otherwise the storage is unchanged and the error names the first
  failed check, in the order of the code.
\<close>

theorem memory_create_behaviour:
  assumes "storage_inv s"
  shows "CreateEvent live ev s = (r, s') \<Longrightarrow>
    r = (if \<not> valid_event ev then Some (Err ErrInvalidEvent)
         else if ID ev \<in> dom (calendar_of s) then Some (Err ErrEventAlreadyExists)
         else if busy (calendar_of s) ev None then Some (Err ErrDateBusy)
         else None)
    \<and> (r = None \<longrightarrow> calendar_of s' = (calendar_of s)(ID ev \<mapsto> ev))
    \<and> (r \<noteq> None \<longrightarrow> s' = s)"
  by (rule CreateEvent_live [OF assms])

theorem memory_create_behaviour_witness:
  "fst (CreateEvent live intruder two_events) = Some (Err ErrDateBusy)
   \<and> snd (CreateEvent live intruder two_events) = two_events"
proof -
  let ?r = "fst (CreateEvent live intruder two_events)"
  have busy: "busy (calendar_of two_events) intruder None"
    unfolding busy_def calendar_of_def two_events_stored
    by (rule exI [of _ "''m1''"]) (simp add: clash_def intervalsOverlap_def time_cmp sample_defs)
  have "ID intruder \<notin> dom (calendar_of two_events)"
    by (simp add: calendar_of_def two_events_stored intruder_def)
  then show ?thesis
    using memory_create_behaviour [OF mem_reachable_inv [OF two_events_reachable] prod.collapse [symmetric], of intruder]
      busy sample_valid(3) by simp
qed

text \<open>
  an update succeeds exactly when the event is valid, exists and does not overlap another event of the same user (its own old
  interval does not count); then it replaces the stored event.
\<close>

theorem memory_update_behaviour:
  assumes "storage_inv s"
  shows "UpdateEvent live ev s = (r, s') \<Longrightarrow>
    r = (if \<not> valid_event ev then Some (Err ErrInvalidEvent)
         else if ID ev \<notin> dom (calendar_of s) then Some (Err ErrEventNotFound)
         else if busy (calendar_of s) ev (Some (ID ev)) then Some (Err ErrDateBusy)
         else None)
    \<and> (r = None \<longrightarrow> calendar_of s' = (calendar_of s)(ID ev \<mapsto> ev))
    \<and> (r \<noteq> None \<longrightarrow> s' = s)"
  by (auto simp: UpdateEvent_def dateBusy_iff [OF assms] ValidateEvent_cases calendar_of_def
      update_conv dom_def split: if_splits)

theorem memory_update_behaviour_witness:
  "fst (UpdateEvent live (intruder\<lparr>ID := ''m1''\<rparr>) two_events) = None"
proof -
  let ?ev = "intruder\<lparr>ID := ''m1''\<rparr>"
  have "valid_event ?ev" by code_simp
  moreover have "ID ?ev \<in> dom (calendar_of two_events)"
    by (simp add: calendar_of_def two_events_stored)
  moreover have "\<not> busy (calendar_of two_events) ?ev (Some (ID ?ev))"
    by (auto simp: busy_def calendar_of_def two_events_stored clash_def intervalsOverlap_def time_cmp
        sample_defs split: if_splits)
  ultimately show ?thesis
    using memory_update_behaviour [OF mem_reachable_inv [OF two_events_reachable] prod.collapse [symmetric], of ?ev]
    by simp
qed

text \<open>
  on a valid query that nobody cancels, a listing returns the user's events that overlap the half-open
  range: each once, all of them, ordered by start and then by identifier.
\<close>

theorem memory_list_complete:
  assumes "storage_inv s" "valid_query u a b"
  shows "\<exists>es. ListEvents live u a b s = Inr es \<and> distinct es \<and> sorted (map list_key es)
    \<and> set es = {e \<in> ran (calendar_of s). UserID e = u \<and> intervalsOverlap (StartAt e) (EndAt e) a b}"
proof -
  have "\<exists>es. ListEvents live u a b s = Inr es"
    using assms(2) by (auto simp: ListEvents_def list_loop_live valid_query_def time_cmp Let_def)
  then obtain es where es: "ListEvents live u a b s = Inr es" by blast
  with ListEvents_contract [OF ctx_law_live assms(1), of u a b] show ?thesis
    by (auto simp: list_post_def in_range_def)
qed

theorem memory_list_complete_witness:
  "valid_query ''u'' (at_second 63900000000) (at_second 63900086400) \<and>
   (\<exists>es. ListEvents live ''u'' (at_second 63900000000) (at_second 63900086400) two_events = Inr es
      \<and> meeting \<in> set es \<and> lunch \<in> set es)"
proof -
  have q: "valid_query ''u'' (at_second 63900000000) (at_second 63900086400)" by code_simp
  have r: "ran (calendar_of two_events) = {meeting, lunch}"
    using ran_calendar_of [OF mem_reachable_inv [OF two_events_reachable]] by (simp add: two_events_stored)
  have "intervalsOverlap (StartAt x) (EndAt x) (at_second 63900000000) (at_second 63900086400)
      \<and> UserID x = ''u''" if "x \<in> {meeting, lunch}" for x
    using that by (auto simp: intervalsOverlap_def time_cmp sample_defs)
  with q memory_list_complete [OF mem_reachable_inv [OF two_events_reachable] q] show ?thesis
    unfolding r by blast
qed

text \<open>
  the iteration order of Go's map, which is not specified, never shows: two storages with the same entries in different
  orders answer every listing, every creation and every update the same way.
\<close>

theorem memory_order_independent:
  assumes "storage_inv s" "mset (stored s) = mset (stored t)"
  shows "ListEvents live u a b s = ListEvents live u a b t
    \<and> fst (CreateEvent live ev s) = fst (CreateEvent live ev t)
    \<and> fst (UpdateEvent live ev s) = fst (UpdateEvent live ev t)"
proof (intro conjI)
  have same: "calendar_of t = calendar_of s" and t: "storage_inv t"
    using assms gomap_perm [of "stored s" "stored t"] by (auto simp: storage_inv_def calendar_of_def)
  show "fst (CreateEvent live ev s) = fst (CreateEvent live ev t)"
    by (simp add: CreateEvent_def dateBusy_create assms(1) t same same [unfolded calendar_of_def] Let_def
        split: option.splits)
  show "fst (UpdateEvent live ev s) = fst (UpdateEvent live ev t)"
    by (simp add: UpdateEvent_def dateBusy_iff assms(1) t same same [unfolded calendar_of_def]
        split: option.splits)
  show "ListEvents live u a b s = ListEvents live u a b t"
  proof (cases "valid_query u a b")
    case True
    then obtain es fs where e: "ListEvents live u a b s = Inr es" "ListEvents live u a b t = Inr fs"
      by (auto simp: ListEvents_def list_loop_live valid_query_def time_cmp Let_def)
    have "list_post (\<lambda>t. t) (calendar_of s) u a b (Inr es)" "list_post (\<lambda>t. t) (calendar_of s) u a b (Inr fs)"
      using ListEvents_contract [OF ctx_law_live assms(1), of u a b]
        ListEvents_contract [OF ctx_law_live t, of u a b] by (simp_all add: e same)
    then have "es = fs"
      using assms(1) by (intro list_post_unique) (auto simp: storage_inv_def calendar_ok_consistent)
    with e show ?thesis by simp
  next
    case False
    then show ?thesis by (auto simp: ListEvents_def valid_query_def time_cmp)
  qed
qed

theorem memory_order_independent_witness:
  "ListEvents live ''u'' (at_second 63900000000) (at_second 63900086400) \<lparr>events = Some [(''m1'', meeting), (''m2'', lunch)]\<rparr>
   = ListEvents live ''u'' (at_second 63900000000) (at_second 63900086400) \<lparr>events = Some [(''m2'', lunch), (''m1'', meeting)]\<rparr>"
proof -
  have "two_events = \<lparr>events = Some [(''m1'', meeting), (''m2'', lunch)]\<rparr>" by code_simp
  moreover have "mset (stored two_events) = mset (stored \<lparr>events = Some [(''m2'', lunch), (''m1'', meeting)]\<rparr>)"
    by (simp add: two_events_stored) (simp add: stored_def add_mset_commute)
  ultimately show ?thesis
    using memory_order_independent [OF mem_reachable_inv [OF two_events_reachable]] by metis
qed

text \<open>
  cancellation is clean: when the context is done at the poll before or after the lock, the three
  modifying operations return an error and leave the storage as it was.
\<close>

theorem memory_cancelled_is_noop:
  assumes "c 0 \<noteq> None \<or> c 1 \<noteq> None"
  shows "(\<exists>e. CreateEvent c ev s = (Some e, s)) \<and> (\<exists>e. UpdateEvent c ev s = (Some e, s))
    \<and> (\<exists>e. DeleteEvent c i s = (Some e, s))"
  using assms
  by (auto simp: CreateEvent_def UpdateEvent_def DeleteEvent_def split: option.splits)

theorem memory_cancelled_is_noop_witness:
  "\<exists>e. CreateEvent (\<lambda>n. if n = 1 then Some (Err Canceled) else None) meeting New = (Some e, New)"
  by (rule memory_cancelled_is_noop [THEN conjunct1]) simp

end
