(* ===== verification/Calendar_App.thy ===== *)
theory Calendar_App
  imports Memory_Storage
begin

text \<open>
  The use cases of \<open>internal/app/app.go\<close>. The application holds a storage behind the
  interface \<open>Storage\<close> (a record of its operations over any state) and a logger (the
  list of entries written so far); every use case forwards to the storage and logs the outcome.
  The day, week and month listings compute the range of their query in the location of the date.
\<close>

datatype level = LevelError | LevelWarn | LevelInfo | LevelDebug

datatype log_entry = Log level message "error option"

record 's storage_ops =
  op_create :: "cctx \<Rightarrow> Event \<Rightarrow> 's \<Rightarrow> error option \<times> 's"
  op_update :: "cctx \<Rightarrow> Event \<Rightarrow> 's \<Rightarrow> error option \<times> 's"
  op_delete :: "cctx \<Rightarrow> string \<Rightarrow> 's \<Rightarrow> error option \<times> 's"
  op_list :: "cctx \<Rightarrow> string \<Rightarrow> Time \<Rightarrow> Time \<Rightarrow> 's \<Rightarrow> error + Event list"

record 's App =
  app_log :: "log_entry list"
  app_storage :: 's

definition NewApp :: "log_entry list \<Rightarrow> 's \<Rightarrow> 's App" where
  "NewApp l s = \<lparr>app_log = l, app_storage = s\<rparr>"

definition AppCreateEvent ::
  "'s storage_ops \<Rightarrow> cctx \<Rightarrow> Event \<Rightarrow> 's App \<Rightarrow> error option \<times> 's App" where
  "AppCreateEvent ops ctx event a =
     (case op_create ops ctx event (app_storage a) of
        (Some err, s) \<Rightarrow>
          (Some err, a\<lparr>app_storage := s, app_log := app_log a @
             [Log LevelError [Lit ''failed to create event '', Quoted (ID event)] (Some err)]\<rparr>)
      | (None, s) \<Rightarrow>
          (None, a\<lparr>app_storage := s, app_log := app_log a @
             [Log LevelDebug [Lit ''event '', Quoted (ID event), Lit '' created''] None]\<rparr>))"

definition AppUpdateEvent ::
  "'s storage_ops \<Rightarrow> cctx \<Rightarrow> Event \<Rightarrow> 's App \<Rightarrow> error option \<times> 's App" where
  "AppUpdateEvent ops ctx event a =
     (case op_update ops ctx event (app_storage a) of
        (Some err, s) \<Rightarrow>
          (Some err, a\<lparr>app_storage := s, app_log := app_log a @
             [Log LevelError [Lit ''failed to update event '', Quoted (ID event)] (Some err)]\<rparr>)
      | (None, s) \<Rightarrow>
          (None, a\<lparr>app_storage := s, app_log := app_log a @
             [Log LevelDebug [Lit ''event '', Quoted (ID event), Lit '' updated''] None]\<rparr>))"

definition AppDeleteEvent ::
  "'s storage_ops \<Rightarrow> cctx \<Rightarrow> string \<Rightarrow> 's App \<Rightarrow> error option \<times> 's App" where
  "AppDeleteEvent ops ctx i a =
     (case op_delete ops ctx i (app_storage a) of
        (Some err, s) \<Rightarrow>
          (Some err, a\<lparr>app_storage := s, app_log := app_log a @
             [Log LevelError [Lit ''failed to delete event '', Quoted i] (Some err)]\<rparr>)
      | (None, s) \<Rightarrow>
          (None, a\<lparr>app_storage := s, app_log := app_log a @
             [Log LevelDebug [Lit ''event '', Quoted i, Lit '' deleted''] None]\<rparr>))"

definition AppListEvents ::
  "'s storage_ops \<Rightarrow> cctx \<Rightarrow> string \<Rightarrow> Time \<Rightarrow> Time \<Rightarrow> 's App \<Rightarrow> (error + Event list) \<times> 's App" where
  "AppListEvents ops ctx userID from to a =
     (case op_list ops ctx userID from to (app_storage a) of
        Inl err \<Rightarrow>
          (Inl err, a\<lparr>app_log := app_log a @
             [Log LevelError [Lit ''failed to list events for user '', Quoted userID] (Some err)]\<rparr>)
      | Inr es \<Rightarrow> (Inr es, a))"

definition beginningOfDay :: "Time \<Rightarrow> Time" where
  "beginningOfDay date = Date (Year date) (Month date) (Day date) 0 0 0 0 (zone date)"

definition ListEventsForDay ::
  "'s storage_ops \<Rightarrow> cctx \<Rightarrow> string \<Rightarrow> Time \<Rightarrow> 's App \<Rightarrow> (error + Event list) \<times> 's App" where
  "ListEventsForDay ops ctx userID date =
     (let from = beginningOfDay date in AppListEvents ops ctx userID from (AddDate from 0 0 1))"

definition ListEventsForWeek ::
  "'s storage_ops \<Rightarrow> cctx \<Rightarrow> string \<Rightarrow> Time \<Rightarrow> 's App \<Rightarrow> (error + Event list) \<times> 's App" where
  "ListEventsForWeek ops ctx userID weekStart =
     (let from = beginningOfDay weekStart in AppListEvents ops ctx userID from (AddDate from 0 0 7))"

definition ListEventsForMonth ::
  "'s storage_ops \<Rightarrow> cctx \<Rightarrow> string \<Rightarrow> Time \<Rightarrow> 's App \<Rightarrow> (error + Event list) \<times> 's App" where
  "ListEventsForMonth ops ctx userID date =
     (let from = Date (Year date) (Month date) 1 0 0 0 0 (zone date)
      in AppListEvents ops ctx userID from (AddDate from 0 1 0))"

subsection \<open>The ranges of the listings\<close>

lemma TimeDate_parts: "TimeDate t = (Year t, Month t, Day t)"
  by (simp add: Year_def Month_def Day_def)

lemma date_valid:
  "valid_date (Year t) (Month t) (Day t)" "1 \<le> Month t" "Month t \<le> 12"
  "day_number (Year t) (Month t) (Day t) = local_day (zone t) (instant t)"
  using TimeDate_valid [OF TimeDate_parts [of t]] by (auto simp: valid_date_def local_day_def local_seconds_def)

lemma instant_beginningOfDay:
  assumes "fixed_zone (zone date)"
  shows "instant (beginningOfDay date) =
    (local_day (zone date) (instant date) * secondsPerDay - first_offset (zone date)) * second"
  using assms date_valid [of date] by (simp add: beginningOfDay_def Date_midnight_valid)

lemma instant_beginningOfDay_plus:
  assumes "fixed_zone (zone date)"
  shows "instant (AddDate (beginningOfDay date) 0 0 n) =
    ((local_day (zone date) (instant date) + n) * secondsPerDay - first_offset (zone date)) * second"
  using assms date_valid [of date]
  by (simp add: beginningOfDay_def AddDate_midnight Date_midnight_valid day_number_Suc)

lemma day_range_iff:
  assumes "fixed_zone (zone date)"
  shows "covers (beginningOfDay date) (AddDate (beginningOfDay date) 0 0 n) i \<longleftrightarrow>
    local_day (zone date) (instant date) \<le> local_day (zone date) i
    \<and> local_day (zone date) i < local_day (zone date) (instant date) + n"
  unfolding covers_def instant_beginningOfDay [OF assms] instant_beginningOfDay_plus [OF assms]
  using local_midnight_le [OF assms, where i = i] by (auto simp: not_le [symmetric])

lemma month_first:
  assumes "fixed_zone (zone date)"
  defines "from \<equiv> Date (Year date) (Month date) 1 0 0 0 0 (zone date)"
  shows "instant from = (day_number (Year date) (Month date) 1 * secondsPerDay - first_offset (zone date)) * second"
    and "instant (AddDate from 0 1 0) =
      ((day_number (Year date) (Month date) 1 + days_in_month (isLeap (Year date)) (Month date)) * secondsPerDay
        - first_offset (zone date)) * second"
proof -
  have v: "valid_date (Year date) (Month date) 1"
    using date_valid [of date] by (auto simp: valid_date_def)
  show "instant from = (day_number (Year date) (Month date) 1 * secondsPerDay - first_offset (zone date)) * second"
    unfolding from_def using assms(1) date_valid [of date] by (simp add: Date_midnight_valid)
  have "AddDate from 0 1 0 = Date (Year date) (Month date + 1) 1 0 0 0 0 (zone date)"
    unfolding from_def using AddDate_midnight [OF assms(1) v] by simp
  then show "instant (AddDate from 0 1 0) =
      ((day_number (Year date) (Month date) 1 + days_in_month (isLeap (Year date)) (Month date)) * secondsPerDay
        - first_offset (zone date)) * second"
    using Date_midnight [OF assms(1), of "Year date" "Month date + 1" 1]
      day_number_next_month [OF date_valid(2,3), of "Year date"] by simp
qed

lemma month_range_iff:
  assumes "fixed_zone (zone date)"
  defines "from \<equiv> Date (Year date) (Month date) 1 0 0 0 0 (zone date)"
  shows "covers from (AddDate from 0 1 0) i \<longleftrightarrow>
    (\<exists>dd. TimeDate \<lparr>instant = i, zone = zone date\<rparr> = (Year date, Month date, dd))"
  unfolding covers_def from_def month_first [OF assms(1)] TimeDate_local_day
    civil_month_iff [OF date_valid(2,3)] Time.simps
  using local_midnight_le [OF assms(1), where i = i] by (auto simp: not_le [symmetric])

lemma range_nonempty:
  assumes "fixed_zone (zone date)" "0 < n"
  shows "Before (beginningOfDay date) (AddDate (beginningOfDay date) 0 0 n)"
  unfolding Before_def instant_beginningOfDay [OF assms(1)] instant_beginningOfDay_plus [OF assms(1)]
  using assms(2) by (simp add: time_units)

lemma month_nonempty:
  assumes "fixed_zone (zone date)"
  defines "from \<equiv> Date (Year date) (Month date) 1 0 0 0 0 (zone date)"
  shows "Before from (AddDate from 0 1 0)"
proof -
  have "valid_date (Year date) (Month date) (Day date)" by (rule date_valid)
  then have "0 < days_in_month (isLeap (Year date)) (Month date)" by (simp add: valid_date_def)
  then show ?thesis unfolding Before_def from_def month_first [OF assms(1)] by (simp add: time_units)
qed

subsection \<open>One call, one log entry\<close>

lemma AppCreateEvent_cases:
  "AppCreateEvent ops c ev a = (r, a') \<Longrightarrow>
    \<exists>s l m. op_create ops c ev (app_storage a) = (r, s) \<and> (l = LevelError \<longleftrightarrow> r \<noteq> None) \<and>
      a' = a\<lparr>app_storage := s, app_log := app_log a @ [Log l m r]\<rparr>"
  by (auto simp: AppCreateEvent_def split: prod.splits option.splits)

lemma AppUpdateEvent_cases:
  "AppUpdateEvent ops c ev a = (r, a') \<Longrightarrow>
    \<exists>s l m. op_update ops c ev (app_storage a) = (r, s) \<and> (l = LevelError \<longleftrightarrow> r \<noteq> None) \<and>
      a' = a\<lparr>app_storage := s, app_log := app_log a @ [Log l m r]\<rparr>"
  by (auto simp: AppUpdateEvent_def split: prod.splits option.splits)

lemma AppDeleteEvent_cases:
  "AppDeleteEvent ops c i a = (r, a') \<Longrightarrow>
    \<exists>s l m. op_delete ops c i (app_storage a) = (r, s) \<and> (l = LevelError \<longleftrightarrow> r \<noteq> None) \<and>
      a' = a\<lparr>app_storage := s, app_log := app_log a @ [Log l m r]\<rparr>"
  by (auto simp: AppDeleteEvent_def split: prod.splits option.splits)

subsection \<open>The application over any storage that keeps the contracts\<close>

locale app_over_storage =
  event_storage "op_create ops" "op_update ops" "op_delete ops" "op_list ops" abs invar rnd
  for ops :: "'s storage_ops" and abs :: "'s \<Rightarrow> calendar" and invar :: "'s \<Rightarrow> bool"
    and rnd :: "Time \<Rightarrow> Time"
begin

text \<open>What one call adds to the log: an error entry exactly when it failed.\<close>

lemma app_create_outcome:
  assumes "ctx_law c" "invar (app_storage a)" "AppCreateEvent ops c ev a = (r, a')"
  shows "create_post rnd (abs (app_storage a)) ev r (abs (app_storage a')) \<and> invar (app_storage a') \<and>
    (\<exists>l m. app_log a' = app_log a @ [Log l m r] \<and> (l = LevelError \<longleftrightarrow> r \<noteq> None))"
  using AppCreateEvent_cases [OF assms(3)] create_contract [OF assms(1,2)] create_invar [OF assms(1,2)]
  by fastforce

lemma app_update_outcome:
  assumes "ctx_law c" "invar (app_storage a)" "AppUpdateEvent ops c ev a = (r, a')"
  shows "update_post rnd (abs (app_storage a)) ev r (abs (app_storage a')) \<and> invar (app_storage a') \<and>
    (\<exists>l m. app_log a' = app_log a @ [Log l m r] \<and> (l = LevelError \<longleftrightarrow> r \<noteq> None))"
  using AppUpdateEvent_cases [OF assms(3)] update_contract [OF assms(1,2)] update_invar [OF assms(1,2)]
  by fastforce

lemma app_delete_outcome:
  assumes "ctx_law c" "invar (app_storage a)" "AppDeleteEvent ops c i a = (r, a')"
  shows "delete_post (abs (app_storage a)) i r (abs (app_storage a')) \<and> invar (app_storage a') \<and>
    (\<exists>l m. app_log a' = app_log a @ [Log l m r] \<and> (l = LevelError \<longleftrightarrow> r \<noteq> None))"
  using AppDeleteEvent_cases [OF assms(3)] delete_contract [OF assms(1,2)] delete_invar [OF assms(1,2)]
  by fastforce

text \<open>A listing over a range, read as the set of instants it covers.\<close>

lemma app_list_range:
  assumes "ctx_law c" "invar (app_storage a)" "AppListEvents ops c u from to a = (Inr es, a')"
    and fit: "rnd from = from" "rnd to = to"
  shows "a' = a \<and> distinct es \<and> sorted (map list_key es) \<and>
    set es = {e \<in> ran (abs (app_storage a)). UserID e = u \<and>
      (\<exists>i. covers (StartAt e) (EndAt e) i \<and> covers from to i)}"
proof -
  have l: "op_list ops c u from to (app_storage a) = Inr es" "a' = a"
    using assms(3) by (auto simp: AppListEvents_def split: sum.splits)
  have p: "list_post rnd (abs (app_storage a)) u from to (Inr es)"
    using list_contract [OF assms(1,2), of u "from" "to"] by (simp add: l)
  have "in_range u from to e \<longleftrightarrow>
      UserID e = u \<and> (\<exists>i. covers (StartAt e) (EndAt e) i \<and> covers from to i)"
    if "e \<in> ran (abs (app_storage a))" for e
  proof -
    have "Before (StartAt e) (EndAt e)"
      using that invar_calendar [OF assms(2)] by (auto simp: ran_def proper_event_def dest: consistentD(1))
    moreover have "Before from to" using p by (simp add: list_post_def valid_query_def)
    ultimately show ?thesis by (simp add: in_range_def intervalsOverlap_iff_common)
  qed
  with p l fit show ?thesis by (auto simp: list_post_def)
qed

lemma app_list_day:
  assumes "ctx_law c" "invar (app_storage a)" "fixed_zone (zone date)"
    and "ListEventsForDay ops c u date a = (Inr es, a')"
    and fit: "rnd (beginningOfDay date) = beginningOfDay date" "rnd (AddDate (beginningOfDay date) 0 0 1) = AddDate (beginningOfDay date) 0 0 1"
  shows "a' = a \<and> distinct es \<and> sorted (map list_key es) \<and>
    set es = {e \<in> ran (abs (app_storage a)). UserID e = u \<and>
      (\<exists>i. covers (StartAt e) (EndAt e) i \<and> TimeDate \<lparr>instant = i, zone = zone date\<rparr> = TimeDate date)}"
proof -
  have "covers (beginningOfDay date) (AddDate (beginningOfDay date) 0 0 1) i \<longleftrightarrow>
      TimeDate \<lparr>instant = i, zone = zone date\<rparr> = TimeDate date" for i
    unfolding day_range_iff [OF assms(3)] TimeDate_local_day civil_inj by auto
  with app_list_range [OF assms(1,2)] assms(4) show ?thesis
    unfolding ListEventsForDay_def Let_def using fit by blast
qed

lemma app_list_week:
  assumes "ctx_law c" "invar (app_storage a)" "fixed_zone (zone date)"
    and "ListEventsForWeek ops c u date a = (Inr es, a')"
    and fit: "rnd (beginningOfDay date) = beginningOfDay date" "rnd (AddDate (beginningOfDay date) 0 0 7) = AddDate (beginningOfDay date) 0 0 7"
  shows "a' = a \<and> distinct es \<and> sorted (map list_key es) \<and>
    set es = {e \<in> ran (abs (app_storage a)). UserID e = u \<and>
      (\<exists>i. covers (StartAt e) (EndAt e) i \<and>
         local_day (zone date) i - local_day (zone date) (instant date) \<in> {0..6})}"
proof -
  have "covers (beginningOfDay date) (AddDate (beginningOfDay date) 0 0 7) i \<longleftrightarrow>
      local_day (zone date) i - local_day (zone date) (instant date) \<in> {0..6}" for i
    unfolding day_range_iff [OF assms(3)] by auto
  with app_list_range [OF assms(1,2)] assms(4) show ?thesis
    unfolding ListEventsForWeek_def Let_def using fit by blast
qed

lemma app_list_month:
  assumes "ctx_law c" "invar (app_storage a)" "fixed_zone (zone date)"
    and "ListEventsForMonth ops c u date a = (Inr es, a')"
    and fit: "rnd (Date (Year date) (Month date) 1 0 0 0 0 (zone date)) = Date (Year date) (Month date) 1 0 0 0 0 (zone date)"
      "rnd (AddDate (Date (Year date) (Month date) 1 0 0 0 0 (zone date)) 0 1 0) = AddDate (Date (Year date) (Month date) 1 0 0 0 0 (zone date)) 0 1 0"
  shows "a' = a \<and> distinct es \<and> sorted (map list_key es) \<and>
    set es = {e \<in> ran (abs (app_storage a)). UserID e = u \<and>
      (\<exists>i. covers (StartAt e) (EndAt e) i \<and>
         (\<exists>d. TimeDate \<lparr>instant = i, zone = zone date\<rparr> = (Year date, Month date, d)))}"
  using app_list_range [OF assms(1,2)] assms(4) fit month_range_iff [OF assms(3)]
  unfolding ListEventsForMonth_def Let_def by blast

end

subsection \<open>The application over the in-memory storage\<close>

text \<open>What \<open>newStorage\<close> of \<open>cmd/calendar\<close> passes to \<open>app.New\<close> for the storage type \<open>memory\<close>.\<close>

definition memory_ops :: "Storage storage_ops" where
  "memory_ops = \<lparr>op_create = CreateEvent, op_update = UpdateEvent, op_delete = DeleteEvent,
     op_list = ListEvents\<rparr>"

lemma memory_ops_simps [simp]:
  "op_create memory_ops = CreateEvent" "op_update memory_ops = UpdateEvent"
  "op_delete memory_ops = DeleteEvent" "op_list memory_ops = ListEvents"
  by (simp_all add: memory_ops_def)

interpretation memory_app: app_over_storage memory_ops calendar_of storage_inv "\<lambda>t. t"
  unfolding app_over_storage_def memory_ops_simps by (rule memory.event_storage_axioms)

lemma memory_list_returns:
  assumes "valid_query u from to"
  shows "\<exists>es. AppListEvents memory_ops live u from to a = (Inr es, a)"
  using assms
  by (auto simp: AppListEvents_def ListEvents_def list_loop_live valid_query_def time_cmp Let_def)

lemma memory_listing:
  assumes "storage_inv (app_storage a)" "valid_query u x y"
  shows "\<exists>es. AppListEvents memory_ops live u x y a = (Inr es, a) \<and> distinct es \<and> sorted (map list_key es) \<and>
    set es = {e \<in> ran (calendar_of (app_storage a)). UserID e = u \<and> (\<exists>i. covers (StartAt e) (EndAt e) i \<and> covers x y i)}"
proof -
  obtain es where es: "AppListEvents memory_ops live u x y a = (Inr es, a)" using memory_list_returns [OF assms(2)] by blast
  with memory_app.app_list_range [OF ctx_law_live assms(1) es refl refl] show ?thesis by blast
qed

lemma memory_day_listing:
  assumes "storage_inv (app_storage a)" "fixed_zone (zone date)" "\<not> blank u"
    and "\<not> IsZero (beginningOfDay date)" "\<not> IsZero (AddDate (beginningOfDay date) 0 0 1)"
  shows "\<exists>es. ListEventsForDay memory_ops live u date a = (Inr es, a) \<and>
    distinct es \<and> sorted (map list_key es) \<and>
    set es = {e \<in> ran (calendar_of (app_storage a)). UserID e = u \<and>
      (\<exists>i. covers (StartAt e) (EndAt e) i \<and> TimeDate \<lparr>instant = i, zone = zone date\<rparr> = TimeDate date)}"
proof -
  have "valid_query u (beginningOfDay date) (AddDate (beginningOfDay date) 0 0 1)"
    using assms range_nonempty [OF assms(2), of 1] by (simp add: valid_query_def)
  then obtain es where es: "ListEventsForDay memory_ops live u date a = (Inr es, a)"
    using memory_list_returns unfolding ListEventsForDay_def Let_def by blast
  with memory_app.app_list_day [OF ctx_law_live assms(1,2) es refl refl] show ?thesis by blast
qed

definition two_events_app :: "Storage App" where
  "two_events_app = NewApp [] two_events"

lemma two_events_app_inv: "storage_inv (app_storage two_events_app)"
  using mem_reachable_inv [OF two_events_reachable] by (simp add: two_events_app_def NewApp_def)

subsection \<open>Properties\<close>

text \<open>
  the day listing of the application over the in-memory storage returns, for a date in a location with
  one offset, exactly the events of the user that have an instant on that calendar day, ordered by start
  and identifier; it does return, unless the user is blank or the range touches the zero time.
\<close>

theorem day_listing_exact:
  assumes "storage_inv (app_storage a)" "fixed_zone (zone date)" "\<not> blank u"
    and "\<not> IsZero (beginningOfDay date)" "\<not> IsZero (AddDate (beginningOfDay date) 0 0 1)"
  shows "\<exists>es. ListEventsForDay memory_ops live u date a = (Inr es, a) \<and>
    distinct es \<and> sorted (map list_key es) \<and>
    set es = {e \<in> ran (calendar_of (app_storage a)). UserID e = u \<and>
      (\<exists>i. covers (StartAt e) (EndAt e) i \<and> TimeDate \<lparr>instant = i, zone = zone date\<rparr> = TimeDate date)}"
  by (rule memory_day_listing [OF assms])

theorem day_listing_exact_witness:
  "\<exists>es. ListEventsForDay memory_ops live ''u'' (at_second 63900050000) two_events_app = (Inr es, two_events_app)
     \<and> sorted (map list_key es)"
proof -
  have "fixed_zone (zone (at_second 63900050000))" by (simp add: at_second_def)
  moreover have "\<not> blank ''u''" "\<not> IsZero (beginningOfDay (at_second 63900050000))"
    "\<not> IsZero (AddDate (beginningOfDay (at_second 63900050000)) 0 0 1)"
    by code_simp+
  ultimately show ?thesis
    using day_listing_exact [OF two_events_app_inv] by blast
qed

text \<open>
  the month listing returns exactly the events of the user that have an instant in the calendar
  month of the date, in the location of the date.
\<close>

theorem month_listing_exact:
  assumes "ctx_law c" "storage_inv (app_storage a)" "fixed_zone (zone date)"
    and "ListEventsForMonth memory_ops c u date a = (Inr es, a')"
  shows "a' = a \<and> distinct es \<and> sorted (map list_key es) \<and>
    set es = {e \<in> ran (calendar_of (app_storage a)). UserID e = u \<and>
      (\<exists>i. covers (StartAt e) (EndAt e) i \<and>
         (\<exists>d. TimeDate \<lparr>instant = i, zone = zone date\<rparr> = (Year date, Month date, d)))}"
  using assms by (rule memory_app.app_list_month) simp_all

theorem month_listing_exact_witness:
  "ListEventsForMonth memory_ops live ''u'' (at_second 63900050000) two_events_app
     = (Inr [meeting, lunch], two_events_app)
   \<and> {meeting, lunch} = {e \<in> ran (calendar_of two_events). UserID e = ''u'' \<and>
      (\<exists>i. covers (StartAt e) (EndAt e) i \<and>
         (\<exists>d. TimeDate \<lparr>instant = i, zone = UTC\<rparr> = (Year (at_second 63900050000), Month (at_second 63900050000), d)))}"
proof -
  have z: "zone (at_second 63900050000) = UTC" by (simp add: at_second_def)
  have f: "fixed_zone (zone (at_second 63900050000))" by (simp add: z)
  have l: "ListEventsForMonth memory_ops live ''u'' (at_second 63900050000) two_events_app
     = (Inr [meeting, lunch], two_events_app)"
    by code_simp
  show ?thesis
    using l month_listing_exact [OF ctx_law_live two_events_app_inv f l]
    by (simp add: z two_events_app_def NewApp_def)
qed

text \<open>
  every modifying use case keeps the contract of the storage (a failed call changes no event, a successful one
  changes exactly its own) and writes exactly one log entry, an error entry if and only if the call failed.
\<close>

theorem app_calls_logged_once:
  assumes "ctx_law c" "storage_inv (app_storage a)" "AppUpdateEvent memory_ops c ev a = (r, a')"
  shows "update_post (\<lambda>t. t) (calendar_of (app_storage a)) ev r (calendar_of (app_storage a'))
    \<and> storage_inv (app_storage a') \<and> (r \<noteq> None \<longrightarrow> app_storage a' = app_storage a)
    \<and> (\<exists>l m. app_log a' = app_log a @ [Log l m r] \<and> (l = LevelError \<longleftrightarrow> r \<noteq> None))"
  using memory_app.app_update_outcome [OF assms] AppUpdateEvent_cases [OF assms(3)]
  by (cases r) (auto dest: failed_call_keeps_storage)

theorem app_calls_logged_once_witness:
  "\<exists>l m. app_log (snd (AppUpdateEvent memory_ops live intruder two_events_app))
     = [Log l m (Some (Err ErrEventNotFound))] \<and> l = LevelError"
proof -
  have r: "fst (AppUpdateEvent memory_ops live intruder two_events_app) = Some (Err ErrEventNotFound)"
    by code_simp
  have "app_log two_events_app = []" by (simp add: two_events_app_def NewApp_def)
  then show ?thesis
    using app_calls_logged_once [OF ctx_law_live two_events_app_inv prod.collapse [symmetric], of intruder] r
    by auto
qed

end
