(* ===== verification/Unpack_String.thy ===== *)
theory Unpack_String
  imports Go_Prelude
begin

text \<open>
  The unpacker of \<open>hw02_unpack_string/unpack.go\<close>. A Go string is turned into runes and back, so the theory has the
  UTF-8 decoding of \<open>[]rune(s)\<close> (an invalid byte is U+FFFD), the encoding of \<open>string(r)\<close>, and \<open>unicode.IsDigit\<close>
  as the table of the decimal digits of Unicode 13, the version of the library of Go 1.19.
\<close>

subsection \<open>Runes\<close>

type_synonym rune = nat

definition byte :: "char \<Rightarrow> nat" where "byte c = of_char c"
definition chr_of :: "nat \<Rightarrow> char" where "chr_of n = char_of n"

definition cont :: "char \<Rightarrow> bool" where
  "cont c \<longleftrightarrow> 0x80 \<le> byte c \<and> byte c \<le> 0xBF"

text \<open>The range of the second byte, which excludes overlong forms, surrogates and code points above U+10FFFF.\<close>

definition second_ok :: "char \<Rightarrow> char \<Rightarrow> bool" where
  "second_ok b c \<longleftrightarrow>
     (if byte b = 0xE0 then 0xA0 \<le> byte c \<and> byte c \<le> 0xBF
      else if byte b = 0xED then 0x80 \<le> byte c \<and> byte c \<le> 0x9F
      else if byte b = 0xF0 then 0x90 \<le> byte c \<and> byte c \<le> 0xBF
      else if byte b = 0xF4 then 0x80 \<le> byte c \<and> byte c \<le> 0x8F
      else cont c)"

text \<open>The rune at the front and the number of its bytes.\<close>

definition decode_rune :: "string \<Rightarrow> rune \<times> nat" where
  "decode_rune s =
     (case s of
        [] \<Rightarrow> (0xFFFD, 0)
      | b # r \<Rightarrow>
          if byte b < 0x80 then (byte b, 1)
          else if 0xC2 \<le> byte b \<and> byte b \<le> 0xDF then
            (case r of c1 # _ \<Rightarrow> if cont c1 then ((byte b - 0xC0) * 64 + (byte c1 - 0x80), 2) else (0xFFFD, 1)
             | _ \<Rightarrow> (0xFFFD, 1))
          else if 0xE0 \<le> byte b \<and> byte b \<le> 0xEF then
            (case r of c1 # c2 # _ \<Rightarrow>
               if second_ok b c1 \<and> cont c2
               then ((byte b - 0xE0) * 4096 + (byte c1 - 0x80) * 64 + (byte c2 - 0x80), 3) else (0xFFFD, 1)
             | _ \<Rightarrow> (0xFFFD, 1))
          else if 0xF0 \<le> byte b \<and> byte b \<le> 0xF4 then
            (case r of c1 # c2 # c3 # _ \<Rightarrow>
               if second_ok b c1 \<and> cont c2 \<and> cont c3
               then ((byte b - 0xF0) * 262144 + (byte c1 - 0x80) * 4096 + (byte c2 - 0x80) * 64 + (byte c3 - 0x80), 4)
               else (0xFFFD, 1)
             | _ \<Rightarrow> (0xFFFD, 1))
          else (0xFFFD, 1))"

lemma decode_rune_width: "s \<noteq> [] \<Longrightarrow> 0 < snd (decode_rune s)"
  by (auto simp: decode_rune_def split: list.splits)

function to_runes :: "string \<Rightarrow> rune list" where
  "to_runes s = (if s = [] then [] else case decode_rune s of (r, w) \<Rightarrow> r # to_runes (drop w s))"
  by pat_completeness auto
termination
proof (relation "measure length", simp)
  fix s :: string and r w
  assume ne: "s \<noteq> []" and x: "(r, w) = decode_rune s"
  have "0 < w" using decode_rune_width [OF ne] x by (metis snd_conv)
  then show "(drop w s, s) \<in> measure length" using ne by (cases s) auto
qed

declare to_runes.simps [simp del]

definition string_of_rune :: "rune \<Rightarrow> string" where
  "string_of_rune r =
     (if r < 0x80 then [chr_of r]
      else if r < 0x800 then [chr_of (0xC0 + r div 64), chr_of (0x80 + r mod 64)]
      else if r > 0x10FFFF \<or> (0xD800 \<le> r \<and> r \<le> 0xDFFF) then [chr_of 0xEF, chr_of 0xBF, chr_of 0xBD]
      else if r < 0x10000 then [chr_of (0xE0 + r div 4096), chr_of (0x80 + r div 64 mod 64), chr_of (0x80 + r mod 64)]
      else [chr_of (0xF0 + r div 262144), chr_of (0x80 + r div 4096 mod 64), chr_of (0x80 + r div 64 mod 64),
            chr_of (0x80 + r mod 64)])"

definition digit_starts :: "rune list" where
  "digit_starts = [0x30, 0x660, 0x6F0, 0x7C0, 0x966, 0x9E6, 0xA66, 0xAE6, 0xB66, 0xBE6, 0xC66, 0xCE6, 0xD66, 0xDE6,
     0xE50, 0xED0, 0xF20, 0x1040, 0x1090, 0x17E0, 0x1810, 0x1946, 0x19D0, 0x1A80, 0x1A90, 0x1B50, 0x1BB0, 0x1C40,
     0x1C50, 0xA620, 0xA8D0, 0xA900, 0xA9D0, 0xA9F0, 0xAA50, 0xABF0, 0xFF10, 0x104A0, 0x10D30, 0x11066, 0x110F0,
     0x11136, 0x111D0, 0x112F0, 0x11450, 0x114D0, 0x11650, 0x116C0, 0x11730, 0x118E0, 0x11950, 0x11C50, 0x11D50,
     0x11DA0, 0x16A60, 0x16B50, 0x1E140, 0x1E2F0, 0x1E950, 0x1FBF0, 0x1D7CE, 0x1D7D8, 0x1D7E2, 0x1D7EC, 0x1D7F6]"

definition IsDigit :: "rune \<Rightarrow> bool" where
  "IsDigit r \<longleftrightarrow> list_ex (\<lambda>d. d \<le> r \<and> r \<le> d + 9) digit_starts"

subsection \<open>\<open>Unpack\<close>\<close>

definition backslash :: rune where "backslash = 0x5C"

text \<open>
  The loop over the runes; the argument is \<open>runes[i:]\<close> and the accumulator the builder. \<open>None\<close> is \<open>ErrInvalidString\<close>.
\<close>

definition repeat_count :: "rune list \<Rightarrow> (nat \<times> rune list) option" where
  "repeat_count rest =
     (case rest of
        d # rest' \<Rightarrow>
          if IsDigit d
          then (case ParseInt (string_of_rune d) of None \<Rightarrow> None | Some n \<Rightarrow> Some (nat n, rest'))
          else Some (1, rest)
      | [] \<Rightarrow> Some (1, rest))"

lemma repeat_count_shorter: "repeat_count rest = Some (n, rest') \<Longrightarrow> length rest' \<le> length rest"
  by (auto simp: repeat_count_def split: list.splits if_splits option.splits)

function unpack_loop :: "rune list \<Rightarrow> string \<Rightarrow> string option" where
  "unpack_loop [] result = Some result"
| "unpack_loop (current # rest) result =
     (if IsDigit current then None
      else if current = backslash then
        (case rest of
           [] \<Rightarrow> None
         | e # rest' \<Rightarrow>
             if e \<noteq> backslash \<and> \<not> IsDigit e then None
             else (case repeat_count rest' of
                     None \<Rightarrow> None
                   | Some (n, rest'') \<Rightarrow> unpack_loop rest'' (result @ concat (replicate n (string_of_rune e)))))
      else (case repeat_count rest of
              None \<Rightarrow> None
            | Some (n, rest') \<Rightarrow> unpack_loop rest' (result @ concat (replicate n (string_of_rune current)))))"
  by pat_completeness auto
termination by (relation "measure (length \<circ> fst)") (auto dest: repeat_count_shorter)

definition Unpack :: "string \<Rightarrow> string option" where
  "Unpack input = unpack_loop (to_runes input) []"

subsection \<open>The grammar of packed strings\<close>

text \<open>
  A packed string is a sequence of tokens: a rune, written with a backslash in front when it is a digit or a backslash,
  and an optional repetition count of one ASCII digit.
\<close>

type_synonym token = "rune \<times> nat option"

definition render_token :: "token \<Rightarrow> rune list" where
  "render_token t =
     (if IsDigit (fst t) \<or> fst t = backslash then [backslash, fst t] else [fst t]) @
     (case snd t of None \<Rightarrow> [] | Some n \<Rightarrow> [0x30 + n])"

definition token_ok :: "token \<Rightarrow> bool" where
  "token_ok t \<longleftrightarrow> (case snd t of None \<Rightarrow> True | Some n \<Rightarrow> n \<le> 9)"

definition expand_token :: "token \<Rightarrow> string" where
  "expand_token t = concat (replicate (case snd t of None \<Rightarrow> 1 | Some n \<Rightarrow> n) (string_of_rune (fst t)))"

definition render :: "token list \<Rightarrow> rune list" where
  "render ts = concat (map render_token ts)"

definition expand :: "token list \<Rightarrow> string" where
  "expand ts = concat (map expand_token ts)"

lemma render_simps [simp]: "render [] = []" "render (t # ts) = render_token t @ render ts"
  by (simp_all add: render_def)

lemma expand_simps [simp]: "expand [] = []" "expand (t # ts) = expand_token t @ expand ts"
  by (simp_all add: expand_def)

lemma IsDigit_ascii: "d < 128 \<Longrightarrow> IsDigit d \<longleftrightarrow> 48 \<le> d \<and> d \<le> 57"
  by (simp add: IsDigit_def digit_starts_def)

lemma backslash_not_digit [simp]: "\<not> IsDigit backslash"
  by (simp add: IsDigit_ascii backslash_def)

lemma count_is_digit [simp]: "n \<le> 9 \<Longrightarrow> IsDigit (48 + n)"
  by (simp add: IsDigit_ascii)

lemma byte_chr_of: "n < 256 \<Longrightarrow> byte (chr_of n) = n"
  by (simp add: byte_def chr_of_def)

text \<open>\<open>strconv.Atoi\<close> accepts the ASCII digits only, so the other digits of Unicode are rejected as counts.\<close>

lemma Atoi_count: "n \<le> 9 \<Longrightarrow> ParseInt (string_of_rune (48 + n)) = Some (int n)"
proof -
  assume n: "n \<le> 9"
  then have "is_ascii_digit (chr_of (48 + n))" "digit_val (chr_of (48 + n)) = n"
    "chr_of (48 + n) \<noteq> CHR ''+''" "chr_of (48 + n) \<noteq> CHR ''-''"
    by (auto simp: is_ascii_digit_def digit_val_def chr_of_def dest!: arg_cong [of _ _ "of_char :: char \<Rightarrow> nat"])
  then show ?thesis using n by (simp add: string_of_rune_def ParseInt_def in_int64_def min_int64_def max_int64_def)
qed

lemma high_rune_head: "128 \<le> r \<Longrightarrow> \<exists>c cs. string_of_rune r = c # cs \<and> 128 \<le> byte c"
  by (auto simp: string_of_rune_def byte_chr_of)

lemma Atoi_high: "128 \<le> r \<Longrightarrow> ParseInt (string_of_rune r) = None"
proof -
  assume "128 \<le> r"
  then obtain c cs where c: "string_of_rune r = c # cs" "128 \<le> byte c" using high_rune_head by blast
  then have "c \<noteq> CHR ''+''" "c \<noteq> CHR ''-''" "\<not> is_ascii_digit c"
    by (auto simp: is_ascii_digit_def byte_def)
  then show ?thesis by (simp add: c ParseInt_def)
qed

lemma repeat_count_digit: "n \<le> 9 \<Longrightarrow> repeat_count ((48 + n) # rest) = Some (n, rest)"
  by (simp add: repeat_count_def Atoi_count)

lemma repeat_count_render: "repeat_count (render ts) = Some (1, render ts)"
proof (cases ts)
  case (Cons t ts')
  then show ?thesis by (cases t) (simp add: repeat_count_def render_token_def)
qed (simp add: repeat_count_def)

lemma repeat_count_SomeD:
  assumes "repeat_count rest = Some (n, rest')"
  obtains "n = 1" "rest' = rest" | "n \<le> 9" "rest = (48 + n) # rest'"
proof (cases rest)
  case (Cons d ds)
  show thesis
  proof (cases "IsDigit d")
    case True
    with assms Cons obtain v where v: "ParseInt (string_of_rune d) = Some v" "n = nat v" "rest' = ds"
      by (auto simp: repeat_count_def split: option.splits)
    then have "d < 128" using Atoi_high [of d] by (cases "128 \<le> d") auto
    with True have d: "48 \<le> d" "d \<le> 57" by (simp_all add: IsDigit_ascii)
    then have "v = int (d - 48)" using v(1) Atoi_count [of "d - 48"] by simp
    with v d Cons have "n \<le> 9" "rest = (48 + n) # rest'" by auto
    then show thesis by (rule that(2))
  qed (use assms Cons that(1) in \<open>simp add: repeat_count_def\<close>)
qed (use assms that(1) in \<open>simp add: repeat_count_def\<close>)

lemma repeat_count_suffix:
  assumes "token_ok (c, k)"
  shows "repeat_count ((case k of None \<Rightarrow> [] | Some n \<Rightarrow> [48 + n]) @ render ts) =
    Some (case k of None \<Rightarrow> 1 | Some n \<Rightarrow> n, render ts)"
  using assms by (cases k) (simp_all add: token_ok_def repeat_count_render repeat_count_digit)

lemma unpack_loop_render:
  "list_all token_ok ts \<Longrightarrow> unpack_loop (render ts) acc = Some (acc @ expand ts)"
proof (induction ts arbitrary: acc)
  case (Cons t ts)
  obtain c k where t: "t = (c, k)" by fastforce
  have "repeat_count ((case k of None \<Rightarrow> [] | Some n \<Rightarrow> [48 + n]) @ render ts) =
      Some (case k of None \<Rightarrow> 1 | Some n \<Rightarrow> n, render ts)"
    using Cons.prems by (intro repeat_count_suffix [of c]) (simp add: t)
  then show ?case using Cons.IH Cons.prems
    by (simp add: t render_token_def expand_token_def)
qed simp

lemma repeat_count_token:
  assumes "repeat_count rest = Some (n, rest')"
  obtains k where "token_ok (c, k)" "rest = (case k of None \<Rightarrow> [] | Some m \<Rightarrow> [48 + m]) @ rest'"
    "n = (case k of None \<Rightarrow> 1 | Some m \<Rightarrow> m)"
  using assms
proof (cases rule: repeat_count_SomeD)
  case 1
  then show thesis using that [of None] by (simp add: token_ok_def)
next
  case 2
  then show thesis using that [of "Some n"] by (simp add: token_ok_def)
qed

lemma unpack_loop_tokens:
  "unpack_loop rs acc = Some out \<Longrightarrow> \<exists>ts. list_all token_ok ts \<and> rs = render ts \<and> out = acc @ expand ts"
proof (induction rs acc rule: unpack_loop.induct)
  case (1 acc)
  then show ?case by (auto intro: exI [of _ "[]"])
next
  case (2 current rest acc)
  have nd: "\<not> IsDigit current" using "2.prems" by (auto split: if_splits)
  show ?case
  proof (cases "current = backslash")
    case True
    with "2.prems" obtain e r' n r'' where e: "rest = e # r'" "e = backslash \<or> IsDigit e"
      "repeat_count r' = Some (n, r'')" "unpack_loop r'' (acc @ concat (replicate n (string_of_rune e))) = Some out"
      by (auto split: list.splits if_splits option.splits)
    obtain ts where ts: "list_all token_ok ts" "r'' = render ts"
      "out = (acc @ concat (replicate n (string_of_rune e))) @ expand ts"
      using "2.IH"(1) [OF nd True e(1) _ e(3) refl] e(2,4) by auto
    obtain k where k: "token_ok (e, k)" "r' = (case k of None \<Rightarrow> [] | Some m \<Rightarrow> [48 + m]) @ r''"
      "n = (case k of None \<Rightarrow> 1 | Some m \<Rightarrow> m)" using repeat_count_token [OF e(3)] by blast
    have "list_all token_ok ((e, k) # ts) \<and> current # rest = render ((e, k) # ts) \<and> out = acc @ expand ((e, k) # ts)"
      using ts k e True by (auto simp: render_token_def expand_token_def)
    then show ?thesis by blast
  next
    case False
    with "2.prems" nd obtain n r' where e: "repeat_count rest = Some (n, r')"
      "unpack_loop r' (acc @ concat (replicate n (string_of_rune current))) = Some out"
      by (auto split: option.splits)
    obtain ts where ts: "list_all token_ok ts" "r' = render ts"
      "out = (acc @ concat (replicate n (string_of_rune current))) @ expand ts"
      using "2.IH"(2) [OF nd False e(1) refl] e(2) by auto
    obtain k where k: "token_ok (current, k)" "rest = (case k of None \<Rightarrow> [] | Some m \<Rightarrow> [48 + m]) @ r'"
      "n = (case k of None \<Rightarrow> 1 | Some m \<Rightarrow> m)" using repeat_count_token [OF e(1)] by blast
    have "list_all token_ok ((current, k) # ts) \<and> current # rest = render ((current, k) # ts)
        \<and> out = acc @ expand ((current, k) # ts)"
      using ts k nd False by (auto simp: render_token_def expand_token_def)
    then show ?thesis by blast
  qed
qed

text \<open>
  C39: \<open>Unpack\<close> accepts exactly the strings of the grammar and returns their expansion; every other string, such as one
  that starts with a digit, has a count of two digits, ends in a backslash or escapes a letter, is \<open>ErrInvalidString\<close>.
\<close>

theorem Unpack_grammar:
  "Unpack s = Some out \<longleftrightarrow> (\<exists>ts. list_all token_ok ts \<and> to_runes s = render ts \<and> out = expand ts)"
proof
  assume "Unpack s = Some out"
  then show "\<exists>ts. list_all token_ok ts \<and> to_runes s = render ts \<and> out = expand ts"
    using unpack_loop_tokens [of "to_runes s" "[]" out] by (simp add: Unpack_def)
next
  assume "\<exists>ts. list_all token_ok ts \<and> to_runes s = render ts \<and> out = expand ts"
  then show "Unpack s = Some out" using unpack_loop_render by (auto simp: Unpack_def)
qed

end
