(* ===== verification/Sql_Storage.thy ===== *)
theory Sql_Storage
  imports Calendar_Event Unpack_String
begin

text \<open>
  The PostgreSQL storage of \<open>internal/storage/sql\<close>: connection handling, the event
  operations of the API, the operations of the scheduler and the one of the storer.

  The database is a service outside the sources: it is the parameter \<open>driver\<close> of the operations, what
  \<open>database/sql\<close> answers to a statement (\<open>ExecContext\<close>) and to a query (\<open>QueryContext\<close>) in a state
  \<open>'d\<close> of the server. A constructor of \<open>sql_exec\<close> or \<open>sql_query\<close> stands for one SQL text of the
  sources with its arguments. The locale \<open>postgres\<close> states what the code relies on: a statement
  is executed as a whole or not at all, the constraints of \<open>migrations/*.up.sql\<close> are enforced and reported by their error
  codes, and a timestamp column keeps a time only up to the conversion \<open>ts\<close>. A statement whose answer is
  lost, because the connection breaks or the context ends, may have been executed. The end of the theory gives
  reference databases for these laws.
\<close>

subsection \<open>Statements and driver\<close>

record event_row =
  c_id :: string
  c_title :: string
  c_start_at :: Time
  c_end_at :: Time
  c_description :: string
  c_user_id :: string
  c_notify_before_ns :: int

definition row_of :: "Event \<Rightarrow> event_row" where
  "row_of e = \<lparr>c_id = ID e, c_title = Title e, c_start_at = StartAt e, c_end_at = EndAt e,
     c_description = Description e, c_user_id = UserID e, c_notify_before_ns = NotifyBefore e\<rparr>"

definition event_of_row :: "event_row \<Rightarrow> Event" where
  "event_of_row r = \<lparr>ID = c_id r, Title = c_title r, StartAt = c_start_at r, EndAt = c_end_at r,
     Description = c_description r, UserID = c_user_id r, NotifyBefore = c_notify_before_ns r\<rparr>"

lemma event_of_row_of [simp]: "event_of_row (row_of e) = e"
  by (simp add: event_of_row_def row_of_def)

datatype sql_exec =
    InsertEvent event_row
  | UpdateEventRow event_row
  | DeleteEventRow string
  | SetNotificationSent (m_id: string) (m_title: string) (m_start_at: Time) (m_user_id: string)
      (m_notify_before_ns: int) (m_sent_at: Time)
  | DeleteEventsStartedBefore Time
  | UpsertNotification Notification

datatype sql_query =
    SelectOverlapping string Time Time
  | SelectDue Time int

text \<open>A result set: what \<open>Scan\<close> gives for each row, and what \<open>rows.Err\<close> says at the end.\<close>

datatype sql_rows = Rows "(error + event_row) list" "error option"

record 'd driver =
  ExecContext :: "cctx \<Rightarrow> sql_exec \<Rightarrow> 'd \<Rightarrow> (error + (error + int)) \<times> 'd"
  QueryContext :: "cctx \<Rightarrow> sql_query \<Rightarrow> 'd \<Rightarrow> error + sql_rows"

subsection \<open>Connection\<close>

record 'h SqlStorage =
  dsn :: string
  db :: "'h option"

definition NewSql :: "string \<Rightarrow> 'h SqlStorage" where
  "NewSql d = \<lparr>dsn = d, db = None\<rparr>"

text \<open>
  \<open>sql.Open\<close> and \<open>PingContext\<close> are parameters; the third component of the result lists the handles
  that were closed, in order.
\<close>

definition Connect ::
  "(string \<Rightarrow> error + 'h) \<Rightarrow> ('h \<Rightarrow> error option) \<Rightarrow> 'h SqlStorage
    \<Rightarrow> error option \<times> 'h SqlStorage \<times> 'h list" where
  "Connect sql_open ping s =
     (if blank (dsn s) then (Some (Err (Errorf [Lit ''connect to database: empty DSN''])), s, [])
      else case sql_open (dsn s) of
        Inl err \<Rightarrow> (Some (Wrap [Lit ''open database''] err), s, [])
      | Inr h \<Rightarrow>
          (case ping h of
             Some err \<Rightarrow> (Some (Wrap [Lit ''ping database''] err), s, [h])
           | None \<Rightarrow> (None, s\<lparr>db := Some h\<rparr>, (case db s of None \<Rightarrow> [] | Some old \<Rightarrow> [old]))))"

definition Close ::
  "('h \<Rightarrow> error option) \<Rightarrow> cctx \<Rightarrow> 'h SqlStorage \<Rightarrow> error option \<times> 'h SqlStorage \<times> 'h list" where
  "Close close_db ctx s =
     (case ctx 0 of Some err \<Rightarrow> (Some err, s, []) | None \<Rightarrow>
      case db s of
        None \<Rightarrow> (None, s\<lparr>db := None\<rparr>, [])
      | Some h \<Rightarrow>
          (case close_db h of
             Some err \<Rightarrow> (Some (Wrap [Lit ''close database''] err), s\<lparr>db := None\<rparr>, [h])
           | None \<Rightarrow> (None, s\<lparr>db := None\<rparr>, [h])))"

definition database :: "'h SqlStorage \<Rightarrow> error + 'h" where
  "database s = (case db s of None \<Rightarrow> Inl (Err ErrNotConnected) | Some h \<Rightarrow> Inr h)"

fun pq_code :: "error \<Rightarrow> string option" where
  "pq_code (Err (PqError c)) = Some c"
| "pq_code (Err _) = None"
| "pq_code (Wrap _ e) = pq_code e"

definition mapDatabaseError :: "string \<Rightarrow> error \<Rightarrow> error" where
  "mapDatabaseError operation err =
     (if pq_code err = Some ''23505'' then Wrap [Lit operation] (Err ErrEventAlreadyExists)
      else if pq_code err = Some ''23P01'' then Wrap [Lit operation] (Err ErrDateBusy)
      else if pq_code err = Some ''23514'' then Wrap [Lit operation] (Err ErrInvalidEvent)
      else Wrap [Lit operation] err)"

subsection \<open>The operations of the API\<close>

type_synonym ('h, 'd) sql_state = "'h SqlStorage \<times> 'd"

definition SqlCreateEvent ::
  "'d driver \<Rightarrow> cctx \<Rightarrow> Event \<Rightarrow> ('h, 'd) sql_state \<Rightarrow> error option \<times> ('h, 'd) sql_state" where
  "SqlCreateEvent drv ctx event = (\<lambda>(s, d).
     case ValidateEvent event of Some err \<Rightarrow> (Some err, s, d) | None \<Rightarrow>
     case database s of Inl err \<Rightarrow> (Some err, s, d) | Inr _ \<Rightarrow>
     case ExecContext drv ctx (InsertEvent (row_of event)) d of
       (Inl err, d') \<Rightarrow> (Some (mapDatabaseError ''create event'' err), s, d')
     | (Inr _, d') \<Rightarrow> (None, s, d'))"

definition SqlUpdateEvent ::
  "'d driver \<Rightarrow> cctx \<Rightarrow> Event \<Rightarrow> ('h, 'd) sql_state \<Rightarrow> error option \<times> ('h, 'd) sql_state" where
  "SqlUpdateEvent drv ctx event = (\<lambda>(s, d).
     case ValidateEvent event of Some err \<Rightarrow> (Some err, s, d) | None \<Rightarrow>
     case database s of Inl err \<Rightarrow> (Some err, s, d) | Inr _ \<Rightarrow>
     case ExecContext drv ctx (UpdateEventRow (row_of event)) d of
       (Inl err, d') \<Rightarrow> (Some (mapDatabaseError ''update event'' err), s, d')
     | (Inr (Inl err), d') \<Rightarrow> (Some (Wrap [Lit ''update event: get affected rows''] err), s, d')
     | (Inr (Inr rowsAffected), d') \<Rightarrow>
         (if rowsAffected = 0 then Some (Err ErrEventNotFound) else None, s, d'))"

definition SqlDeleteEvent ::
  "'d driver \<Rightarrow> cctx \<Rightarrow> string \<Rightarrow> ('h, 'd) sql_state \<Rightarrow> error option \<times> ('h, 'd) sql_state" where
  "SqlDeleteEvent drv ctx i = (\<lambda>(s, d).
     if blank i then (Some (Wrap [Lit ''empty event ID''] (Err ErrInvalidEvent)), s, d) else
     case database s of Inl err \<Rightarrow> (Some err, s, d) | Inr _ \<Rightarrow>
     case ExecContext drv ctx (DeleteEventRow i) d of
       (Inl err, d') \<Rightarrow> (Some (Wrap [Lit ''delete event''] err), s, d')
     | (Inr (Inl err), d') \<Rightarrow> (Some (Wrap [Lit ''delete event: get affected rows''] err), s, d')
     | (Inr (Inr rowsAffected), d') \<Rightarrow>
         (if rowsAffected = 0 then Some (Err ErrEventNotFound) else None, s, d'))"

text \<open>\<open>scanEvents\<close>: the first row that does not scan ends the loop.\<close>

fun scan_loop :: "string \<Rightarrow> (error + event_row) list \<Rightarrow> Event list \<Rightarrow> error + Event list" where
  "scan_loop operation [] acc = Inr acc"
| "scan_loop operation (Inl err # rest) acc = Inl (Wrap [Lit operation, Lit '': scan row''] err)"
| "scan_loop operation (Inr r # rest) acc = scan_loop operation rest (acc @ [event_of_row r])"

definition scanEvents :: "sql_rows \<Rightarrow> string \<Rightarrow> error + Event list" where
  "scanEvents rows operation =
     (case rows of Rows rs rows_err \<Rightarrow>
        (case scan_loop operation rs [] of
           Inl err \<Rightarrow> Inl err
         | Inr es \<Rightarrow>
             (case rows_err of
                Some err \<Rightarrow> Inl (Wrap [Lit operation, Lit '': read rows''] err)
              | None \<Rightarrow> Inr es)))"

definition SqlListEvents ::
  "'d driver \<Rightarrow> cctx \<Rightarrow> string \<Rightarrow> Time \<Rightarrow> Time \<Rightarrow> ('h, 'd) sql_state \<Rightarrow> error + Event list" where
  "SqlListEvents drv ctx userID from to = (\<lambda>(s, d).
     if blank userID then Inl (Wrap [Lit ''empty user ID''] (Err ErrInvalidEvent))
     else if IsZero from \<or> IsZero to \<or> \<not> Before from to
     then Inl (Wrap [Lit ''invalid time range''] (Err ErrInvalidEvent))
     else case database s of Inl err \<Rightarrow> Inl err | Inr _ \<Rightarrow>
       (case QueryContext drv ctx (SelectOverlapping userID from to) d of
          Inl err \<Rightarrow> Inl (Wrap [Lit ''list events''] err)
        | Inr rows \<Rightarrow> scanEvents rows ''list events''))"

subsection \<open>The operations of the scheduler and of the storer\<close>

definition ListEventsForNotification ::
  "'d driver \<Rightarrow> cctx \<Rightarrow> Time \<Rightarrow> int \<Rightarrow> ('h, 'd) sql_state \<Rightarrow> error + Event list" where
  "ListEventsForNotification drv ctx now limit = (\<lambda>(s, d).
     if IsZero now then Inl (Wrap [Lit ''notification time is zero''] (Err ErrInvalidEvent))
     else if limit \<le> 0 then Inl (Wrap [Lit ''notification limit must be positive''] (Err ErrInvalidEvent))
     else case database s of Inl err \<Rightarrow> Inl err | Inr _ \<Rightarrow>
       (case QueryContext drv ctx (SelectDue now limit) d of
          Inl err \<Rightarrow> Inl (Wrap [Lit ''list events for notification''] err)
        | Inr rows \<Rightarrow> scanEvents rows ''list events for notification''))"

definition MarkNotificationSent ::
  "'d driver \<Rightarrow> cctx \<Rightarrow> Event \<Rightarrow> Time \<Rightarrow> ('h, 'd) sql_state \<Rightarrow> (error + bool) \<times> ('h, 'd) sql_state" where
  "MarkNotificationSent drv ctx event sentAt = (\<lambda>(s, d).
     case ValidateEvent event of Some err \<Rightarrow> (Inl err, s, d) | None \<Rightarrow>
     if IsZero sentAt then (Inl (Wrap [Lit ''notification sent time is zero''] (Err ErrInvalidEvent)), s, d) else
     case database s of Inl err \<Rightarrow> (Inl err, s, d) | Inr _ \<Rightarrow>
     case ExecContext drv ctx
            (SetNotificationSent (ID event) (Title event) (StartAt event) (UserID event)
               (NotifyBefore event) sentAt) d of
       (Inl err, d') \<Rightarrow> (Inl (Wrap [Lit ''mark notification sent''] err), s, d')
     | (Inr (Inl err), d') \<Rightarrow> (Inl (Wrap [Lit ''mark notification sent: get affected rows''] err), s, d')
     | (Inr (Inr rowsAffected), d') \<Rightarrow> (Inr (rowsAffected = 1), s, d'))"

definition DeleteEventsBefore ::
  "'d driver \<Rightarrow> cctx \<Rightarrow> Time \<Rightarrow> ('h, 'd) sql_state \<Rightarrow> error option \<times> ('h, 'd) sql_state" where
  "DeleteEventsBefore drv ctx cutoff = (\<lambda>(s, d).
     if IsZero cutoff then (Some (Wrap [Lit ''event retention cutoff is zero''] (Err ErrInvalidEvent)), s, d) else
     case database s of Inl err \<Rightarrow> (Some err, s, d) | Inr _ \<Rightarrow>
     case ExecContext drv ctx (DeleteEventsStartedBefore cutoff) d of
       (Inl err, d') \<Rightarrow> (Some (Wrap [Lit ''delete old events''] err), s, d')
     | (Inr _, d') \<Rightarrow> (None, s, d'))"

definition SaveNotification ::
  "'d driver \<Rightarrow> cctx \<Rightarrow> Notification \<Rightarrow> ('h, 'd) sql_state \<Rightarrow> error option \<times> ('h, 'd) sql_state" where
  "SaveNotification drv ctx v = (\<lambda>(s, d).
     case ValidateNotification v of Some err \<Rightarrow> (Some err, s, d) | None \<Rightarrow>
     case database s of Inl err \<Rightarrow> (Some err, s, d) | Inr _ \<Rightarrow>
     case ExecContext drv ctx (UpsertNotification v) d of
       (Inl err, d') \<Rightarrow> (Some (Wrap [Lit ''save notification''] err), s, d')
     | (Inr _, d') \<Rightarrow> (None, s, d'))"

lemmas sql_op_defs = SqlCreateEvent_def SqlUpdateEvent_def SqlDeleteEvent_def SqlListEvents_def
  ListEventsForNotification_def MarkNotificationSent_def DeleteEventsBefore_def SaveNotification_def
  database_def

lemma scan_loop_Inr:
  "scan_loop operation rs acc = Inr es \<longleftrightarrow> (\<exists>xs. rs = map Inr xs \<and> es = acc @ map event_of_row xs)"
  by (induction operation rs acc rule: scan_loop.induct) (auto simp: Cons_eq_map_conv)

lemma scan_loop_Inl:
  "scan_loop operation rs acc = Inl e \<Longrightarrow> \<exists>e'. Inl e' \<in> set rs \<and> root_cause e = root_cause e'"
  by (induction operation rs acc rule: scan_loop.induct) auto

lemma scanEvents_Inr:
  "scanEvents rows operation = Inr es \<longleftrightarrow> (\<exists>xs. rows = Rows (map Inr xs) None \<and> es = map event_of_row xs)"
  by (auto simp: scanEvents_def scan_loop_Inr split: sql_rows.splits sum.splits option.splits dest: scan_loop_Inl)

lemma scanEvents_Inl:
  "scanEvents (Rows rs oe) operation = Inl e \<Longrightarrow>
     \<exists>e'. (Inl e' \<in> set rs \<or> oe = Some e') \<and> root_cause e = root_cause e'"
  by (auto simp: scanEvents_def split: sum.splits option.splits dest: scan_loop_Inl)

subsection \<open>What the code relies on of PostgreSQL\<close>

text \<open>The errors a driver reports: of the server, of the connection, or of the context; never a sentinel of the sources.\<close>

definition driver_error :: "error \<Rightarrow> bool" where
  "driver_error e \<longleftrightarrow>
     (case root_cause e of PqError _ \<Rightarrow> True | LibError _ \<Rightarrow> True | Canceled \<Rightarrow> True
      | DeadlineExceeded \<Rightarrow> True | _ \<Rightarrow> False)"

text \<open>The constraints of the table \<open>events\<close> in \<open>migrations/00001_events.up.sql\<close>.\<close>

definition row_checks :: "event_row \<Rightarrow> bool" where
  "row_checks r \<longleftrightarrow> list_ex (\<lambda>c. c \<noteq> CHR '' '') (c_title r) \<and> list_ex (\<lambda>c. c \<noteq> CHR '' '') (c_user_id r)
     \<and> 0 \<le> c_notify_before_ns r \<and> Before (c_start_at r) (c_end_at r)"

text \<open>The constraints of the table \<open>notifications\<close> in \<open>migrations/00002_notifications.up.sql\<close>.\<close>

definition note_checks :: "Notification \<Rightarrow> bool" where
  "note_checks v \<longleftrightarrow> list_ex (\<lambda>c. c \<noteq> CHR '' '') (n_Title v) \<and> list_ex (\<lambda>c. c \<noteq> CHR '' '') (n_UserID v)"

definition row_clash :: "event_row \<Rightarrow> event_row \<Rightarrow> bool" where
  "row_clash r q \<longleftrightarrow> c_user_id r = c_user_id q
     \<and> intervalsOverlap (c_start_at r) (c_end_at r) (c_start_at q) (c_end_at q)"

definition ts_row :: "(Time \<Rightarrow> Time) \<Rightarrow> event_row \<Rightarrow> event_row" where
  "ts_row ts r = r\<lparr>c_start_at := ts (c_start_at r), c_end_at := ts (c_end_at r)\<rparr>"

type_synonym event_table = "string \<rightharpoonup> event_row \<times> Time option"

definition row_busy :: "event_table \<Rightarrow> event_row \<Rightarrow> string option \<Rightarrow> bool" where
  "row_busy tab r excluded \<longleftrightarrow> (\<exists>i q s. tab i = Some (q, s) \<and> excluded \<noteq> Some i \<and> row_clash q r)"

definition calendar_of_table :: "event_table \<Rightarrow> calendar" where
  "calendar_of_table tab = (\<lambda>i. map_option (event_of_row \<circ> fst) (tab i))"

text \<open>The row a \<open>SetNotificationSent\<close> statement applies to: still the published snapshot, not yet marked.\<close>

definition mark_matches :: "(Time \<Rightarrow> Time) \<Rightarrow> sql_exec \<Rightarrow> event_row \<times> Time option \<Rightarrow> bool" where
  "mark_matches ts st rs \<longleftrightarrow>
     (case (st, rs) of
        (SetNotificationSent i title start user n sent, r, s) \<Rightarrow>
          c_id r = i \<and> c_title r = title \<and> TimeEqual (c_start_at r) (ts start) \<and> c_user_id r = user
          \<and> c_notify_before_ns r = n \<and> s = None
      | _ \<Rightarrow> False)"

text \<open>The rows the query of \<open>ListEventsForNotification\<close> selects, before its \<open>LIMIT\<close>.\<close>

definition pending_rows :: "(Time \<Rightarrow> event_row \<Rightarrow> bool) \<Rightarrow> event_table \<Rightarrow> Time \<Rightarrow> event_row set" where
  "pending_rows due t now = {r. \<exists>i. t i = Some (r, None) \<and> 0 < c_notify_before_ns r \<and> due now r}"

text \<open>What \<open>DELETE FROM events WHERE start_at < $1\<close> leaves.\<close>

definition purged :: "event_table \<Rightarrow> Time \<Rightarrow> event_table" where
  "purged t cutoff = (\<lambda>i. case t i of None \<Rightarrow> None
     | Some (r, s) \<Rightarrow> if Before (c_start_at r) cutoff then None else Some (r, s))"

text \<open>
  What a statement requires of the constraints, what it makes of the two tables, and the number of rows it reports. Only
  the counts the code looks at are stated.
\<close>

fun permitted :: "(Time \<Rightarrow> Time) \<Rightarrow> sql_exec \<Rightarrow> event_table \<Rightarrow> bool" where
  "permitted ts (InsertEvent r) t \<longleftrightarrow>
     row_checks (ts_row ts r) \<and> c_id r \<notin> dom t \<and> \<not> row_busy t (ts_row ts r) None"
| "permitted ts (UpdateEventRow r) t \<longleftrightarrow>
     (c_id r \<in> dom t \<longrightarrow> row_checks (ts_row ts r) \<and> \<not> row_busy t (ts_row ts r) (Some (c_id r)))"
| "permitted ts (UpsertNotification v) t \<longleftrightarrow> note_checks v"
| "permitted ts _ t \<longleftrightarrow> True"

fun events_after :: "(Time \<Rightarrow> Time) \<Rightarrow> sql_exec \<Rightarrow> event_table \<Rightarrow> event_table" where
  "events_after ts (InsertEvent r) t = t(c_id r \<mapsto> (ts_row ts r, None))"
| "events_after ts (UpdateEventRow r) t = (if c_id r \<in> dom t then t(c_id r \<mapsto> (ts_row ts r, None)) else t)"
| "events_after ts (DeleteEventRow i) t = t(i := None)"
| "events_after ts (SetNotificationSent i title a u n w) t =
     (case t i of
        Some (r, s) \<Rightarrow> if mark_matches ts (SetNotificationSent i title a u n w) (r, s) then t(i \<mapsto> (r, Some (ts w))) else t
      | None \<Rightarrow> t)"
| "events_after ts (DeleteEventsStartedBefore cutoff) t = purged t (ts cutoff)"
| "events_after ts (UpsertNotification v) t = t"

fun notes_after :: "(Time \<Rightarrow> Time) \<Rightarrow> sql_exec \<Rightarrow> (string \<rightharpoonup> Notification) \<Rightarrow> (string \<rightharpoonup> Notification)" where
  "notes_after ts (UpsertNotification v) m = m(n_EventID v \<mapsto> v\<lparr>n_EventAt := ts (n_EventAt v)\<rparr>)"
| "notes_after ts _ m = m"

fun rows_affected :: "(Time \<Rightarrow> Time) \<Rightarrow> sql_exec \<Rightarrow> event_table \<Rightarrow> int \<Rightarrow> bool" where
  "rows_affected ts (UpdateEventRow r) t k \<longleftrightarrow> k = (if c_id r \<in> dom t then 1 else 0)"
| "rows_affected ts (DeleteEventRow i) t k \<longleftrightarrow> k = (if i \<in> dom t then 1 else 0)"
| "rows_affected ts (SetNotificationSent i title a u n w) t k \<longleftrightarrow>
     k = (case t i of
            Some rs \<Rightarrow> if mark_matches ts (SetNotificationSent i title a u n w) rs then 1 else 0
          | None \<Rightarrow> 0)"
| "rows_affected ts _ t k \<longleftrightarrow> True"

text \<open>The codes of a unique violation, an exclusion violation and a check violation: the statement was rejected.\<close>

definition constraint_error :: "error \<Rightarrow> bool" where
  "constraint_error e \<longleftrightarrow> pq_code e = Some ''23505'' \<or> pq_code e = Some ''23P01'' \<or> pq_code e = Some ''23514''"

locale postgres =
  fixes drv :: "'d driver"
    and tab :: "'d \<Rightarrow> event_table"
    and saved :: "'d \<Rightarrow> string \<rightharpoonup> Notification"
    and ts :: "Time \<Rightarrow> Time"
    and due :: "Time \<Rightarrow> event_row \<Rightarrow> bool"
  assumes exec_fail: "ctx_law c \<Longrightarrow> ExecContext drv c st d = (Inl e, d') \<Longrightarrow>
      driver_error e \<and>
      (tab d' = tab d \<and> saved d' = saved d \<or>
       \<not> constraint_error e \<and> permitted ts st (tab d) \<and> tab d' = events_after ts st (tab d) \<and> saved d' = notes_after ts st (saved d))"
    and exec_ok: "ExecContext drv c st d = (Inr n, d') \<Longrightarrow>
      permitted ts st (tab d) \<and> tab d' = events_after ts st (tab d) \<and> saved d' = notes_after ts st (saved d) \<and>
      (\<exists>k. n = Inr k \<and> rows_affected ts st (tab d) k)"
    and insert_codes: "ctx_law c \<Longrightarrow> ExecContext drv c (InsertEvent r) d = (Inl e, d') \<Longrightarrow>
      (pq_code e = Some ''23505'' \<longrightarrow> c_id r \<in> dom (tab d)) \<and>
      (pq_code e = Some ''23P01'' \<longrightarrow> row_busy (tab d) (ts_row ts r) None) \<and>
      (pq_code e = Some ''23514'' \<longrightarrow> \<not> row_checks (ts_row ts r))"
    and update_codes: "ctx_law c \<Longrightarrow> ExecContext drv c (UpdateEventRow r) d = (Inl e, d') \<Longrightarrow>
      pq_code e \<noteq> Some ''23505'' \<and>
      (pq_code e = Some ''23P01'' \<longrightarrow> row_busy (tab d) (ts_row ts r) (Some (c_id r))) \<and>
      (pq_code e = Some ''23514'' \<longrightarrow> \<not> row_checks (ts_row ts r))"
    and query_fail: "ctx_law c \<Longrightarrow> QueryContext drv c q d = Inl e \<Longrightarrow> driver_error e"
    and rows_fail: "ctx_law c \<Longrightarrow> QueryContext drv c q d = Inr (Rows res oe) \<Longrightarrow>
      (\<forall>e. Inl e \<in> set res \<or> oe = Some e \<longrightarrow> driver_error e)"
    and select_overlapping: "QueryContext drv c (SelectOverlapping u a b) d = Inr (Rows (map Inr rs) None) \<Longrightarrow>
      distinct rs \<and> sorted (map (instant \<circ> c_start_at) rs) \<and>
      set rs = {r. \<exists>i s. tab d i = Some (r, s) \<and> c_user_id r = u
        \<and> Before (c_start_at r) (ts b) \<and> After (c_end_at r) (ts a)}"
    and select_due: "QueryContext drv c (SelectDue now limit) d = Inr (Rows (map Inr rs) None) \<Longrightarrow>
      distinct rs \<and> sorted (map (instant \<circ> c_start_at) rs) \<and> int (length rs) \<le> max 0 limit \<and>
      set rs \<subseteq> pending_rows due (tab d) (ts now) \<and>
      (int (length rs) < limit \<longrightarrow> set rs = pending_rows due (tab d) (ts now))"
begin

text \<open>An execution, answered or not: nothing happened, or the whole statement, within the constraints.\<close>

lemma exec_effect:
  assumes "ctx_law c" "ExecContext drv c st d = (x, d')"
  shows "tab d' = tab d \<and> saved d' = saved d \<or>
    permitted ts st (tab d) \<and> tab d' = events_after ts st (tab d) \<and> saved d' = notes_after ts st (saved d)"
  using exec_fail [OF assms(1), of st d] exec_ok [of c st d] assms(2) by (cases x) blast+

end

text \<open>
  What more is known of the two parameters of the database, where a theorem needs it: a timestamp column keeps an instant, and
  the condition of \<open>ListEventsForNotification\<close> on a row whose notice is a positive number \<open>k\<close> of seconds. The query divides in
  double precision, which is exact as long as \<open>k\<close> seconds in nanoseconds are below \<open>2 ^ 53\<close>.
\<close>

definition ts_law :: "(Time \<Rightarrow> Time) \<Rightarrow> bool" where
  "ts_law ts \<longleftrightarrow> (\<forall>t u. TimeEqual t u \<longrightarrow> TimeEqual (ts t) (ts u))"

definition due_law :: "(Time \<Rightarrow> event_row \<Rightarrow> bool) \<Rightarrow> bool" where
  "due_law due \<longleftrightarrow> (\<forall>now r k. 0 < k \<longrightarrow> k \<le> 9007199 \<longrightarrow> c_notify_before_ns r = k * second \<longrightarrow>
     (due now r \<longleftrightarrow> instant now < instant (c_start_at r) \<and> instant (c_start_at r) \<le> instant now + k * second))"

text \<open>
  What a \<open>text\<close> column of a database with the encoding UTF8 accepts, and times every conversion on the way to the
  database accepts: the years 1 to 9999.
\<close>

definition valid_utf8 :: "string \<Rightarrow> bool" where
  "valid_utf8 s \<longleftrightarrow> concat (map string_of_rune (to_runes s)) = s"

definition storable_text :: "string \<Rightarrow> bool" where
  "storable_text s \<longleftrightarrow> valid_utf8 s \<and> CHR 0x00 \<notin> set s"

definition in_years :: "Time \<Rightarrow> bool" where
  "in_years t \<longleftrightarrow> 0 \<le> instant t \<and> instant t < 315537897600 * second"

definition storable :: "Notification \<Rightarrow> bool" where
  "storable n \<longleftrightarrow> storable_text (n_EventID n) \<and> storable_text (n_Title n) \<and> storable_text (n_UserID n) \<and> in_years (n_EventAt n)"

subsection \<open>Tables and calendars\<close>

lemma calendar_of_table_upd [simp]:
  "calendar_of_table (t(i \<mapsto> (r, s))) = (calendar_of_table t)(i \<mapsto> event_of_row r)"
  by (auto simp: calendar_of_table_def)

lemma calendar_of_table_del [simp]: "calendar_of_table (t(i := None)) = (calendar_of_table t)(i := None)"
  by (auto simp: calendar_of_table_def)

lemma dom_calendar_of_table [simp]: "dom (calendar_of_table t) = dom t"
  by (auto simp: calendar_of_table_def)

lemma event_of_row_inject [simp]: "event_of_row r = event_of_row q \<longleftrightarrow> r = q"
  by (auto simp: event_of_row_def)

lemma row_clash_event: "row_clash q r \<longleftrightarrow> clash (event_of_row q) (event_of_row r)"
  by (simp add: row_clash_def clash_def event_of_row_def)

lemma row_busy_event: "row_busy t r x \<longleftrightarrow> busy (calendar_of_table t) (event_of_row r) x"
  by (auto simp: row_busy_def busy_def row_clash_event calendar_of_table_def)

lemma ts_row_of [simp]: "ts_row ts (row_of ev) = row_of (kept_as ts ev)"
  by (simp add: ts_row_def row_of_def kept_as_def)

lemma ts_row_id [simp]: "c_id (ts_row ts r) = c_id r"
  by (simp add: ts_row_def)

lemma row_checks_proper: "valid_event ev \<Longrightarrow> row_checks (row_of (kept_as ts ev)) \<longleftrightarrow> proper_event (kept_as ts ev)"
  using valid_eventD [of ev] blank_spaces [of "Title ev"] blank_spaces [of "UserID ev"]
  by (auto simp: row_checks_def row_of_def proper_event_def list_ex_iff list_all_iff)

lemma note_checks_valid: "ValidateNotification n = None \<Longrightarrow> note_checks n"
  using blank_spaces [of "n_Title n"] blank_spaces [of "n_UserID n"]
  by (auto simp: note_checks_def ValidateNotification_def list_ex_iff list_all_iff split: if_splits)

lemma c_id_row_of [simp]: "c_id (row_of ev) = ID ev"
  by (simp add: row_of_def)

lemma pq_code_root: "pq_code e = (case root_cause e of PqError c \<Rightarrow> Some c | _ \<Rightarrow> None)"
  by (induction e rule: pq_code.induct) (auto split: cal_error.splits)

lemma root_cause_mapDatabaseError:
  "root_cause (mapDatabaseError operation e) =
    (if pq_code e = Some ''23505'' then ErrEventAlreadyExists
     else if pq_code e = Some ''23P01'' then ErrDateBusy
     else if pq_code e = Some ''23514'' then ErrInvalidEvent
     else root_cause e)"
  by (simp add: mapDatabaseError_def)

lemma driver_error_not_sentinel:
  assumes "driver_error e"
  shows "root_cause e \<noteq> ErrInvalidEvent" "root_cause e \<noteq> ErrEventAlreadyExists"
    "root_cause e \<noteq> ErrEventNotFound" "root_cause e \<noteq> ErrDateBusy" "root_cause e \<noteq> ErrNotConnected"
  using assms by (auto simp: driver_error_def split: cal_error.splits)

text \<open>
  Events of one user never start together in a consistent calendar, so the order by start alone
  (the tie-break of \<open>ORDER BY start_at, id\<close> depends on the collation of the database) is the order of
  the listing.
\<close>

lemma same_user_distinct_starts:
  assumes "consistent m" "e \<in> ran m" "f \<in> ran m" "UserID e = UserID f"
    and "instant (StartAt e) = instant (StartAt f)"
  shows "e = f"
proof (rule ccontr)
  assume "e \<noteq> f"
  with assms(2,3) obtain i j where ij: "m i = Some e" "m j = Some f" "i \<noteq> j"
    unfolding ran_def mem_Collect_eq by (metis option.inject)
  with assms(1) have "\<not> clash e f" unfolding consistent_def by blast
  moreover have "instant (StartAt e) < instant (EndAt e)" "instant (StartAt f) < instant (EndAt f)"
    using consistentD(1) [OF assms(1)] ij by (auto simp: proper_event_def Before_def)
  ultimately show False
    using assms(4,5) by (simp add: clash_def intervalsOverlap_def Before_def)
qed

lemma sorted_starts_list_key:
  assumes "consistent m" "set es \<subseteq> ran m" "\<forall>e \<in> set es. UserID e = u" "distinct es"
    and "sorted (map (instant \<circ> StartAt) es)"
  shows "sorted (map list_key es)"
  using assms(2-)
proof (induction es)
  case (Cons e es)
  have "list_key e \<le> list_key f" if "f \<in> set es" for f
  proof -
    have "instant (StartAt e) \<le> instant (StartAt f)" using Cons.prems(4) that by auto
    moreover have "instant (StartAt e) \<noteq> instant (StartAt f)"
    proof
      assume "instant (StartAt e) = instant (StartAt f)"
      moreover have "e \<in> ran m" "f \<in> ran m" "UserID e = UserID f"
        using Cons.prems(1,2) that by auto
      ultimately have "e = f" using same_user_distinct_starts [OF assms(1)] by blast
      with that Cons.prems(3) show False by simp
    qed
    ultimately show ?thesis by (simp add: list_key_def less_eq_prod_def)
  qed
  with Cons show ?case by auto
qed simp

lemma overlapping_rows:
  "event_of_row ` {r. \<exists>i s. t i = Some (r, s) \<and> c_user_id r = u \<and> Before (c_start_at r) b \<and> After (c_end_at r) a} =
   {e \<in> ran (calendar_of_table t). in_range u a b e}"
proof -
  have "in_range u a b (event_of_row r) \<longleftrightarrow> c_user_id r = u \<and> Before (c_start_at r) b \<and> After (c_end_at r) a" for r
    by (auto simp: in_range_def intervalsOverlap_def time_cmp event_of_row_def)
  then show ?thesis
    by (fastforce simp: ran_def calendar_of_table_def)
qed

definition sql_calendar :: "('d \<Rightarrow> event_table) \<Rightarrow> ('h, 'd) sql_state \<Rightarrow> calendar" where
  "sql_calendar tab sd = calendar_of_table (tab (snd sd))"

definition sql_inv :: "('d \<Rightarrow> event_table) \<Rightarrow> ('h, 'd) sql_state \<Rightarrow> bool" where
  "sql_inv tab sd \<longleftrightarrow> consistent (sql_calendar tab sd)"

lemmas sql_abs = sql_calendar_def sql_inv_def

context postgres
begin

lemma sql_create_contract:
  assumes "ctx_law c" "SqlCreateEvent drv c ev sd = (r, sd')"
  shows "create_post ts (sql_calendar tab sd) ev r (sql_calendar tab sd')"
proof -
  obtain s d where sd: "sd = (s, d)" by (cases sd)
  obtain x d' where x: "ExecContext drv c (InsertEvent (row_of ev)) d = (x, d')" by fastforce
  note busy = row_busy_event [of "tab d" "row_of (kept_as ts ev)", simplified] and checks = row_checks_proper [of ev ts]
  show ?thesis
  proof (cases x)
    case (Inl e)
    with x have x: "ExecContext drv c (InsertEvent (row_of ev)) d = (Inl e, d')" by simp
    show ?thesis
      using assms(2) exec_fail [OF assms(1) x] insert_codes [OF assms(1) x] driver_error_not_sentinel [of e] checks
      by (auto simp: sd x SqlCreateEvent_def database_def create_post_def created_def states_reason_def ValidateEvent_cases sql_abs busy
          constraint_error_def root_cause_mapDatabaseError split: option.splits if_splits)
  next
    case (Inr n)
    with x have x: "ExecContext drv c (InsertEvent (row_of ev)) d = (Inr n, d')" by simp
    show ?thesis
      using assms(2) exec_ok [OF x] checks
      by (auto simp: sd x SqlCreateEvent_def database_def create_post_def created_def states_reason_def ValidateEvent_cases sql_abs busy
          split: option.splits if_splits)
  qed
qed

lemma sql_update_contract:
  assumes "ctx_law c" "SqlUpdateEvent drv c ev sd = (r, sd')"
  shows "update_post ts (sql_calendar tab sd) ev r (sql_calendar tab sd')"
proof -
  obtain s d where sd: "sd = (s, d)" by (cases sd)
  obtain x d' where x: "ExecContext drv c (UpdateEventRow (row_of ev)) d = (x, d')" by fastforce
  note busy = row_busy_event [of "tab d" "row_of (kept_as ts ev)", simplified] and checks = row_checks_proper [of ev ts]
  show ?thesis
  proof (cases x)
    case (Inl e)
    with x have x: "ExecContext drv c (UpdateEventRow (row_of ev)) d = (Inl e, d')" by simp
    show ?thesis
      using assms(2) exec_fail [OF assms(1) x] update_codes [OF assms(1) x] driver_error_not_sentinel [of e] checks
      by (auto simp: sd x SqlUpdateEvent_def database_def update_post_def updated_def states_reason_def ValidateEvent_cases sql_abs busy
          constraint_error_def root_cause_mapDatabaseError split: option.splits if_splits)
  next
    case (Inr n)
    with x exec_ok obtain k where x: "ExecContext drv c (UpdateEventRow (row_of ev)) d = (Inr (Inr k), d')" by blast
    show ?thesis
      using assms(2) exec_ok [OF x] checks
      by (auto simp: sd x SqlUpdateEvent_def database_def update_post_def updated_def states_reason_def ValidateEvent_cases sql_abs busy
          split: option.splits if_splits)
  qed
qed

lemma sql_delete_contract:
  assumes "ctx_law c" "SqlDeleteEvent drv c i sd = (r, sd')"
  shows "delete_post (sql_calendar tab sd) i r (sql_calendar tab sd')"
proof -
  obtain s d where sd: "sd = (s, d)" by (cases sd)
  obtain x d' where x: "ExecContext drv c (DeleteEventRow i) d = (x, d')" by fastforce
  show ?thesis
  proof (cases x)
    case (Inl e)
    with x have x: "ExecContext drv c (DeleteEventRow i) d = (Inl e, d')" by simp
    have "tab d' = tab d \<or> i \<in> dom (tab d) \<and> tab d' = (tab d)(i := None)"
      using exec_fail [OF assms(1) x] by (auto simp: fun_upd_idem domIff)
    then show ?thesis
      using assms(2) exec_fail [OF assms(1) x] driver_error_not_sentinel [of e]
      by (auto simp: sd x SqlDeleteEvent_def database_def delete_post_def states_reason_def sql_abs split: option.splits if_splits)
  next
    case (Inr n)
    with x exec_ok obtain k where x: "ExecContext drv c (DeleteEventRow i) d = (Inr (Inr k), d')" by blast
    show ?thesis
      using assms(2) exec_ok [OF x]
      by (auto simp: sd x SqlDeleteEvent_def database_def delete_post_def states_reason_def sql_abs fun_upd_idem_iff
          split: option.splits if_splits)
  qed
qed

lemma sql_rows_error:
  assumes "ctx_law c" "QueryContext drv c q d = Inr rows" "scanEvents rows operation = Inl e"
  shows "driver_error e"
proof -
  obtain res oe where rows: "rows = Rows res oe" by (cases rows)
  then obtain e' where "Inl e' \<in> set res \<or> oe = Some e'" "root_cause e = root_cause e'"
    using scanEvents_Inl assms(3) by blast
  then show ?thesis
    using rows_fail [OF assms(1), of q d res oe] assms(2) rows by (auto simp: driver_error_def)
qed

lemma sql_select_overlapping:
  assumes "consistent (calendar_of_table (tab d))"
    and "QueryContext drv c (SelectOverlapping u a b) d = Inr rows" "scanEvents rows operation = Inr es"
  shows "distinct es \<and> sorted (map list_key es) \<and>
    set es = {e \<in> ran (calendar_of_table (tab d)). in_range u (ts a) (ts b) e}"
proof -
  obtain rs where rs: "rows = Rows (map Inr rs) None" "es = map event_of_row rs"
    using assms(3) by (auto simp: scanEvents_Inr)
  note sel = select_overlapping [OF assms(2) [unfolded rs(1)]]
  have set_es: "set es = {e \<in> ran (calendar_of_table (tab d)). in_range u (ts a) (ts b) e}"
    unfolding rs(2) set_map conjunct2 [OF conjunct2 [OF sel]]
    by (rule overlapping_rows)
  moreover have "distinct es"
    using sel by (auto simp: rs(2) distinct_map inj_on_def)
  moreover have "sorted (map (instant \<circ> StartAt) es)"
    using sel by (simp add: rs(2) event_of_row_def comp_def)
  moreover have "set es \<subseteq> ran (calendar_of_table (tab d))" "\<forall>e \<in> set es. UserID e = u"
    by (auto simp: set_es in_range_def)
  ultimately show ?thesis
    using sorted_starts_list_key [OF assms(1), of es u] by blast
qed

lemma sql_list_contract:
  assumes "ctx_law c" "sql_inv tab sd"
  shows "list_post ts (sql_calendar tab sd) u a b (SqlListEvents drv c u a b sd)"
proof -
  obtain s d where sd: "sd = (s, d)" by (cases sd)
  have ok: "consistent (calendar_of_table (tab d))" using assms(2) by (simp add: sd sql_abs)
  have fail: "errors_is e ErrInvalidEvent \<Longrightarrow> \<not> driver_error e" for e
    using driver_error_not_sentinel(1) by auto
  show ?thesis
    using sql_select_overlapping [OF ok, of c u a b _ "''list events''"]
      sql_rows_error [OF assms(1), of _ d _ "''list events''"] query_fail [OF assms(1), of _ d] fail
    by (fastforce simp: sd SqlListEvents_def database_def list_post_def valid_query_def sql_abs
        split: option.splits sum.splits)
qed

end

sublocale postgres \<subseteq> sql: event_storage "SqlCreateEvent drv" "SqlUpdateEvent drv" "SqlDeleteEvent drv"
  "SqlListEvents drv" "sql_calendar tab" "sql_inv tab" ts
proof unfold_locales
qed (auto simp: sql_inv_def dest: sql_create_contract sql_update_contract sql_delete_contract
    intro: post_ok sql_list_contract [unfolded sql_inv_def])

text \<open>The event a caller holds is still what the table has under its identifier, and no notification was recorded for it.\<close>

definition unsent_snapshot :: "(Time \<Rightarrow> Time) \<Rightarrow> event_table \<Rightarrow> Event \<Rightarrow> event_row \<Rightarrow> bool" where
  "unsent_snapshot ts t ev q \<longleftrightarrow> t (ID ev) = Some (q, None) \<and> c_id q = ID ev \<and> c_title q = Title ev
     \<and> TimeEqual (c_start_at q) (ts (StartAt ev)) \<and> c_user_id q = UserID ev \<and> c_notify_before_ns q = NotifyBefore ev"

context postgres
begin

lemma mark_contract:
  assumes "ctx_law c" "MarkNotificationSent drv c ev w (s, d) = (r, s', d')"
  shows "s' = s \<and>
    (case r of
       Inl e \<Rightarrow> tab d' = tab d \<or>
         valid_event ev \<and> (\<exists>q. unsent_snapshot ts (tab d) ev q \<and> tab d' = (tab d)(ID ev \<mapsto> (q, Some (ts w))))
     | Inr marked \<Rightarrow>
         valid_event ev \<and>
         (if marked
          then \<exists>q. unsent_snapshot ts (tab d) ev q \<and> tab d' = (tab d)(ID ev \<mapsto> (q, Some (ts w)))
          else (\<nexists>q. unsent_snapshot ts (tab d) ev q) \<and> tab d' = tab d))"
proof -
  let ?st = "SetNotificationSent (ID ev) (Title ev) (StartAt ev) (UserID ev) (NotifyBefore ev) w"
  obtain x e' where x: "ExecContext drv c ?st d = (x, e')" by fastforce
  show ?thesis
  proof (cases x)
    case (Inl e)
    with x have x: "ExecContext drv c ?st d = (Inl e, e')" by simp
    show ?thesis
      using assms(2) exec_fail [OF assms(1) x]
      by (auto simp: x MarkNotificationSent_def database_def ValidateEvent_cases mark_matches_def unsent_snapshot_def
          split: option.splits if_splits)
  next
    case (Inr n)
    with x exec_ok obtain k where x: "ExecContext drv c ?st d = (Inr (Inr k), e')" by blast
    show ?thesis
      using assms(2) exec_ok [OF x]
      by (auto simp: x MarkNotificationSent_def database_def ValidateEvent_cases mark_matches_def unsent_snapshot_def
          split: option.splits if_splits)
  qed
qed

lemma mark_accepts:
  assumes "valid_event ev" "\<not> IsZero w" "db s \<noteq> None" "ExecContext drv c
      (SetNotificationSent (ID ev) (Title ev) (StartAt ev) (UserID ev) (NotifyBefore ev) w) d = (Inr n, d')"
    and "unsent_snapshot ts (tab d) ev q"
  shows "MarkNotificationSent drv c ev w (s, d) = (Inr True, s, d') \<and> tab d' = (tab d)(ID ev \<mapsto> (q, Some (ts w)))"
  using exec_ok [OF assms(4)] assms
  by (auto simp: MarkNotificationSent_def database_def ValidateEvent_cases mark_matches_def unsent_snapshot_def
      split: option.splits)

lemma purge_contract:
  assumes "ctx_law c" "DeleteEventsBefore drv c cutoff (s, d) = (r, s', d')"
  shows "s' = s \<and> (tab d' = purged (tab d) (ts cutoff) \<or> r \<noteq> None \<and> tab d' = tab d)"
proof -
  obtain x e' where x: "ExecContext drv c (DeleteEventsStartedBefore cutoff) d = (x, e')" by fastforce
  show ?thesis
    using assms(2) exec_effect [OF assms(1) x] exec_ok [of c "DeleteEventsStartedBefore cutoff" d]
    by (auto simp: x DeleteEventsBefore_def database_def split: option.splits if_splits sum.splits)
qed

lemma save_contract:
  assumes "ctx_law c" "SaveNotification drv c v (s, d) = (r, s', d')"
  shows "s' = s \<and> tab d' = tab d \<and>
    (ValidateNotification v = None \<and> saved d' = (saved d)(n_EventID v \<mapsto> v\<lparr>n_EventAt := ts (n_EventAt v)\<rparr>) \<or>
     r \<noteq> None \<and> saved d' = saved d)"
proof -
  obtain x e' where x: "ExecContext drv c (UpsertNotification v) d = (x, e')" by fastforce
  show ?thesis
    using assms(2) exec_effect [OF assms(1) x] exec_ok [of c "UpsertNotification v" d]
    by (auto simp: x SaveNotification_def database_def split: option.splits if_splits sum.splits)
qed

lemma due_contract:
  assumes "ListEventsForNotification drv c now limit (s, d) = Inr es"
  shows "\<not> IsZero now \<and> 0 < limit \<and> distinct es \<and> int (length es) \<le> limit \<and>
    sorted (map (instant \<circ> StartAt) es) \<and>
    set es \<subseteq> event_of_row ` pending_rows due (tab d) (ts now) \<and>
    (int (length es) < limit \<longrightarrow> set es = event_of_row ` pending_rows due (tab d) (ts now))"
proof -
  from assms obtain rows where ok: "\<not> IsZero now" "0 < limit"
      and q: "QueryContext drv c (SelectDue now limit) d = Inr rows" "scanEvents rows ''list events for notification'' = Inr es"
    by (auto simp: ListEventsForNotification_def database_def split: if_splits option.splits sum.splits)
  then obtain rs where rs: "rows = Rows (map Inr rs) None" "es = map event_of_row rs"
    by (auto simp: scanEvents_Inr)
  have "instant \<circ> StartAt \<circ> event_of_row = instant \<circ> c_start_at"
    by (simp add: event_of_row_def comp_def)
  then show ?thesis
    using select_due [OF q(1) [unfolded rs(1)]] ok
    by (auto simp: rs(2) distinct_map inj_on_def)
qed

end

subsection \<open>The API never marks an event\<close>

text \<open>A mark that is there after a call was there before, on the same row: an insertion starts without a mark, an update resets it.\<close>

definition marks_from :: "event_table \<Rightarrow> event_table \<Rightarrow> bool" where
  "marks_from t t' \<longleftrightarrow> (\<forall>i r s. t' i = Some (r, Some s) \<longrightarrow> t i = Some (r, Some s))"

lemma marks_from_refl: "marks_from t t"
  by (simp add: marks_from_def)

lemma marks_from_trans: "marks_from t t' \<Longrightarrow> marks_from t' t'' \<Longrightarrow> marks_from t t''"
  unfolding marks_from_def by blast

lemma api_statements_mark_nothing:
  "marks_from t (events_after ts (InsertEvent r) t)" "marks_from t (events_after ts (UpdateEventRow r) t)"
  "marks_from t (events_after ts (DeleteEventRow i) t)"
  by (auto simp: marks_from_def split: if_splits)

context postgres
begin

lemma api_marks_nothing:
  assumes "ctx_law c"
  shows "SqlCreateEvent drv c ev sd = (r, sd') \<Longrightarrow> marks_from (tab (snd sd)) (tab (snd sd'))"
    "SqlUpdateEvent drv c ev sd = (r, sd') \<Longrightarrow> marks_from (tab (snd sd)) (tab (snd sd'))"
    "SqlDeleteEvent drv c i sd = (r, sd') \<Longrightarrow> marks_from (tab (snd sd)) (tab (snd sd'))"
proof -
  have step: "marks_from (tab d) (tab d')"
    if "ExecContext drv c st d = (x, d')" "marks_from (tab d) (events_after ts st (tab d))" for st d x d'
    using exec_effect [OF assms that(1)] that(2) by (auto simp: marks_from_refl)
  show "SqlCreateEvent drv c ev sd = (r, sd') \<Longrightarrow> marks_from (tab (snd sd)) (tab (snd sd'))"
    using step [OF _ api_statements_mark_nothing(1)]
    by (auto simp: SqlCreateEvent_def marks_from_refl split: prod.splits option.splits sum.splits)
  show "SqlUpdateEvent drv c ev sd = (r, sd') \<Longrightarrow> marks_from (tab (snd sd)) (tab (snd sd'))"
    using step [OF _ api_statements_mark_nothing(2)]
    by (auto simp: SqlUpdateEvent_def marks_from_refl split: prod.splits option.splits sum.splits)
  show "SqlDeleteEvent drv c i sd = (r, sd') \<Longrightarrow> marks_from (tab (snd sd)) (tab (snd sd'))"
    using step [OF _ api_statements_mark_nothing(3)]
    by (auto simp: SqlDeleteEvent_def marks_from_refl split: prod.splits option.splits sum.splits if_splits)
qed

end

subsection \<open>Reference databases\<close>

text \<open>
  Tables as lists, timestamps rounded to microseconds and read back in UTC, every constraint of the migrations
  checked. It shows that the laws of \<open>postgres\<close> can be met, and the witnesses run on it. A second driver executes the same
  statements and loses every answer.
\<close>

record pg =
  ev_rows :: "(string \<times> event_row \<times> Time option) list"
  nt_rows :: "(string \<times> Notification) list"

definition pg_round :: "int \<Rightarrow> int" where
  "pg_round n = (n + 500) div 1000 * 1000"

definition pg_ts :: "Time \<Rightarrow> Time" where
  "pg_ts t = \<lparr>instant = pg_round (instant t), zone = UTC\<rparr>"

definition pg_due :: "Time \<Rightarrow> event_row \<Rightarrow> bool" where
  "pg_due now r \<longleftrightarrow> instant now < instant (c_start_at r)
     \<and> instant (c_start_at r) \<le> instant now + pg_round (c_notify_before_ns r)"

definition pg_error :: "string \<Rightarrow> error" where
  "pg_error code = Err (PqError code)"

definition pg_busy :: "(string \<times> event_row \<times> Time option) list \<Rightarrow> event_row \<Rightarrow> bool" where
  "pg_busy rows r \<longleftrightarrow> list_ex (\<lambda>(i, q, s). row_clash q r) (AList.clearjunk rows)"

fun pg_statement :: "sql_exec \<Rightarrow> pg \<Rightarrow> (error + (error + int)) \<times> pg" where
  "pg_statement (InsertEvent r) d =
     (let r = ts_row pg_ts r in
      if \<not> row_checks r then (Inl (pg_error ''23514''), d)
      else if map_of (ev_rows d) (c_id r) \<noteq> None then (Inl (pg_error ''23505''), d)
      else if pg_busy (ev_rows d) r then (Inl (pg_error ''23P01''), d)
      else (Inr (Inr 1), d\<lparr>ev_rows := AList.update (c_id r) (r, None) (ev_rows d)\<rparr>))"
| "pg_statement (UpdateEventRow r) d =
     (let r = ts_row pg_ts r in
      if map_of (ev_rows d) (c_id r) = None then (Inr (Inr 0), d)
      else if \<not> row_checks r then (Inl (pg_error ''23514''), d)
      else if pg_busy (AList.delete (c_id r) (ev_rows d)) r then (Inl (pg_error ''23P01''), d)
      else (Inr (Inr 1), d\<lparr>ev_rows := AList.update (c_id r) (r, None) (ev_rows d)\<rparr>))"
| "pg_statement (DeleteEventRow i) d =
     (Inr (Inr (if map_of (ev_rows d) i = None then 0 else 1)), d\<lparr>ev_rows := AList.delete i (ev_rows d)\<rparr>)"
| "pg_statement (SetNotificationSent i title a u n w) d =
     (case map_of (ev_rows d) i of
        None \<Rightarrow> (Inr (Inr 0), d)
      | Some (r, s) \<Rightarrow>
          if mark_matches pg_ts (SetNotificationSent i title a u n w) (r, s)
          then (Inr (Inr 1), d\<lparr>ev_rows := AList.update i (r, Some (pg_ts w)) (ev_rows d)\<rparr>)
          else (Inr (Inr 0), d))"
| "pg_statement (DeleteEventsStartedBefore cutoff) d =
     (let gone = \<lambda>(i, r, s). Before (c_start_at r) (pg_ts cutoff); rows = AList.clearjunk (ev_rows d)
      in (Inr (Inr (int (length (filter gone rows)))), d\<lparr>ev_rows := filter (\<lambda>x. \<not> gone x) rows\<rparr>))"
| "pg_statement (UpsertNotification v) d =
     (if \<not> note_checks v then (Inl (pg_error ''23514''), d)
      else (Inr (Inr 1), d\<lparr>nt_rows := AList.update (n_EventID v) (v\<lparr>n_EventAt := pg_ts (n_EventAt v)\<rparr>) (nt_rows d)\<rparr>))"

definition pg_select :: "(event_row \<times> Time option \<Rightarrow> bool) \<Rightarrow> pg \<Rightarrow> event_row list" where
  "pg_select p d = sort_key (\<lambda>r. (instant (c_start_at r), c_id r))
     (remdups (map fst (filter p (map snd (AList.clearjunk (ev_rows d))))))"

fun pg_rows :: "sql_query \<Rightarrow> pg \<Rightarrow> event_row list" where
  "pg_rows (SelectOverlapping u a b) d =
     pg_select (\<lambda>(r, s). c_user_id r = u \<and> Before (c_start_at r) (pg_ts b) \<and> After (c_end_at r) (pg_ts a)) d"
| "pg_rows (SelectDue now limit) d =
     take (nat limit) (pg_select (\<lambda>(r, s). 0 < c_notify_before_ns r \<and> s = None \<and> pg_due (pg_ts now) r) d)"

definition pg_driver :: "pg driver" where
  "pg_driver = \<lparr>
     ExecContext = \<lambda>c st d. case c 0 of Some e \<Rightarrow> (Inl e, d) | None \<Rightarrow> pg_statement st d,
     QueryContext = \<lambda>c q d. case c 0 of Some e \<Rightarrow> Inl e | None \<Rightarrow> Inr (Rows (map Inr (pg_rows q d)) None)\<rparr>"

definition pg_tab :: "pg \<Rightarrow> event_table" where
  "pg_tab d = map_of (ev_rows d)"

lemma set_clearjunk: "(i, v) \<in> set (AList.clearjunk xs) \<longleftrightarrow> map_of xs i = Some v"
  by (metis distinct_clearjunk map_of_clearjunk map_of_eq_Some_iff)

lemma pg_busy_iff: "pg_busy rows r \<longleftrightarrow> row_busy (map_of rows) r None"
  by (auto simp: pg_busy_def row_busy_def list_ex_iff set_clearjunk split_beta) (metis set_clearjunk fst_conv snd_conv)+

lemma row_busy_delete: "row_busy (t(i := None)) r None \<longleftrightarrow> row_busy t r (Some i)"
  by (auto simp: row_busy_def)

lemma set_pg_select: "set (pg_select p d) = {r. \<exists>i s. pg_tab d i = Some (r, s) \<and> p (r, s)}"
  by (force simp: pg_select_def pg_tab_def set_clearjunk [symmetric])

lemma distinct_pg_select: "distinct (pg_select p d)"
  by (simp add: pg_select_def)

lemma sorted_pg_select: "sorted (map (instant \<circ> c_start_at) (pg_select p d))"
proof -
  have "sorted (map (\<lambda>r. (instant (c_start_at r), c_id r)) (pg_select p d))"
    by (simp add: pg_select_def)
  then show ?thesis
    unfolding sorted_map by (rule sorted_wrt_mono_rel [rotated]) (auto simp: less_eq_prod_def)
qed

lemma pg_exec_cases:
  "ExecContext pg_driver c st d = (case c 0 of Some e \<Rightarrow> (Inl e, d) | None \<Rightarrow> pg_statement st d)"
  "QueryContext pg_driver c q d = (case c 0 of Some e \<Rightarrow> Inl e | None \<Rightarrow> Inr (Rows (map Inr (pg_rows q d)) None))"
  by (simp_all add: pg_driver_def)

lemma pg_statement_error:
  "pg_statement st d = (Inl e, d') \<Longrightarrow> d' = d \<and> (\<exists>code. e = Err (PqError code))"
  by (cases "(st, d)" rule: pg_statement.cases)
    (auto simp: Let_def pg_error_def split: if_splits option.splits)

lemma map_of_purge:
  "map_of (filter (\<lambda>x. \<not> (case x of (i, r, s) \<Rightarrow> Before (c_start_at r) c)) (AList.clearjunk rows)) =
   purged (map_of rows) c"
proof
  fix i
  let ?ys = "filter (\<lambda>x. \<not> (case x of (i, r, s) \<Rightarrow> Before (c_start_at r) c)) (AList.clearjunk rows)"
  have "distinct (map fst ?ys)" by (simp add: distinct_map_filter distinct_clearjunk)
  then have "map_of ?ys i = Some v \<longleftrightarrow> purged (map_of rows) c i = Some v" for v
    by (cases v) (auto simp: set_clearjunk purged_def split: option.splits)
  then show "map_of ?ys i = purged (map_of rows) c i"
    by (metis not_Some_eq)
qed

lemma ctx_law_error: "ctx_law c \<Longrightarrow> c n = Some e \<Longrightarrow> driver_error e \<and> pq_code e = None"
  unfolding ctx_law_def driver_error_def by fastforce

lemma pg_take:
  "int (length (take (nat n) xs)) \<le> max 0 n" "set (take (nat n) xs) \<subseteq> set xs"
  "int (length (take (nat n) xs)) < n \<Longrightarrow> set (take (nat n) xs) = set xs"
  by (auto simp: min_def dest: in_set_takeD split: if_splits)

lemmas pg_simps = pg_exec_cases Let_def pg_tab_def pg_busy_iff update_conv' delete_conv' map_of_purge
  row_busy_delete pg_error_def

lemma pg_insert_codes:
  assumes "ctx_law c" "ExecContext pg_driver c (InsertEvent r) d = (Inl e, d')"
  shows "(pq_code e = Some ''23505'' \<longrightarrow> c_id r \<in> dom (pg_tab d)) \<and>
      (pq_code e = Some ''23P01'' \<longrightarrow> row_busy (pg_tab d) (ts_row pg_ts r) None) \<and>
      (pq_code e = Some ''23514'' \<longrightarrow> \<not> row_checks (ts_row pg_ts r))"
  using assms ctx_law_error [OF assms(1)] by (auto simp: pg_simps split: option.splits if_splits)

lemma pg_update_codes:
  assumes "ctx_law c" "ExecContext pg_driver c (UpdateEventRow r) d = (Inl e, d')"
  shows "pq_code e \<noteq> Some ''23505'' \<and>
      (pq_code e = Some ''23P01'' \<longrightarrow> row_busy (pg_tab d) (ts_row pg_ts r) (Some (c_id r))) \<and>
      (pq_code e = Some ''23514'' \<longrightarrow> \<not> row_checks (ts_row pg_ts r))"
  using assms ctx_law_error [OF assms(1)] by (auto simp: pg_simps split: option.splits if_splits)

lemma pg_statement_ok:
  assumes "pg_statement st d = (Inr n, d')"
  shows "permitted pg_ts st (pg_tab d) \<and> pg_tab d' = events_after pg_ts st (pg_tab d) \<and>
    map_of (nt_rows d') = notes_after pg_ts st (map_of (nt_rows d)) \<and> (\<exists>k. n = Inr k \<and> rows_affected pg_ts st (pg_tab d) k)"
  using assms
  by (cases "(st, d)" rule: pg_statement.cases)
    (auto simp: pg_simps domIff split: option.splits if_splits)

lemma pg_select_due:
  assumes "QueryContext pg_driver c (SelectDue now limit) d = Inr (Rows (map Inr rs) None)"
  shows "distinct rs \<and> sorted (map (instant \<circ> c_start_at) rs) \<and> int (length rs) \<le> max 0 limit \<and>
      set rs \<subseteq> pending_rows pg_due (pg_tab d) (pg_ts now) \<and>
      (int (length rs) < limit \<longrightarrow> set rs = pending_rows pg_due (pg_tab d) (pg_ts now))"
proof -
  let ?q = "pg_select (\<lambda>(r, s). 0 < c_notify_before_ns r \<and> s = None \<and> pg_due (pg_ts now) r) d"
  have rs: "rs = take (nat limit) ?q"
    using assms by (auto simp: pg_exec_cases inj_map_eq_map split: option.splits)
  have "set ?q = pending_rows pg_due (pg_tab d) (pg_ts now)"
    by (auto simp: set_pg_select pending_rows_def)
  then show ?thesis
    using pg_take [of limit ?q]
    by (auto simp: rs distinct_pg_select sorted_pg_select take_map [symmetric] sorted_wrt_take)
qed

interpretation pg: postgres pg_driver pg_tab "\<lambda>d. map_of (nt_rows d)" pg_ts pg_due
proof (unfold_locales, goal_cases)
  case (1 c st d e d')
  then show ?case
    using ctx_law_error [OF 1(1)]
    by (auto simp: pg_exec_cases split: option.splits dest!: pg_statement_error simp: driver_error_def)
next
  case (2 c st d n d')
  then show ?case using pg_statement_ok by (simp add: pg_exec_cases split: option.splits)
next
  case 3 then show ?case by (rule pg_insert_codes)
next
  case 4 then show ?case by (rule pg_update_codes)
next
  case 5 then show ?case by (auto simp: pg_exec_cases split: option.splits dest: ctx_law_error)
next
  case (6 c q d res oe)
  then show ?case by (auto simp: pg_exec_cases split: option.splits)
next
  case (7 c u a b d rs)
  then have "rs = pg_rows (SelectOverlapping u a b) d"
    by (auto simp: pg_exec_cases inj_map_eq_map split: option.splits)
  then show ?case
    by (simp only: pg_rows.simps set_pg_select distinct_pg_select sorted_pg_select) auto
next
  case 8 then show ?case by (rule pg_select_due)
qed

text \<open>The connection breaks after every statement that was executed.\<close>

definition lost_driver :: "pg driver" where
  "lost_driver = pg_driver\<lparr>ExecContext := (\<lambda>c st d. case ExecContext pg_driver c st d of
     (Inr n, d') \<Rightarrow> (Inl (Err (LibError ''unexpected EOF'')), d') | (Inl e, d') \<Rightarrow> (Inl e, d'))\<rparr>"

lemma lost_exec:
  assumes "ExecContext lost_driver c st d = (x, d')"
  shows "x = Inl (Err (LibError ''unexpected EOF'')) \<and> (\<exists>n. ExecContext pg_driver c st d = (Inr n, d')) \<or>
    (\<exists>e. x = Inl e \<and> ExecContext pg_driver c st d = (Inl e, d'))"
  using assms by (auto simp: lost_driver_def split: prod.splits sum.splits)

interpretation lost: postgres lost_driver pg_tab "\<lambda>d. map_of (nt_rows d)" pg_ts pg_due
proof (unfold_locales, goal_cases)
  case (1 c st d e d')
  then show ?case using lost_exec [OF 1(2)] pg.exec_fail [OF 1(1), of st d] pg.exec_ok [of c st d]
    by (auto simp: driver_error_def constraint_error_def)
next
  case (3 c r d e d')
  then show ?case using lost_exec [OF 3(2)] pg.insert_codes [OF 3(1), of r d] by auto
next
  case (4 c r d e d')
  then show ?case using lost_exec [OF 4(2)] pg.update_codes [OF 4(1), of r d] by auto
next
  case (2 c st d n d')
  then show ?case using lost_exec [OF 2] by auto
qed (use pg.query_fail pg.rows_fail pg.select_overlapping pg.select_due in \<open>simp_all add: lost_driver_def\<close>)

lemma pg_ts_law: "ts_law pg_ts"
  by (simp add: ts_law_def TimeEqual_def pg_ts_def)

lemma pg_due_law: "due_law pg_due"
proof -
  have "pg_round (k * second) = k * second" for k
    by (simp add: pg_round_def second_def)
  then show ?thesis by (simp add: due_law_def pg_due_def)
qed

subsection \<open>Properties\<close>

text \<open>
  C17: On a PostgreSQL that enforces the constraints of the migrations, \<open>CreateEvent\<close>, \<open>UpdateEvent\<close> and
  \<open>DeleteEvent\<close> of the SQL storage keep every contract of the storage interface for every event and every answer. A calendar
  without double bookings stays one; a success has changed exactly the addressed event, whose times are kept as the column
  rounds them; the error codes are mapped to a sentinel only when that sentinel is true of the calendar, and such an answer has
  changed nothing. An error without a sentinel leaves open whether the statement was executed, but only as a whole.
\<close>

theorem sql_operations_contract:
  assumes "postgres drv tab saved ts due" "ctx_law c" "sql_inv tab sd"
    and "SqlCreateEvent drv c ev sd = (r1, sd1)" "SqlUpdateEvent drv c ev sd = (r2, sd2)"
      "SqlDeleteEvent drv c i sd = (r3, sd3)"
  shows "create_post ts (sql_calendar tab sd) ev r1 (sql_calendar tab sd1) \<and> sql_inv tab sd1 \<and>
    update_post ts (sql_calendar tab sd) ev r2 (sql_calendar tab sd2) \<and> sql_inv tab sd2 \<and>
    delete_post (sql_calendar tab sd) i r3 (sql_calendar tab sd3) \<and> sql_inv tab sd3"
  using postgres.sql_create_contract [OF assms(1,2,4)] postgres.sql_update_contract [OF assms(1,2,5)]
    postgres.sql_delete_contract [OF assms(1,2,6)] assms(3)
  by (auto simp: sql_inv_def intro: post_ok)

definition connected :: "unit SqlStorage" where
  "connected = \<lparr>dsn = ''dsn'', db = Some ()\<rparr>"

definition at_minute :: "int \<Rightarrow> Time" where
  "at_minute n = \<lparr>instant = (63900000000 + 60 * n) * second, zone = UTC\<rparr>"

definition standup :: Event where
  "standup = \<lparr>ID = ''a'', Title = ''standup'', StartAt = at_minute 30, EndAt = at_minute 60,
     Description = '''', UserID = ''u'', NotifyBefore = 15 * 60 * second\<rparr>"

definition review :: Event where
  "review = \<lparr>ID = ''b'', Title = ''review'', StartAt = at_minute 45, EndAt = at_minute 90,
     Description = '''', UserID = ''u'', NotifyBefore = 0\<rparr>"

definition pg_one :: pg where
  "pg_one = \<lparr>ev_rows = [(''a'', row_of standup, None)], nt_rows = []\<rparr>"

text \<open>
  The overlapping event is refused with the reason and changes nothing; the deletion over a connection that breaks reports an
  error, and the event is gone.
\<close>

theorem sql_operations_contract_witness:
  "SqlCreateEvent lost_driver live review (connected, pg_one)
     = (Some (Wrap [Lit ''create event''] (Err ErrDateBusy)), connected, pg_one) \<and>
   busy (sql_calendar pg_tab (connected, pg_one)) (kept_as pg_ts review) None \<and>
   (\<exists>e sd. SqlDeleteEvent lost_driver live ''a'' (connected, pg_one) = (Some e, sd) \<and> sql_inv pg_tab sd \<and>
      sql_calendar pg_tab sd = (sql_calendar pg_tab (connected, pg_one))(''a'' := None))"
proof -
  have r: "SqlCreateEvent lost_driver live review (connected, pg_one)
     = (Some (Wrap [Lit ''create event''] (Err ErrDateBusy)), connected, pg_one)"
    by code_simp
  let ?gone = "\<lparr>ev_rows = [], nt_rows = []\<rparr>"
  have del: "SqlDeleteEvent lost_driver live ''a'' (connected, pg_one)
     = (Some (Wrap [Lit ''delete event''] (Err (LibError ''unexpected EOF''))), connected, ?gone)"
    by code_simp
  have inv: "sql_inv pg_tab (connected, pg_one)"
  proof -
    have "proper_event standup" by code_simp
    then show ?thesis
      by (auto simp: sql_inv_def sql_calendar_def pg_one_def pg_tab_def calendar_of_table_def consistent_def
        event_of_row_def row_of_def standup_def)
  qed
  have "sql_calendar pg_tab (connected, ?gone) = (sql_calendar pg_tab (connected, pg_one))(''a'' := None)"
    by (auto simp: sql_calendar_def pg_tab_def pg_one_def calendar_of_table_def fun_eq_iff)
  then show ?thesis
    using sql_operations_contract [OF lost.postgres_axioms ctx_law_live inv r prod.collapse [symmetric] del] r del
    by (simp add: create_post_def)
qed

text \<open>
  \<open>MarkNotificationSent\<close> records a broker acknowledgement exactly when the event that was published is still
  the unsent one in the table: it answers true if and only if the row has the same identifier, title, start, user and notice
  and was not marked; it then changes that row's mark only. When it answers false nothing changed, and when it fails at
  most that mark was set.
\<close>

theorem mark_sent_only_unchanged_snapshot:
  assumes "postgres drv tab saved ts due" "ctx_law c"
    and "MarkNotificationSent drv c ev w (s, d) = (r, s', d')"
  shows "(case r of
      Inl e \<Rightarrow> tab d' = tab d \<or> (\<exists>q. unsent_snapshot ts (tab d) ev q \<and> tab d' = (tab d)(ID ev \<mapsto> (q, Some (ts w))))
    | Inr marked \<Rightarrow>
        (marked \<longleftrightarrow> (\<exists>q. unsent_snapshot ts (tab d) ev q)) \<and>
        (if marked then \<exists>q. tab d (ID ev) = Some (q, None) \<and> tab d' = (tab d)(ID ev \<mapsto> (q, Some (ts w)))
         else tab d' = tab d))"
  using postgres.mark_contract [OF assms]
  by (auto simp: unsent_snapshot_def split: sum.splits if_splits)

theorem mark_sent_only_unchanged_snapshot_witness:
  "\<exists>d'. MarkNotificationSent pg_driver live standup (at_minute 20) (connected, pg_one) = (Inr True, connected, d') \<and>
     (\<exists>q. unsent_snapshot pg_ts (pg_tab pg_one) standup q)"
proof -
  let ?d = "snd (snd (MarkNotificationSent pg_driver live standup (at_minute 20) (connected, pg_one)))"
  have r: "MarkNotificationSent pg_driver live standup (at_minute 20) (connected, pg_one) = (Inr True, connected, ?d)"
    by code_simp
  from mark_sent_only_unchanged_snapshot [OF pg.postgres_axioms ctx_law_live this] r
  show ?thesis by auto
qed

text \<open>
  \<open>SaveNotification\<close> is idempotent, so a message the broker delivers again does no harm: once a
  notification was saved, saving it again (whatever the answer) leaves the table of notifications as it is, and the
  events are never touched.
\<close>

theorem save_notification_idempotent:
  assumes "postgres drv tab saved ts due" "ctx_law c" "ctx_law c'"
    and "SaveNotification drv c v (s, d) = (None, s1, d1)" "SaveNotification drv c' v (s1, d1) = (r, s2, d2)"
  shows "saved d2 = saved d1 \<and> saved d1 (n_EventID v) = Some (v\<lparr>n_EventAt := ts (n_EventAt v)\<rparr>)
    \<and> tab d1 = tab d \<and> tab d2 = tab d"
  using postgres.save_contract [OF assms(1,2,4)] postgres.save_contract [OF assms(1,3,5)]
  by (auto simp: fun_upd_idem)

theorem save_notification_idempotent_witness:
  "let v = notification_of standup; x = SaveNotification pg_driver live v (connected, pg_one);
       y = SaveNotification pg_driver live v (snd x)
   in fst x = None \<and> map_of (nt_rows (snd (snd y))) = map_of (nt_rows (snd (snd x)))"
proof -
  let ?v = "notification_of standup"
  let ?x = "SaveNotification pg_driver live ?v (connected, pg_one)"
  have x: "?x = (None, fst (snd ?x), snd (snd ?x))" by code_simp
  show ?thesis
    using save_notification_idempotent [OF pg.postgres_axioms ctx_law_live ctx_law_live x,
        of "fst (SaveNotification pg_driver live ?v (snd ?x))"] x
    by (simp add: Let_def) (metis fst_conv prod.collapse)
qed

end
