(* ===== verification/Notification_Scheduler.thy ===== *)
theory Notification_Scheduler
  imports Sql_Storage
begin

text \<open>
  The scheduler of \<open>internal/scheduler/scheduler.go\<close>: one cycle removes expired events, publishes a message for
  every due event and marks the event once the broker has acknowledged.

  The interfaces the scheduler is built from (\<open>Storage\<close>, \<open>Producer\<close>, \<open>Logger\<close>, \<open>Metrics\<close>), the clock, the
  context and the ticker are operations on a world \<open>'w\<close>, which holds the database, the broker and everything other
  processes do between two calls. \<open>json.Marshal\<close> is the field \<open>Marshal\<close>. The loop of \<open>RunOnce\<close> goes on as long as
  full batches or stale snapshots arrive, so it is a partial function: \<open>None\<close> means that it never returns.
\<close>

subsection \<open>The interfaces\<close>

datatype wakeup = CtxDone | Tick

record 'w sched_env =
  CtxErr :: "'w \<Rightarrow> error option \<times> 'w"
  Delete_before :: "Time \<Rightarrow> 'w \<Rightarrow> error option \<times> 'w"
  List_due :: "Time \<Rightarrow> int \<Rightarrow> 'w \<Rightarrow> (error + Event list) \<times> 'w"
  Mark_sent :: "Event \<Rightarrow> Time \<Rightarrow> 'w \<Rightarrow> (error + bool) \<times> 'w"
  Send :: "string \<Rightarrow> string \<Rightarrow> 'w \<Rightarrow> error option \<times> 'w"
  Marshal :: "Notification \<Rightarrow> error + string"
  LogError :: "message \<Rightarrow> error \<Rightarrow> 'w \<Rightarrow> 'w"
  SetSchedulerRunning :: "bool \<Rightarrow> 'w \<Rightarrow> 'w"
  ObserveSchedulerCycle :: "bool \<Rightarrow> Time \<Rightarrow> int \<Rightarrow> 'w \<Rightarrow> 'w"
  ObserveNotificationPublished :: "bool \<Rightarrow> 'w \<Rightarrow> 'w"
  Now :: "'w \<Rightarrow> Time \<times> 'w"
  Wakeup :: "'w \<Rightarrow> wakeup \<times> 'w"

subsection \<open>Configuration\<close>

record SchedConfig =
  Interval :: int
  BatchSize :: int
  RetentionYears :: int

definition SchedConfig_Validate :: "SchedConfig \<Rightarrow> error option" where
  "SchedConfig_Validate c =
     (if Interval c \<le> 0 then Some (Wrap [Lit '': interval must be positive''] (Err ErrInvalidConfig))
      else if BatchSize c \<le> 0 then Some (Wrap [Lit '': batch size must be positive''] (Err ErrInvalidConfig))
      else if RetentionYears c \<le> 0 then Some (Wrap [Lit '': retention years must be positive''] (Err ErrInvalidConfig))
      else None)"

text \<open>
  \<open>New\<close> is given the storage, the producer and the logger, each possibly \<open>nil\<close>, and optional metrics; the
  scheduler that results is its configuration and the chosen metrics (\<open>None\<close>: \<open>noopMetrics\<close>).
\<close>

definition firstMetrics :: "'m option list \<Rightarrow> 'm option" where
  "firstMetrics values = (case values of [] \<Rightarrow> None | None # _ \<Rightarrow> None | Some v # _ \<Rightarrow> Some v)"

record ('s, 'p, 'l, 'm) Scheduler =
  sch_storage :: 's
  sch_producer :: 'p
  sch_logger :: 'l
  sch_config :: SchedConfig
  sch_metrics :: "'m option"

definition NewScheduler ::
  "'s option \<Rightarrow> 'p option \<Rightarrow> 'l option \<Rightarrow> SchedConfig \<Rightarrow> 'm option list \<Rightarrow> error + ('s, 'p, 'l, 'm) Scheduler" where
  "NewScheduler storageClient producer logger config metrics =
     (case storageClient of None \<Rightarrow> Inl (Err (Errorf [Lit ''scheduler storage is nil''])) | Some st \<Rightarrow>
      case producer of None \<Rightarrow> Inl (Err (Errorf [Lit ''scheduler producer is nil''])) | Some pr \<Rightarrow>
      case logger of None \<Rightarrow> Inl (Err (Errorf [Lit ''scheduler logger is nil''])) | Some lg \<Rightarrow>
      case SchedConfig_Validate config of Some err \<Rightarrow> Inl err | None \<Rightarrow>
        Inr \<lparr>sch_storage = st, sch_producer = pr, sch_logger = lg, sch_config = config,
              sch_metrics = firstMetrics metrics\<rparr>)"

subsection \<open>One cycle\<close>

definition publish :: "'w sched_env \<Rightarrow> Event \<Rightarrow> Time \<Rightarrow> 'w \<Rightarrow> (error + bool) \<times> 'w" where
  "publish env event sentAt w =
     (let msg = \<lparr>n_EventID = ID event, n_Title = Title event, n_EventAt = StartAt event, n_UserID = UserID event\<rparr> in
      case ValidateNotification msg of
        Some err \<Rightarrow>
          (Inl (Wrap [Lit ''build notification for event '', Quoted (ID event)] err),
           ObserveNotificationPublished env False w)
      | None \<Rightarrow>
      (case Marshal env msg of
        Inl err \<Rightarrow>
          (Inl (Wrap [Lit ''serialize notification for event '', Quoted (ID event)] err),
           ObserveNotificationPublished env False w)
      | Inr payload \<Rightarrow>
      (case Send env (ID event) payload w of
        (Some err, w) \<Rightarrow>
          (Inl (Wrap [Lit ''send notification for event '', Quoted (ID event)] err),
           if errors_is err Canceled then w else ObserveNotificationPublished env False w)
      | (None, w) \<Rightarrow>
      (case Mark_sent env event sentAt (ObserveNotificationPublished env True w) of
        (Inl err, w) \<Rightarrow> (Inl (Wrap [Lit ''mark notification sent for event '', Quoted (ID event)] err), w)
      | (Inr marked, w) \<Rightarrow> (Inr marked, w)))))"

text \<open>The loop over a batch; the flag is \<open>staleSnapshot\<close>.\<close>

fun publish_batch :: "'w sched_env \<Rightarrow> Event list \<Rightarrow> Time \<Rightarrow> bool \<Rightarrow> 'w \<Rightarrow> (error + bool) \<times> 'w" where
  "publish_batch env [] now stale w = (Inr stale, w)"
| "publish_batch env (event # events) now stale w =
     (case publish env event now w of
        (Inl err, w) \<Rightarrow> (Inl err, w)
      | (Inr marked, w) \<Rightarrow> publish_batch env events now (stale \<or> \<not> marked) w)"

partial_function (option) notify_loop ::
  "'w sched_env \<Rightarrow> SchedConfig \<Rightarrow> Time \<Rightarrow> 'w \<Rightarrow> (error option \<times> 'w) option" where
  "notify_loop env cfg now w =
     (case CtxErr env w of
        (Some err, w) \<Rightarrow> Some (Some err, w)
      | (None, w) \<Rightarrow>
     (case List_due env now (BatchSize cfg) w of
        (Inl err, w) \<Rightarrow> Some (Some (Wrap [Lit ''list events for notification''] err), w)
      | (Inr events, w) \<Rightarrow>
          if events = [] then Some (None, w)
          else
     (case publish_batch env events now False w of
        (Inl err, w) \<Rightarrow> Some (Some err, w)
      | (Inr stale, w) \<Rightarrow>
          if int (length events) < BatchSize cfg \<and> \<not> stale then Some (None, w)
          else notify_loop env cfg now w)))"

definition cycle_body :: "'w sched_env \<Rightarrow> SchedConfig \<Rightarrow> Time \<Rightarrow> 'w \<Rightarrow> (error option \<times> 'w) option" where
  "cycle_body env cfg now w =
     (case CtxErr env w of
        (Some err, w) \<Rightarrow> Some (Some err, w)
      | (None, w) \<Rightarrow>
     (case Delete_before env (AddDate now (- RetentionYears cfg) 0 0) w of
        (Some err, w) \<Rightarrow> Some (Some (Wrap [Lit ''delete expired events''] err), w)
      | (None, w) \<Rightarrow> notify_loop env cfg now w))"

text \<open>\<open>RunOnce\<close> with its deferred function: a cancelled cycle is not observed.\<close>

definition RunOnce :: "'w sched_env \<Rightarrow> SchedConfig \<Rightarrow> Time \<Rightarrow> 'w \<Rightarrow> (error option \<times> 'w) option" where
  "RunOnce env cfg now w =
     (case Now env w of (startedAt, w) \<Rightarrow>
      map_option (\<lambda>(err, w).
        if (case err of Some e \<Rightarrow> errors_is e Canceled | None \<Rightarrow> False) then (err, w)
        else (case Now env w of (finishedAt, w) \<Rightarrow>
                (err, ObserveSchedulerCycle env (Option.is_none err) finishedAt (TimeSub finishedAt startedAt) w)))
        (cycle_body env cfg now w))"

definition runAndLog :: "'w sched_env \<Rightarrow> SchedConfig \<Rightarrow> Time \<Rightarrow> 'w \<Rightarrow> 'w option" where
  "runAndLog env cfg now w =
     map_option (\<lambda>(err, w).
       case err of
         None \<Rightarrow> w
       | Some e \<Rightarrow>
           (case CtxErr env w of
              (None, w) \<Rightarrow> LogError env [Lit ''scheduler cycle failed: ''] e w
            | (Some _, w) \<Rightarrow> w))
       (RunOnce env cfg now w)"

partial_function (option) run_loop :: "'w sched_env \<Rightarrow> SchedConfig \<Rightarrow> 'w \<Rightarrow> (error option \<times> 'w) option" where
  "run_loop env cfg w =
     (case Wakeup env w of
        (CtxDone, w) \<Rightarrow> Some (None, w)
      | (Tick, w) \<Rightarrow>
          (case Now env w of (t, w) \<Rightarrow>
            Option.bind (runAndLog env cfg t w) (run_loop env cfg)))"

definition RunScheduler :: "'w sched_env \<Rightarrow> SchedConfig \<Rightarrow> 'w \<Rightarrow> (error option \<times> 'w) option" where
  "RunScheduler env cfg w =
     (case Now env (SetSchedulerRunning env True w) of (t, w) \<Rightarrow>
      Option.bind (runAndLog env cfg t w) (\<lambda>w.
        map_option (\<lambda>(err, w). (err, SetSchedulerRunning env False w)) (run_loop env cfg w)))"

declare notify_loop.simps [code] run_loop.simps [code]

subsection \<open>Invariants of the whole service\<close>

text \<open>
  What every call of the environment keeps, and \<open>publish\<close> as a whole, is kept by the scheduler from its start to its end. The
  calls inside \<open>publish\<close> may break it in between. \<open>good\<close> is what is known of the events a listing gives.
\<close>

locale scheduler_invariant =
  fixes env :: "'w sched_env"
    and inv :: "'w \<Rightarrow> bool"
    and good :: "Event \<Rightarrow> bool"
  assumes steps:
      "inv w \<Longrightarrow> CtxErr env w = (e1, w') \<Longrightarrow> inv w'"
      "inv w \<Longrightarrow> Delete_before env t w = (e2, w') \<Longrightarrow> inv w'"
      "inv w \<Longrightarrow> List_due env t k w = (e3, w') \<Longrightarrow> inv w'"
      "inv w \<Longrightarrow> inv (LogError env m e w)"
      "inv w \<Longrightarrow> inv (SetSchedulerRunning env b w)"
      "inv w \<Longrightarrow> inv (ObserveSchedulerCycle env b t d w)"
      "inv w \<Longrightarrow> Now env w = (t, w') \<Longrightarrow> inv w'"
      "inv w \<Longrightarrow> Wakeup env w = (wu, w') \<Longrightarrow> inv w'"
    and list_good: "inv w \<Longrightarrow> List_due env t k w = (Inr es, w') \<Longrightarrow> list_all good es"
    and publish_inv: "inv w \<Longrightarrow> good ev \<Longrightarrow> publish env ev t w = (r, w') \<Longrightarrow> inv w'"
begin

lemma publish_batch_inv: "inv w \<Longrightarrow> list_all good es \<Longrightarrow> publish_batch env es t b w = (r, w') \<Longrightarrow> inv w'"
  by (induction es arbitrary: b w) (auto split: sum.splits prod.splits dest: publish_inv)

lemma notify_loop_inv:
  assumes "notify_loop env cfg t w = Some (r, w')" "inv w"
  shows "inv w'"
proof -
  have "e = env \<longrightarrow> inv w \<longrightarrow> inv (snd res)" if "notify_loop e cfg t w = Some res" for e res
    using that
  proof (induction rule: notify_loop.raw_induct [rotated, consumes 1, case_names step])
    case (step loop e cfg t w res)
    show ?case
    proof (intro impI)
      assume e: "e = env" and w: "inv w"
      obtain x w1 where x: "CtxErr env w = (x, w1)" by fastforce
      obtain y w2 where y: "List_due env t (BatchSize cfg) w1 = (y, w2)" by fastforce
      have s: "inv w1" "inv w2" using steps(1) [OF w x] steps(3) [OF _ y] by simp_all
      have IH: "inv (snd res)" if "inv w3" "loop env cfg t w3 = Some res" for w3
        using step(1) [OF that(2)] that(1) by blast
      have good: "list_all good es" if "y = Inr es" for es
        using list_good [OF s(1)] y that by blast
      show "inv (snd res)"
        using step(2) s good by (auto simp: e x y split: sum.splits prod.splits option.splits if_splits
          dest: publish_batch_inv intro: IH)
    qed
  qed
  from this [OF assms(1)] assms(2) show ?thesis by simp
qed

lemma RunOnce_inv:
  assumes "RunOnce env cfg t w = Some (r, w')" "inv w"
  shows "inv w'"
proof -
  obtain t0 w0 where n: "Now env w = (t0, w0)" by fastforce
  obtain e1 w1 where c: "CtxErr env w0 = (e1, w1)" by fastforce
  obtain e2 w2 where d: "Delete_before env (AddDate t (- RetentionYears cfg) 0 0) w1 = (e2, w2)" by fastforce
  have s: "inv w0" "inv w1" "inv w2"
    using steps(7) [OF assms(2) n] steps(1) [OF _ c] steps(2) [OF _ d] by simp_all
  then have body: "inv w3" if "cycle_body env cfg t w0 = Some (r3, w3)" for r3 w3
    using that by (auto simp: cycle_body_def c d split: option.splits dest: notify_loop_inv)
  have fin: "inv w5" if "Now env w3 = (t4, w4)" "inv w3" "w5 = ObserveSchedulerCycle env b t4 k w4" for w3 t4 w4 b k w5
    using that steps(6) steps(7) by blast
  from assms(1) show ?thesis
    by (auto simp: RunOnce_def n split: if_splits prod.splits option.splits dest: body fin)
qed

lemma runAndLog_inv:
  assumes "runAndLog env cfg t w = Some w'" "inv w"
  shows "inv w'"
proof -
  from assms(1) obtain r w1 where w1: "RunOnce env cfg t w = Some (r, w1)"
    by (auto simp: runAndLog_def)
  obtain x w2 where x: "CtxErr env w1 = (x, w2)" by fastforce
  have "inv w1" "inv w2"
    using RunOnce_inv [OF w1 assms(2)] steps(1) [OF _ x] by simp_all
  with assms(1) w1 x show ?thesis
    by (auto simp: runAndLog_def steps(4) split: option.splits)
qed

lemma run_loop_inv:
  assumes "run_loop env cfg w = Some (r, w')" "inv w"
  shows "inv w'"
proof -
  have "e = env \<longrightarrow> inv w \<longrightarrow> inv (snd res)" if "run_loop e cfg w = Some res" for e res
    using that
  proof (induction rule: run_loop.raw_induct [rotated, consumes 1, case_names step])
    case (step loop e cfg w res)
    show ?case
    proof (intro impI)
      assume e: "e = env" and w: "inv w"
      obtain x w1 where x: "Wakeup env w = (x, w1)" by fastforce
      obtain t w2 where y: "Now env w1 = (t, w2)" by fastforce
      have s: "inv w1" "inv w2" using steps(8) [OF w x] steps(7) [OF _ y] by simp_all
      have IH: "inv (snd res)" if "inv w3" "loop env cfg w3 = Some res" for w3
        using step(1) [OF that(2)] that(1) by blast
      show "inv (snd res)"
        using step(2) s by (auto simp: e x y split: wakeup.splits bind_splits dest: runAndLog_inv intro: IH)
    qed
  qed
  from this [OF assms(1)] assms(2) show ?thesis by simp
qed

lemma RunScheduler_inv:
  assumes "RunScheduler env cfg w = Some (r, w')" "inv w"
  shows "inv w'"
proof -
  obtain t w1 where n: "Now env (SetSchedulerRunning env True w) = (t, w1)" by fastforce
  then have "inv w1" using steps(7) steps(5) assms(2) by blast
  with assms(1) show ?thesis
    by (auto simp: RunScheduler_def n split: bind_splits dest!: runAndLog_inv run_loop_inv intro!: steps(5))
qed

end

subsection \<open>Nothing is marked before it is published\<close>

text \<open>
  \<open>published\<close>: the broker has acknowledged a message with the key of the row, whose payload is the serialised
  notification of what the row holds. \<open>accounted\<close>: so it is for every row that is marked as sent.
\<close>

definition published ::
  "(Time \<Rightarrow> Time) \<Rightarrow> (Notification \<Rightarrow> error + string) \<Rightarrow> (string \<times> string) set \<Rightarrow> event_row \<Rightarrow> bool" where
  "published ts mar msgs r \<longleftrightarrow>
     (\<exists>n p. (c_id r, p) \<in> msgs \<and> mar n = Inr p \<and> ValidateNotification n = None \<and> n_EventID n = c_id r \<and> n_Title n = c_title r
        \<and> TimeEqual (c_start_at r) (ts (n_EventAt n)) \<and> n_UserID n = c_user_id r)"

definition accounted ::
  "(Time \<Rightarrow> Time) \<Rightarrow> (Notification \<Rightarrow> error + string) \<Rightarrow> event_table \<Rightarrow> (string \<times> string) set \<Rightarrow> bool" where
  "accounted ts mar t msgs \<longleftrightarrow> (\<forall>i r s. t i = Some (r, Some s) \<longrightarrow> published ts mar msgs r)"

text \<open>
  The same with more known of the notifications: \<open>ok\<close> holds of the one that was sent and of the notification of every
  row of the table.
\<close>

definition published_by ::
  "(Notification \<Rightarrow> bool) \<Rightarrow> (Time \<Rightarrow> Time) \<Rightarrow> (Notification \<Rightarrow> error + string) \<Rightarrow> (string \<times> string) set \<Rightarrow> event_row \<Rightarrow> bool" where
  "published_by ok ts mar msgs r \<longleftrightarrow>
     (\<exists>n p. (c_id r, p) \<in> msgs \<and> mar n = Inr p \<and> ok n \<and> ValidateNotification n = None \<and> n_EventID n = c_id r \<and> n_Title n = c_title r
        \<and> TimeEqual (c_start_at r) (ts (n_EventAt n)) \<and> n_UserID n = c_user_id r)"

definition rows_ok :: "(Notification \<Rightarrow> bool) \<Rightarrow> event_table \<Rightarrow> bool" where
  "rows_ok ok t \<longleftrightarrow> (\<forall>i r s. t i = Some (r, s) \<longrightarrow> ok (notification_of (event_of_row r)))"

definition accounted_by ::
  "(Notification \<Rightarrow> bool) \<Rightarrow> (Time \<Rightarrow> Time) \<Rightarrow> (Notification \<Rightarrow> error + string) \<Rightarrow> event_table \<Rightarrow> (string \<times> string) set \<Rightarrow> bool" where
  "accounted_by ok ts mar t msgs \<longleftrightarrow>
     rows_ok ok t \<and> (\<forall>i r s. t i = Some (r, Some s) \<longrightarrow> published_by ok ts mar msgs r)"

lemma accounted_by_True: "accounted_by (\<lambda>_. True) ts mar t msgs \<longleftrightarrow> accounted ts mar t msgs"
  by (simp add: accounted_by_def accounted_def published_by_def published_def rows_ok_def)

lemma published_mono: "published_by ok ts mar msgs r \<Longrightarrow> msgs \<subseteq> msgs' \<Longrightarrow> published_by ok ts mar msgs' r"
  by (fastforce simp: published_by_def)

text \<open>
  \<open>notification_world\<close>: what the scheduler relies on. Between two calls other processes may do anything to the table
  but mark rows they did not publish; the broker never loses what it acknowledged; a mark is only set on a
  row that still is the event it was asked for.
\<close>

locale notification_world =
  fixes env :: "'w sched_env"
    and sent :: "'w \<Rightarrow> (string \<times> string) list"
    and tabl :: "'w \<Rightarrow> event_table"
    and ts :: "Time \<Rightarrow> Time"
    and ok :: "Notification \<Rightarrow> bool"
  assumes sent_grows:
      "CtxErr env w = (e1, w') \<or> Delete_before env t w = (e2, w') \<or> List_due env t k w = (e3, w')
       \<or> Mark_sent env ev t w = (e4, w') \<or> Send env key payload w = (e5, w')
       \<or> w' = LogError env m e w \<or> w' = SetSchedulerRunning env b w \<or> w' = ObserveSchedulerCycle env b t k w
       \<or> w' = ObserveNotificationPublished env b w \<or> Now env w = (t, w') \<or> Wakeup env w = (wu, w')
       \<Longrightarrow> set (sent w) \<subseteq> set (sent w')"
    and accounted_kept:
      "CtxErr env w = (e1, w') \<or> Delete_before env t w = (e2, w') \<or> List_due env t k w = (e3, w')
       \<or> Send env key payload w = (e5, w')
       \<or> w' = LogError env m e w \<or> w' = SetSchedulerRunning env b w \<or> w' = ObserveSchedulerCycle env b t k w
       \<or> w' = ObserveNotificationPublished env b w \<or> Now env w = (t, w') \<or> Wakeup env w = (wu, w')
       \<Longrightarrow> accounted_by ok ts (Marshal env) (tabl w) (set (sent w))
       \<Longrightarrow> accounted_by ok ts (Marshal env) (tabl w') (set (sent w'))"
    and send_acknowledged: "Send env key payload w = (None, w') \<Longrightarrow> (key, payload) \<in> set (sent w')"
    and mark_accounted:
      "Mark_sent env ev t w = (r, w') \<Longrightarrow> accounted_by ok ts (Marshal env) (tabl w) (set (sent w)) \<Longrightarrow>
       (ID ev, p) \<in> set (sent w) \<Longrightarrow> Marshal env (notification_of ev) = Inr p \<Longrightarrow> ok (notification_of ev) \<Longrightarrow>
       accounted_by ok ts (Marshal env) (tabl w') (set (sent w'))"
    and listed_ok: "accounted_by ok ts (Marshal env) (tabl w) (set (sent w)) \<Longrightarrow> List_due env t k w = (Inr es, w') \<Longrightarrow>
       list_all (\<lambda>ev. ok (notification_of ev)) es"
begin

definition safe :: "'w \<Rightarrow> bool" where
  "safe w \<longleftrightarrow> accounted_by ok ts (Marshal env) (tabl w) (set (sent w))"

lemma safe_steps:
  assumes "safe w"
  shows "CtxErr env w = (e1, w') \<Longrightarrow> safe w'" "Delete_before env t w = (e2, w') \<Longrightarrow> safe w'"
    "List_due env t k w = (e3, w') \<Longrightarrow> safe w'" "Send env key payload w = (e5, w') \<Longrightarrow> safe w'"
    "safe (LogError env m e w)" "safe (SetSchedulerRunning env b w)" "safe (ObserveSchedulerCycle env b t k w)"
    "safe (ObserveNotificationPublished env b w)" "Now env w = (t, w') \<Longrightarrow> safe w'" "Wakeup env w = (wu, w') \<Longrightarrow> safe w'"
  using assms unfolding safe_def by (blast intro: accounted_kept)+

lemma publish_safe:
  assumes "safe w" "publish env ev t w = (r, w')" and ok: "ok (notification_of ev)"
  shows "safe w'"
proof (cases "ValidateNotification (notification_of ev)")
  case (Some err)
  with assms show ?thesis
    by (auto simp: publish_def notification_of_def [symmetric] safe_steps(8))
next
  case valid: None
  show ?thesis
  proof (cases "Marshal env (notification_of ev)")
    case (Inl err)
    with assms valid show ?thesis
      by (auto simp: publish_def notification_of_def [symmetric] safe_steps(8))
  next
    case (Inr p)
    obtain x w1 where x: "Send env (ID ev) p w = (x, w1)" by fastforce
    have s1: "safe w1" using safe_steps(4) [OF assms(1) x] .
    show ?thesis
    proof (cases x)
      case (Some err)
      with assms valid Inr x s1 show ?thesis
        by (auto simp: publish_def notification_of_def [symmetric] safe_steps(8) split: if_splits)
    next
      case None
      let ?w2 = "ObserveNotificationPublished env True w1"
      have "(ID ev, p) \<in> set (sent ?w2)"
        using send_acknowledged x None sent_grows [of w1 _ ?w2] by blast
      moreover have "safe ?w2" using safe_steps(8) [OF s1] .
      ultimately have "safe w3" if "Mark_sent env ev t ?w2 = (y, w3)" for y w3
        using mark_accounted [OF that] Inr ok by (simp add: safe_def)
      with assms(2) valid Inr x None show ?thesis
        by (auto simp: publish_def notification_of_def [symmetric] split: sum.splits prod.splits)
    qed
  qed
qed

end

sublocale notification_world \<subseteq> scheduler_invariant env safe "\<lambda>ev. ok (notification_of ev)"
  by unfold_locales (fact safe_steps | rule listed_ok [folded safe_def] publish_safe; assumption)+

subsection \<open>A cycle that nobody disturbs\<close>

definition marked :: "event_table \<Rightarrow> Event set \<Rightarrow> Time \<Rightarrow> event_table" where
  "marked t es s = (\<lambda>i. case t i of
      Some (r, None) \<Rightarrow> Some (r, if event_of_row r \<in> es then Some s else None)
    | x \<Rightarrow> x)"

definition message_of :: "(Notification \<Rightarrow> error + string) \<Rightarrow> Event \<Rightarrow> string \<times> string" where
  "message_of mar e = (ID e, projr (mar (notification_of e)))"

definition due_events :: "(Time \<Rightarrow> event_row \<Rightarrow> bool) \<Rightarrow> event_table \<Rightarrow> Time \<Rightarrow> Event set" where
  "due_events due t now = event_of_row ` pending_rows due t now"

text \<open>
  \<open>quiet_world\<close>: no other process writes, every call with a \<open>usable\<close> time succeeds. \<open>ok\<close> is what then holds throughout: a consistent,
  finite calendar whose events can be serialised.
\<close>

locale quiet_world =
  fixes env :: "'w sched_env"
    and sent :: "'w \<Rightarrow> (string \<times> string) list"
    and tabl :: "'w \<Rightarrow> event_table"
    and ts :: "Time \<Rightarrow> Time"
    and due :: "Time \<Rightarrow> event_row \<Rightarrow> bool"
    and ok :: "'w \<Rightarrow> bool"
    and usable :: "Time \<Rightarrow> bool"
  assumes ok_calendar: "ok w \<Longrightarrow> calendar_ok (calendar_of_table (tabl w)) \<and> finite (dom (tabl w))"
    and ok_marshal: "ok w \<Longrightarrow> tabl w i = Some (r, s) \<Longrightarrow> \<exists>p. Marshal env (notification_of (event_of_row r)) = Inr p"
    and calm: "CtxErr env w = (e1, w') \<and> e1 = e \<or> w' = ObserveSchedulerCycle env b t k w
        \<or> w' = ObserveNotificationPublished env b w \<or> Now env w = (t, w')
        \<Longrightarrow> ok w \<Longrightarrow> ok w' \<and> tabl w' = tabl w \<and> sent w' = sent w"
    and not_cancelled: "ok w \<Longrightarrow> fst (CtxErr env w) = None"
    and deletes: "ok w \<Longrightarrow> \<not> IsZero t \<Longrightarrow> usable t \<Longrightarrow> Delete_before env t w = (e2, w') \<Longrightarrow>
        e2 = None \<and> ok w' \<and> tabl w' = purged (tabl w) (ts t) \<and> sent w' = sent w"
    and lists: "ok w \<Longrightarrow> \<not> IsZero t \<Longrightarrow> usable t \<Longrightarrow> 0 < k \<Longrightarrow> List_due env t k w = (l, w') \<Longrightarrow>
        ok w' \<and> tabl w' = tabl w \<and> sent w' = sent w \<and>
        (\<exists>es. l = Inr es \<and> distinct es \<and> set es \<subseteq> due_events due (tabl w) (ts t) \<and>
           (int (length es) < k \<longrightarrow> set es = due_events due (tabl w) (ts t)))"
    and sends: "ok w \<Longrightarrow> Send env key payload w = (e5, w') \<Longrightarrow>
        e5 = None \<and> ok w' \<and> tabl w' = tabl w \<and> sent w' = sent w @ [(key, payload)]"
    and marks: "ok w \<Longrightarrow> \<not> IsZero t \<Longrightarrow> usable t \<Longrightarrow> tabl w (ID ev) = Some (row_of ev, None) \<Longrightarrow> Mark_sent env ev t w = (m, w') \<Longrightarrow>
        m = Inr True \<and> ok w' \<and> tabl w' = (tabl w)(ID ev \<mapsto> (row_of ev, Some (ts t))) \<and> sent w' = sent w"

lemma row_of_event_of_row [simp]: "row_of (event_of_row r) = r"
  by (simp add: row_of_def event_of_row_def)

lemma NotifyBefore_row: "NotifyBefore (event_of_row r) = c_notify_before_ns r"
  by (simp add: event_of_row_def)

lemma due_events_iff:
  assumes "calendar_ok (calendar_of_table t)"
  shows "e \<in> due_events due t now \<longleftrightarrow>
    t (ID e) = Some (row_of e, None) \<and> 0 < NotifyBefore e \<and> due now (row_of e)"
proof
  assume "e \<in> due_events due t now"
  then obtain r i where r: "e = event_of_row r" "t i = Some (r, None)" "0 < c_notify_before_ns r" "due now r"
    by (auto simp: due_events_def pending_rows_def)
  then have "calendar_of_table t i = Some e" by (simp add: calendar_of_table_def)
  then have "ID e = i" using calendar_okD(2) [OF assms] by blast
  with r show "t (ID e) = Some (row_of e, None) \<and> 0 < NotifyBefore e \<and> due now (row_of e)"
    using NotifyBefore_row by auto
next
  assume "t (ID e) = Some (row_of e, None) \<and> 0 < NotifyBefore e \<and> due now (row_of e)"
  then have "row_of e \<in> pending_rows due t now" by (auto simp: pending_rows_def row_of_def)
  then show "e \<in> due_events due t now" unfolding due_events_def by (metis event_of_row_of imageI)
qed

lemma due_event_valid:
  assumes "calendar_ok (calendar_of_table t)" "e \<in> due_events due t now"
  shows "valid_event e"
proof -
  have "calendar_of_table t (ID e) = Some e"
    using due_events_iff [OF assms(1)] assms(2) by (simp add: calendar_of_table_def)
  then show ?thesis using calendar_okD(1) [OF assms(1)] by blast
qed

lemma marked_empty [simp]: "marked t {} s = t"
  by (auto simp: marked_def fun_eq_iff split: option.splits prod.splits)

lemma calendar_of_marked [simp]: "calendar_of_table (marked t es s) = calendar_of_table t"
  by (auto simp: calendar_of_table_def marked_def fun_eq_iff split: option.splits prod.splits)

lemma marked_cons:
  assumes "calendar_ok (calendar_of_table t)" "t (ID e) = Some (row_of e, None)"
  shows "marked (t(ID e \<mapsto> (row_of e, Some s))) es s = marked t (insert e es) s"
proof
  fix i
  have "event_of_row r \<noteq> e" if "t i = Some (r, None)" "i \<noteq> ID e" for r
    using calendar_okD(2) [OF assms(1), of i "event_of_row r"] that by (auto simp: calendar_of_table_def)
  then show "marked (t(ID e \<mapsto> (row_of e, Some s))) es s i = marked t (insert e es) s i"
    using assms(2) by (auto simp: marked_def split: option.splits prod.splits)
qed

lemma marked_marked: "marked (marked t es s) fs s = marked t (es \<union> fs) s"
  by (auto simp: marked_def fun_eq_iff split: option.splits prod.splits)

lemma due_events_marked: "due_events due (marked t es s) now = due_events due t now - es"
proof -
  have "marked t es s i = Some (r, None) \<longleftrightarrow> t i = Some (r, None) \<and> event_of_row r \<notin> es" for i r
    by (auto simp: marked_def split: option.splits prod.splits)
  then show ?thesis
    by (auto simp: due_events_def pending_rows_def)
qed

lemma finite_due_events: "finite (dom t) \<Longrightarrow> finite (due_events due t now)"
proof -
  assume "finite (dom t)"
  then have "finite (ran t)" by (rule finite_ran)
  moreover have "pending_rows due t now \<subseteq> fst ` ran t"
    by (force simp: pending_rows_def ran_def)
  ultimately show ?thesis unfolding due_events_def by (meson finite_imageI finite_subset)
qed

lemma purged_calendar_ok: "calendar_ok (calendar_of_table t) \<Longrightarrow> calendar_ok (calendar_of_table (purged t c))"
  by (erule calendar_ok_submap) (auto simp: map_le_def calendar_of_table_def purged_def split: option.splits if_splits)

context quiet_world
begin

lemma publish_quiet:
  assumes "ok w" "\<not> IsZero t" "usable t" "e \<in> due_events due (tabl w) d"
  shows "\<exists>w'. publish env e t w = (Inr True, w') \<and> ok w' \<and> sent w' = sent w @ [message_of (Marshal env) e] \<and>
    tabl w' = (tabl w)(ID e \<mapsto> (row_of e, Some (ts t)))"
proof -
  have row: "tabl w (ID e) = Some (row_of e, None)"
    using due_events_iff ok_calendar [OF assms(1)] assms(4) by blast
  have valid: "ValidateNotification (notification_of e) = None"
    using notification_of_valid due_event_valid ok_calendar [OF assms(1)] assms(4) by blast
  obtain p where p: "Marshal env (notification_of e) = Inr p"
    using ok_marshal [OF assms(1) row] by auto
  obtain x w1 where s: "Send env (ID e) p w = (x, w1)" by fastforce
  note w1 = sends [OF assms(1) s]
  let ?w2 = "ObserveNotificationPublished env True w1"
  have w2: "ok ?w2 \<and> tabl ?w2 = tabl w1 \<and> sent ?w2 = sent w1" using calm [of w1 _ ?w2] w1 by blast
  obtain m w3 where m: "Mark_sent env e t ?w2 = (m, w3)" by fastforce
  have "tabl ?w2 (ID e) = Some (row_of e, None)" using w1 w2 row by simp
  note w3 = marks [OF conjunct1 [OF w2] assms(2,3) this m]
  show ?thesis
    using w1 w2 w3 by (simp add: publish_def notification_of_def [symmetric] valid p s m message_of_def)
qed

lemma publish_batch_quiet:
  assumes "ok w" "\<not> IsZero t" "usable t" "set es \<subseteq> due_events due (tabl w) d" "distinct es"
  shows "\<exists>w'. publish_batch env es t False w = (Inr False, w') \<and> ok w' \<and>
    sent w' = sent w @ map (message_of (Marshal env)) es \<and> tabl w' = marked (tabl w) (set es) (ts t)"
  using assms
proof (induction es arbitrary: w)
  case (Cons e es)
  have cal: "calendar_ok (calendar_of_table (tabl w))" using ok_calendar Cons.prems(1) by blast
  have e: "e \<in> due_events due (tabl w) d" using Cons.prems(4) by simp
  then have row: "tabl w (ID e) = Some (row_of e, None)" using due_events_iff [OF cal] by blast
  obtain w1 where w1: "publish env e t w = (Inr True, w1)" "ok w1"
      "sent w1 = sent w @ [message_of (Marshal env) e]" "tabl w1 = (tabl w)(ID e \<mapsto> (row_of e, Some (ts t)))"
    using publish_quiet [OF Cons.prems(1,2,3) e] by blast
  have m: "tabl w1 = marked (tabl w) {e} (ts t)"
    using marked_cons [OF cal row, of "ts t" "{}"] w1(4) by simp
  then have "set es \<subseteq> due_events due (tabl w1) d"
    using Cons.prems(4,5) by (auto simp: due_events_marked)
  from Cons.IH [OF w1(2) Cons.prems(2,3) this] Cons.prems(5) w1(1,3) show ?case
    by (auto simp: m marked_marked)
qed auto

lemma notify_loop_quiet:
  assumes "ok w" "\<not> IsZero t" "usable t" "0 < BatchSize cfg"
  shows "\<exists>w' es. notify_loop env cfg t w = Some (None, w') \<and> ok w' \<and> distinct es \<and>
    set es = due_events due (tabl w) (ts t) \<and> sent w' = sent w @ map (message_of (Marshal env)) es \<and>
    tabl w' = marked (tabl w) (set es) (ts t)"
  using assms(1)
proof (induction "card (due_events due (tabl w) (ts t))" arbitrary: w rule: less_induct)
  case less
  obtain w1 where c: "CtxErr env w = (None, w1)"
    using not_cancelled [OF less.prems] by (metis prod.collapse)
  then have w1: "ok w1" "tabl w1 = tabl w" "sent w1 = sent w"
    using calm [of w None w1 None] less.prems by auto
  obtain l w2 where l: "List_due env t (BatchSize cfg) w1 = (l, w2)" by fastforce
  from lists [OF w1(1) assms(2,3,4) l] obtain es where w2: "ok w2" "tabl w2 = tabl w" "sent w2 = sent w"
      and es: "l = Inr es" "distinct es" "set es \<subseteq> due_events due (tabl w) (ts t)"
      and all: "int (length es) < BatchSize cfg \<Longrightarrow> set es = due_events due (tabl w) (ts t)"
    using w1 by auto
  show ?case
  proof (cases "es = []")
    case True
    with w2 es all assms(4) c l show ?thesis
      by (intro exI [of _ w2] exI [of _ "[]"]) (simp add: notify_loop.simps [of env cfg t w])
  next
    case nonempty: False
    obtain w3 where b: "publish_batch env es t False w2 = (Inr False, w3)" and w3: "ok w3"
        "sent w3 = sent w @ map (message_of (Marshal env)) es" "tabl w3 = marked (tabl w) (set es) (ts t)"
      using publish_batch_quiet [OF w2(1) assms(2,3), of es "ts t"] w2 es by auto
    show ?thesis
    proof (cases "int (length es) < BatchSize cfg")
      case True
      with b c l es w3 all nonempty show ?thesis
        by (intro exI [of _ w3] exI [of _ es]) (simp add: notify_loop.simps [of env cfg t w])
    next
      case False
      have fin: "finite (due_events due (tabl w) (ts t))"
        using finite_due_events ok_calendar less.prems by blast
      have d3: "due_events due (tabl w3) (ts t) = due_events due (tabl w) (ts t) - set es"
        by (simp add: w3(3) due_events_marked)
      then have "card (due_events due (tabl w3) (ts t)) < card (due_events due (tabl w) (ts t))"
        using fin es(3) nonempty by (intro psubset_card_mono) (auto simp: neq_Nil_conv)
      from less.hyps [OF this w3(1)] obtain w' fs where r: "notify_loop env cfg t w3 = Some (None, w')" "ok w'"
          "distinct fs" "set fs = due_events due (tabl w) (ts t) - set es"
          "sent w' = sent w3 @ map (message_of (Marshal env)) fs" "tabl w' = marked (tabl w3) (set fs) (ts t)"
        unfolding d3 by auto
      have "notify_loop env cfg t w = Some (None, w')"
        using b c l es nonempty False r(1) by (simp add: notify_loop.simps [of env cfg t w])
      with r es w3 show ?thesis
        by (intro exI [of _ w'] exI [of _ "es @ fs"]) (auto simp: marked_marked Un_absorb1)
    qed
  qed
qed

lemma RunOnce_quiet:
  assumes "ok w" "\<not> IsZero t" "0 < BatchSize cfg" "\<not> IsZero (AddDate t (- RetentionYears cfg) 0 0)"
    and use: "usable t" "usable (AddDate t (- RetentionYears cfg) 0 0)"
  defines "left \<equiv> purged (tabl w) (ts (AddDate t (- RetentionYears cfg) 0 0))"
  shows "\<exists>w' es. RunOnce env cfg t w = Some (None, w') \<and> ok w' \<and> distinct es \<and>
    set es = due_events due left (ts t) \<and> sent w' = sent w @ map (message_of (Marshal env)) es \<and>
    tabl w' = marked left (set es) (ts t)"
proof -
  obtain t0 w0 where n: "Now env w = (t0, w0)" by fastforce
  then have w0: "ok w0" "tabl w0 = tabl w" "sent w0 = sent w"
    using calm [of w _ w0] assms(1) by blast+
  obtain w1 where c: "CtxErr env w0 = (None, w1)"
    using not_cancelled [OF w0(1)] by (metis prod.collapse)
  then have w1: "ok w1" "tabl w1 = tabl w" "sent w1 = sent w"
    using calm [of w0 None w1 None] w0 by auto
  obtain e2 w2 where d: "Delete_before env (AddDate t (- RetentionYears cfg) 0 0) w1 = (e2, w2)" by fastforce
  have w2: "e2 = None" "ok w2" "tabl w2 = left" "sent w2 = sent w"
    using deletes [OF w1(1) assms(4) use(2) d] w1 by (simp_all add: left_def)
  obtain w3 es where l: "notify_loop env cfg t w2 = Some (None, w3)" "ok w3" "distinct es"
      "set es = due_events due left (ts t)" "sent w3 = sent w @ map (message_of (Marshal env)) es"
      "tabl w3 = marked left (set es) (ts t)"
    using notify_loop_quiet [OF w2(2) assms(2) use(1) assms(3)] w2 by auto
  obtain t4 w4 where n4: "Now env w3 = (t4, w4)" by fastforce
  then have w4: "ok w4" "tabl w4 = tabl w3" "sent w4 = sent w3"
    using calm [of w3 _ w4] l(2) by blast+
  let ?w5 = "ObserveSchedulerCycle env True t4 (TimeSub t4 t0) w4"
  have w5: "ok ?w5 \<and> tabl ?w5 = tabl w4 \<and> sent ?w5 = sent w4"
    using calm [of w4 _ ?w5] w4(1) by blast
  have "RunOnce env cfg t w = Some (None, ?w5)"
    using w2(1) by (simp add: RunOnce_def cycle_body_def n c d l(1) n4)
  with w5 w4 l show ?thesis by auto
qed

lemma RunOnce_again_sends_nothing:
  assumes "ok w" "\<not> IsZero t" "0 < BatchSize cfg" "\<not> IsZero (AddDate t (- RetentionYears cfg) 0 0)"
    and use: "usable t" "usable (AddDate t (- RetentionYears cfg) 0 0)"
    and "RunOnce env cfg t w = Some (r, w')"
  shows "\<exists>w''. RunOnce env cfg t w' = Some (None, w'') \<and> sent w'' = sent w' \<and> tabl w'' = tabl w'"
proof -
  let ?c = "ts (AddDate t (- RetentionYears cfg) 0 0)"
  let ?left = "purged (tabl w) ?c"
  from RunOnce_quiet [OF assms(1-6)] assms(7) have w': "ok w'" "tabl w' = marked ?left (due_events due ?left (ts t)) (ts t)"
    by auto
  have "purged (tabl w') ?c = tabl w'"
    by (auto simp: w'(2) purged_def marked_def fun_eq_iff split: option.splits if_splits prod.splits)
  moreover have "due_events due (tabl w') (ts t) = {}"
    by (simp add: w'(2) due_events_marked)
  ultimately show ?thesis
    using RunOnce_quiet [OF w'(1) assms(2-6)] by auto
qed

end

subsection \<open>The scheduler on the SQL storage\<close>

text \<open>
  The world of the deployed scheduler: the database, the messages the broker acknowledged, what the metrics and
  the log received, and a counter of the calls. \<open>sql_env\<close> is the environment \<open>cmd/calendar_scheduler\<close> builds: the
  storage calls are those of \<open>Sql_Storage\<close> on the connection \<open>st\<close>. At each call the context, the broker, the clock and
  the ticker answer as their parameters say, and \<open>others\<close> is what other processes did to the database meanwhile.
\<close>

record 'd sched_world =
  w_db :: 'd
  w_sent :: "(string \<times> string) list"
  w_published :: "bool list"
  w_cycles :: "(bool \<times> Time \<times> int) list"
  w_running :: bool
  w_log :: "(message \<times> error) list"
  w_calls :: nat

record 'd surroundings =
  s_ctx :: "nat \<Rightarrow> cctx"
  s_broker :: "nat \<Rightarrow> error option"
  s_clock :: "nat \<Rightarrow> Time"
  s_wakeup :: "nat \<Rightarrow> wakeup"
  s_others :: "nat \<Rightarrow> 'd \<Rightarrow> 'd"

definition next_call :: "'d surroundings \<Rightarrow> 'd sched_world \<Rightarrow> 'd sched_world" where
  "next_call su w = w\<lparr>w_calls := Suc (w_calls w), w_db := s_others su (w_calls w) (w_db w)\<rparr>"

definition sql_env ::
  "'d driver \<Rightarrow> 'h SqlStorage \<Rightarrow> (Notification \<Rightarrow> error + string) \<Rightarrow> 'd surroundings \<Rightarrow> 'd sched_world sched_env" where
  "sql_env drv st mar su = \<lparr>
     CtxErr = (\<lambda>w. (s_ctx su (w_calls w) 0, next_call su w)),
     Delete_before = (\<lambda>t w. case DeleteEventsBefore drv (s_ctx su (w_calls w)) t (st, w_db w) of
       (r, _, d) \<Rightarrow> (r, next_call su (w\<lparr>w_db := d\<rparr>))),
     List_due = (\<lambda>t k w. (ListEventsForNotification drv (s_ctx su (w_calls w)) t k (st, w_db w), next_call su w)),
     Mark_sent = (\<lambda>ev t w. case MarkNotificationSent drv (s_ctx su (w_calls w)) ev t (st, w_db w) of
       (r, _, d) \<Rightarrow> (r, next_call su (w\<lparr>w_db := d\<rparr>))),
     Send = (\<lambda>k p w. case s_broker su (w_calls w) of
       Some e \<Rightarrow> (Some e, next_call su w)
     | None \<Rightarrow> (None, next_call su (w\<lparr>w_sent := w_sent w @ [(k, p)]\<rparr>))),
     Marshal = mar,
     LogError = (\<lambda>m e w. w\<lparr>w_log := w_log w @ [(m, e)]\<rparr>),
     SetSchedulerRunning = (\<lambda>b w. w\<lparr>w_running := b\<rparr>),
     ObserveSchedulerCycle = (\<lambda>b t k w. w\<lparr>w_cycles := w_cycles w @ [(b, t, k)]\<rparr>),
     ObserveNotificationPublished = (\<lambda>b w. w\<lparr>w_published := w_published w @ [b]\<rparr>),
     Now = (\<lambda>w. (s_clock su (w_calls w), next_call su w)),
     Wakeup = (\<lambda>w. (s_wakeup su (w_calls w), next_call su w))\<rparr>"

text \<open>
  What other processes may do: the API inserts, updates (which resets the mark) and deletes events, so a mark it
  leaves behind is one that was there before.
\<close>

definition no_foreign_marks :: "('d \<Rightarrow> event_table) \<Rightarrow> 'd surroundings \<Rightarrow> bool" where
  "no_foreign_marks tab su \<longleftrightarrow>
     (\<forall>n d i r s. tab (s_others su n d) i = Some (r, Some s) \<longrightarrow> tab d i = Some (r, Some s))"

definition lawful_ctx :: "'d surroundings \<Rightarrow> bool" where
  "lawful_ctx su \<longleftrightarrow> (\<forall>n. ctx_law (s_ctx su n))"

lemma accounted_le:
  assumes "accounted_by ok ts mar t msgs" "msgs \<subseteq> msgs'"
    and "\<And>i r s. t' i = Some (r, Some s) \<Longrightarrow> t i = Some (r, Some s)" "rows_ok ok t'"
  shows "accounted_by ok ts mar t' msgs'"
  using assms published_mono unfolding accounted_by_def by meson

lemma purged_SomeD: "purged t c i = Some x \<Longrightarrow> t i = Some x"
  by (auto simp: purged_def split: option.splits if_splits)

lemma accounted_purged: "accounted_by ok ts mar t msgs \<Longrightarrow> accounted_by ok ts mar (purged t c) msgs"
  unfolding accounted_by_def rows_ok_def using purged_SomeD by metis

lemma accounted_mark:
  assumes "accounted_by ok ts mar t msgs" "unsent_snapshot ts t ev q" "valid_event ev"
    and "(ID ev, p) \<in> msgs" "mar (notification_of ev) = Inr p" "ok (notification_of ev)"
  shows "accounted_by ok ts mar (t(ID ev \<mapsto> (q, Some s))) msgs"
proof -
  have "published_by ok ts mar msgs q"
    unfolding published_by_def using assms(2-6) notification_of_valid [OF assms(3)]
    by (intro exI [of _ "notification_of ev"] exI [of _ p]) (auto simp: unsent_snapshot_def notification_of_def)
  moreover have "ok (notification_of (event_of_row q))"
    using assms(1,2) by (auto simp: accounted_by_def rows_ok_def unsent_snapshot_def)
  ultimately show ?thesis using assms(1) by (auto simp: accounted_by_def rows_ok_def)
qed

locale scheduler_on_sql = postgres +
  fixes mar :: "Notification \<Rightarrow> error + string"
    and su :: "'a surroundings"
    and st :: "'h SqlStorage"
    and ok :: "Notification \<Rightarrow> bool"
  assumes lawful: "lawful_ctx su"
    and others: "no_foreign_marks tab su"
    and others_rows: "rows_ok ok (tab d) \<Longrightarrow> rows_ok ok (tab (s_others su n d))"
begin

lemma ctx_ok: "ctx_law (s_ctx su n)"
  using lawful by (simp add: lawful_ctx_def)

lemma foreign: "tab (s_others su n d) i = Some (r, Some s) \<Longrightarrow> tab d i = Some (r, Some s)"
  using others unfolding no_foreign_marks_def by blast

lemma next_call_accounted:
  "accounted_by ok ts mar (tab (w_db w)) (set (w_sent w)) \<Longrightarrow>
   accounted_by ok ts mar (tab (w_db (next_call su w))) (set (w_sent (next_call su w)))"
  by (rule accounted_le, assumption) (auto simp: next_call_def accounted_by_def dest: foreign others_rows)

lemma delete_accounted:
  assumes "Delete_before (sql_env drv st mar su) t w = (r, w')"
    and "accounted_by ok ts mar (tab (w_db w)) (set (w_sent w))"
  shows "accounted_by ok ts mar (tab (w_db w')) (set (w_sent w'))"
proof -
  obtain s d where d: "DeleteEventsBefore drv (s_ctx su (w_calls w)) t (st, w_db w) = (r, s, d)"
      and w': "w' = next_call su (w\<lparr>w_db := d\<rparr>)"
    using assms(1) by (auto simp: sql_env_def split: prod.splits)
  have "accounted_by ok ts mar (tab d) (set (w_sent w))"
    using purge_contract [OF ctx_ok d] assms(2) accounted_purged by auto
  then show ?thesis
    using next_call_accounted [of "w\<lparr>w_db := d\<rparr>"] by (simp add: w')
qed

lemma mark_kept:
  assumes "Mark_sent (sql_env drv st mar su) ev t w = (r, w')"
    and "accounted_by ok ts mar (tab (w_db w)) (set (w_sent w))"
    and "(ID ev, p) \<in> set (w_sent w)" "mar (notification_of ev) = Inr p" "ok (notification_of ev)"
  shows "accounted_by ok ts mar (tab (w_db w')) (set (w_sent w'))"
proof -
  obtain s d where d: "MarkNotificationSent drv (s_ctx su (w_calls w)) ev t (st, w_db w) = (r, s, d)"
      and w': "w' = next_call su (w\<lparr>w_db := d\<rparr>)"
    using assms(1) by (auto simp: sql_env_def split: prod.splits)
  have "accounted_by ok ts mar (tab d) (set (w_sent w))"
    using mark_contract [OF ctx_ok d] assms(2-5) accounted_mark by (auto split: sum.splits if_splits)
  then show ?thesis
    using next_call_accounted [of "w\<lparr>w_db := d\<rparr>"] by (simp add: w')
qed

lemma send_kept:
  assumes "Send (sql_env drv st mar su) key payload w = (r, w')"
    and "accounted_by ok ts mar (tab (w_db w)) (set (w_sent w))"
  shows "accounted_by ok ts mar (tab (w_db w')) (set (w_sent w'))"
proof -
  have "accounted_by ok ts mar (tab (w_db w)) (set (w_sent w @ [(key, payload)]))"
    using assms(2) by (rule accounted_le) (use assms(2) in \<open>auto simp: accounted_by_def\<close>)
  with next_call_accounted [of w] next_call_accounted [of "w\<lparr>w_sent := w_sent w @ [(key, payload)]\<rparr>"] assms
  show ?thesis by (auto simp: sql_env_def split: option.splits)
qed

end

sublocale scheduler_on_sql \<subseteq> sched: notification_world "sql_env drv st mar su" w_sent "\<lambda>w. tab (w_db w)" ts ok
proof (unfold_locales, goal_cases)
  case 1
  then show ?case
    by (auto simp: sql_env_def next_call_def split: prod.splits option.splits)
next
  case kept: 2
  have m: "Marshal (sql_env drv st mar su) = mar" by (simp add: sql_env_def)
  from kept(1) show ?case
  proof (elim disjE, goal_cases)
    case 2
    with kept(2) show ?case unfolding m by (rule delete_accounted [rotated])
  next
    case 4
    with kept(2) show ?case unfolding m by (rule send_kept [rotated])
  qed (use kept(2) in \<open>auto simp: sql_env_def next_call_accounted\<close>)
next
  case 3
  then show ?case by (auto simp: sql_env_def next_call_def split: option.splits)
next
  case 4
  then show ?case using mark_kept by (simp add: sql_env_def)
next
  case (5 w t k es w')
  then have l: "ListEventsForNotification drv (s_ctx su (w_calls w)) t k (st, w_db w) = Inr es" by (auto simp: sql_env_def)
  then have "set es \<subseteq> event_of_row ` pending_rows due (tab (w_db w)) (ts t)" using due_contract [OF l] by blast
  then show ?case using 5(1)
    by (auto simp: accounted_by_def rows_ok_def pending_rows_def list_all_iff)
qed

lemma Marshal_sql_env [simp]: "Marshal (sql_env drv st mar su) = mar"
  by (simp add: sql_env_def)

context scheduler_on_sql
begin

lemma scheduler_accounted:
  assumes "RunScheduler (sql_env drv st mar su) cfg w = Some (r, w')" "accounted_by ok ts mar (tab (w_db w)) (set (w_sent w))"
  shows "accounted_by ok ts mar (tab (w_db w')) (set (w_sent w'))"
  using sched.RunScheduler_inv [OF assms(1)] assms(2) by (simp add: sched.safe_def)

end

text \<open>
  The same environment with a database that answers, a broker that acknowledges and no other process at work.
  \<open>ready\<close> is the state of the table in which a cycle can do all its work.
\<close>

definition undisturbed :: "(nat \<Rightarrow> Time) \<Rightarrow> (nat \<Rightarrow> wakeup) \<Rightarrow> 'd surroundings" where
  "undisturbed clock wake = \<lparr>s_ctx = (\<lambda>_. live), s_broker = (\<lambda>_. None), s_clock = clock, s_wakeup = wake,
     s_others = (\<lambda>_ d. d)\<rparr>"

definition ready :: "(Time \<Rightarrow> Time) \<Rightarrow> (Notification \<Rightarrow> error + string) \<Rightarrow> event_table \<Rightarrow> bool" where
  "ready ts mar t \<longleftrightarrow> calendar_ok (calendar_of_table t) \<and>
     (\<forall>i r s. t i = Some (r, s) \<longrightarrow>
        TimeEqual (c_start_at r) (ts (c_start_at r)) \<and> (\<exists>p. mar (notification_of (event_of_row r)) = Inr p))"

lemma ready_purged: "ready ts mar t \<Longrightarrow> ready ts mar (purged t c)"
  unfolding ready_def using purged_calendar_ok by (auto simp: purged_def split: option.splits if_splits)

lemma ready_mark:
  assumes "ready ts mar t" "t (ID e) = Some (row_of e, s)"
  shows "ready ts mar (t(ID e \<mapsto> (row_of e, s')))"
proof -
  have "calendar_of_table (t(ID e \<mapsto> (row_of e, s'))) = calendar_of_table t"
    using assms(2) by (auto simp: calendar_of_table_def)
  moreover have "\<exists>p. mar (notification_of (event_of_row (row_of e))) = Inr p"
    using assms unfolding ready_def by blast
  ultimately show ?thesis
    using assms by (auto simp: ready_def simp del: calendar_of_table_upd)
qed

lemma next_call_undisturbed [simp]:
  "w_db (next_call (undisturbed clock wake) w) = w_db w" "w_sent (next_call (undisturbed clock wake) w) = w_sent w"
  "s_ctx (undisturbed clock wake) n = live" "s_broker (undisturbed clock wake) n = None"
  by (simp_all add: next_call_def undisturbed_def)

locale healthy_scheduler = postgres +
  fixes mar :: "Notification \<Rightarrow> error + string"
    and clock :: "nat \<Rightarrow> Time"
    and wake :: "nat \<Rightarrow> wakeup"
    and st :: "'h SqlStorage"
    and usable :: "Time \<Rightarrow> bool"
  assumes connection: "db st \<noteq> None"
    and purge_answers: "usable c \<Longrightarrow> \<exists>n d'. ExecContext drv live (DeleteEventsStartedBefore c) d = (Inr n, d')"
    and mark_answers: "usable w \<Longrightarrow> tab d i = Some (r, s) \<Longrightarrow> \<exists>n d'. ExecContext drv live
      (SetNotificationSent (c_id r) (c_title r) (c_start_at r) (c_user_id r) (c_notify_before_ns r) w) d = (Inr n, d')"
    and select_answers: "usable t \<Longrightarrow> \<exists>rs. QueryContext drv live (SelectDue t k) d = Inr (Rows (map Inr rs) None)"
    and finite_table: "finite (dom (tab d))"

sublocale healthy_scheduler \<subseteq> quiet: quiet_world "sql_env drv st mar (undisturbed clock wake)" w_sent
  "\<lambda>w. tab (w_db w)" ts due "\<lambda>w. ready ts mar (tab (w_db w))" usable
proof (unfold_locales, goal_cases)
  case (1 w)
  then show ?case using finite_table by (simp add: ready_def)
next
  case (2 w i r s)
  then show ?case by (auto simp: ready_def sql_env_def)
next
  case 3
  then show ?case by (auto simp: sql_env_def)
next
  case 4
  then show ?case by (simp add: sql_env_def)
next
  case (5 w t e2 w')
  obtain n d where x: "ExecContext drv live (DeleteEventsStartedBefore t) (w_db w) = (Inr n, d)"
    using purge_answers 5(3) by blast
  then have "DeleteEventsBefore drv live t (st, w_db w) = (None, st, d)"
    using connection 5(2) by (auto simp: DeleteEventsBefore_def database_def)
  with 5 exec_ok [OF x] show ?case by (auto simp: sql_env_def ready_purged)
next
  case (6 w t k l w')
  obtain rs where "QueryContext drv live (SelectDue t k) (w_db w) = Inr (Rows (map Inr rs) None)"
    using select_answers 6(3) by blast
  then obtain es where es: "ListEventsForNotification drv live t k (st, w_db w) = Inr es"
    using connection 6(2,4) by (auto simp: ListEventsForNotification_def database_def scanEvents_Inr split: sum.splits)
  from 6(5) es have "l = Inr es" "w' = next_call (undisturbed clock wake) w" by (auto simp: sql_env_def)
  with 6(1) due_contract [OF es] show ?case unfolding due_events_def by simp
next
  case (7 w key payload e5 w')
  then show ?case by (auto simp: sql_env_def)
next
  case (8 w t ev m w')
  have cal: "calendar_of_table (tab (w_db w)) (ID ev) = Some ev" using 8(4) by (simp add: calendar_of_table_def)
  have "TimeEqual (c_start_at (row_of ev)) (ts (c_start_at (row_of ev)))"
    using 8(1,4) unfolding ready_def by blast
  then have fit: "TimeEqual (StartAt ev) (ts (StartAt ev))" by (simp add: row_of_def)
  have snap: "unsent_snapshot ts (tab (w_db w)) ev (row_of ev)"
    using 8(4) fit by (simp add: unsent_snapshot_def row_of_def)
  have valid: "valid_event ev" using 8(1) calendar_okD(1) cal by (auto simp: ready_def)
  obtain n d where x: "ExecContext drv live (SetNotificationSent (ID ev) (Title ev) (StartAt ev) (UserID ev)
      (NotifyBefore ev) t) (w_db w) = (Inr n, d)"
    using mark_answers [OF 8(3,4)] by (auto simp: row_of_def)
  from mark_accepts [OF valid 8(2) connection x snap] 8 show ?case
    by (auto simp: sql_env_def ready_mark)
qed

context healthy_scheduler
begin

lemma cycle_result:
  assumes "ready ts mar (tab (w_db w))"
    and "\<not> IsZero now" "0 < BatchSize cfg" "\<not> IsZero (AddDate now (- RetentionYears cfg) 0 0)"
    and "usable now" "usable (AddDate now (- RetentionYears cfg) 0 0)"
  shows "\<exists>w' es. RunOnce (sql_env drv st mar (undisturbed clock wake)) cfg now w = Some (None, w') \<and>
    distinct es \<and>
    set es = due_events due (purged (tab (w_db w)) (ts (AddDate now (- RetentionYears cfg) 0 0))) (ts now) \<and>
    w_sent w' = w_sent w @ map (message_of mar) es \<and>
    tab (w_db w') = marked (purged (tab (w_db w)) (ts (AddDate now (- RetentionYears cfg) 0 0))) (set es) (ts now)"
  using quiet.RunOnce_quiet [OF assms] by auto

lemma cycle_again:
  assumes "ready ts mar (tab (w_db w))"
    and "\<not> IsZero now" "0 < BatchSize cfg" "\<not> IsZero (AddDate now (- RetentionYears cfg) 0 0)"
    and "usable now" "usable (AddDate now (- RetentionYears cfg) 0 0)"
    and "RunOnce (sql_env drv st mar (undisturbed clock wake)) cfg now w = Some (r, w')"
  shows "\<exists>w''. RunOnce (sql_env drv st mar (undisturbed clock wake)) cfg now w' = Some (None, w'') \<and>
    w_sent w'' = w_sent w' \<and> tab (w_db w'') = tab (w_db w')"
  using quiet.RunOnce_again_sends_nothing [OF assms] by auto

end

lemma pg_answers:
  "\<exists>n d'. ExecContext pg_driver live (DeleteEventsStartedBefore c) d = (Inr n, d')"
  "\<exists>n d'. ExecContext pg_driver live (SetNotificationSent i title a u k w) d = (Inr n, d')"
  "\<exists>rs. QueryContext pg_driver live q d = Inr (Rows (map Inr rs) None)"
  by (auto simp: pg_exec_cases Let_def split: option.splits)

interpretation pg_sched: healthy_scheduler pg_driver pg_tab "\<lambda>d. map_of (nt_rows d)" pg_ts pg_due mar clock wake
  connected usable for mar clock wake usable
  by unfold_locales (use pg_answers in \<open>auto simp: connected_def pg_tab_def finite_dom_map_of\<close>)

subsection \<open>Properties\<close>

text \<open>
  C5: The scheduler delivers at least once. Whatever the database, the broker, the context and concurrent API
  clients do, and however often cycles are cut short by errors: when \<open>Run\<close> returns, every event that is marked as notified has a
  message the broker acknowledged, under the event's identifier and with the serialised title, start and user the
  event has now.
\<close>

theorem scheduler_marks_only_published:
  assumes "postgres drv tab saved ts due" "lawful_ctx su" "no_foreign_marks tab su"
    and "accounted ts mar (tab (w_db w)) (set (w_sent w))"
    and "RunScheduler (sql_env drv st mar su) cfg w = Some (r, w')"
  shows "accounted ts mar (tab (w_db w')) (set (w_sent w'))"
proof -
  have "scheduler_on_sql drv tab saved ts due su (\<lambda>_. True)"
    using assms(1-3) by (simp add: scheduler_on_sql_def scheduler_on_sql_axioms_def rows_ok_def)
  then show ?thesis
    using scheduler_on_sql.scheduler_accounted [of drv tab saved ts due su "\<lambda>_. True"] assms(4,5) unfolding accounted_by_True by blast
qed

definition daily :: SchedConfig where
  "daily = \<lparr>Interval = 60 * second, BatchSize = 1, RetentionYears = 1\<rparr>"

definition plain_payload :: "Notification \<Rightarrow> error + string" where
  "plain_payload n = Inr (n_EventID n @ '':'' @ n_Title n)"

definition one_tick :: "nat \<Rightarrow> wakeup" where
  "one_tick n = (if n < 15 then Tick else CtxDone)"

definition calm_world :: "pg surroundings" where
  "calm_world = undisturbed (\<lambda>_. at_minute 20) one_tick"

definition later_standup :: Event where
  "later_standup = standup\<lparr>Title := ''late standup'', StartAt := at_minute 32\<rparr>"

text \<open>An API client that updates the event between two calls of the scheduler.\<close>

definition busy_world :: "pg surroundings" where
  "busy_world = calm_world\<lparr>s_others := (\<lambda>n d.
     if n = 5 then snd (snd (SqlUpdateEvent pg_driver live later_standup (connected, d))) else d)\<rparr>"

lemma busy_world_lawful: "lawful_ctx busy_world" "no_foreign_marks pg_tab busy_world"
proof -
  show "lawful_ctx busy_world" by (simp add: lawful_ctx_def busy_world_def calm_world_def undisturbed_def)
  have "marks_from (pg_tab d) (pg_tab (s_others busy_world n d))" for n d
    using pg.api_marks_nothing(2) [OF ctx_law_live, of later_standup "(connected, d)"]
    by (simp add: busy_world_def marks_from_refl) (metis prod.collapse snd_conv)
  then show "no_foreign_marks pg_tab busy_world" unfolding no_foreign_marks_def marks_from_def by blast
qed

definition fresh_world :: "pg \<Rightarrow> pg sched_world" where
  "fresh_world d = \<lparr>w_db = d, w_sent = [], w_published = [], w_cycles = [], w_running = False, w_log = [], w_calls = 0\<rparr>"

lemma calm_world_lawful: "lawful_ctx calm_world" "no_foreign_marks pg_tab calm_world"
  by (simp_all add: lawful_ctx_def no_foreign_marks_def calm_world_def undisturbed_def)

theorem scheduler_marks_only_published_witness:
  "\<exists>w'. RunScheduler (sql_env pg_driver connected plain_payload busy_world) daily (fresh_world pg_one) = Some (None, w') \<and>
     accounted pg_ts plain_payload (pg_tab (w_db w')) (set (w_sent w'))"
proof -
  have "map_option fst (RunScheduler (sql_env pg_driver connected plain_payload busy_world) daily (fresh_world pg_one)) = Some None"
    by code_simp
  then obtain w' where run:
    "RunScheduler (sql_env pg_driver connected plain_payload busy_world) daily (fresh_world pg_one) = Some (None, w')"
    by auto
  have "accounted pg_ts plain_payload (pg_tab (w_db (fresh_world pg_one))) (set (w_sent (fresh_world pg_one)))"
    by (simp add: accounted_def fresh_world_def pg_one_def pg_tab_def)
  from scheduler_marks_only_published [OF pg.postgres_axioms busy_world_lawful this run] run
  show ?thesis by blast
qed

text \<open>
  C6: When the database answers (to statements with the times it can use), the broker acknowledges and nobody else writes, a
  cycle returns without an error for every positive batch size: it removes exactly the events that started before the retention cutoff, sends exactly one message for
  every remaining event that is due and not yet notified, and marks exactly these.
\<close>

theorem cycle_notifies_all_due:
  assumes "healthy_scheduler drv tab saved ts due st usable" "ready ts mar (tab (w_db w))"
    and "\<not> IsZero now" "0 < BatchSize cfg" "\<not> IsZero (AddDate now (- RetentionYears cfg) 0 0)"
    and "usable now" "usable (AddDate now (- RetentionYears cfg) 0 0)"
  shows "\<exists>w' es. RunOnce (sql_env drv st mar (undisturbed clock wake)) cfg now w = Some (None, w') \<and>
    distinct es \<and>
    set es = due_events due (purged (tab (w_db w)) (ts (AddDate now (- RetentionYears cfg) 0 0))) (ts now) \<and>
    w_sent w' = w_sent w @ map (message_of mar) es \<and>
    tab (w_db w') = marked (purged (tab (w_db w)) (ts (AddDate now (- RetentionYears cfg) 0 0))) (set es) (ts now)"
  using healthy_scheduler.cycle_result [OF assms] by blast

text \<open>
  A second cycle at the same time returns without an error, sends no message and leaves the table as it is: no
  event is notified twice when nothing fails.
\<close>

theorem cycle_repeated_sends_nothing:
  assumes "healthy_scheduler drv tab saved ts due st usable" "ready ts mar (tab (w_db w))"
    and "\<not> IsZero now" "0 < BatchSize cfg" "\<not> IsZero (AddDate now (- RetentionYears cfg) 0 0)"
    and "usable now" "usable (AddDate now (- RetentionYears cfg) 0 0)"
    and "RunOnce (sql_env drv st mar (undisturbed clock wake)) cfg now w = Some (r, w')"
  shows "\<exists>w''. RunOnce (sql_env drv st mar (undisturbed clock wake)) cfg now w' = Some (None, w'') \<and>
    w_sent w'' = w_sent w' \<and> tab (w_db w'') = tab (w_db w')"
  using healthy_scheduler.cycle_again [OF assms] by blast

definition demo :: Event where
  "demo = \<lparr>ID = ''c'', Title = ''demo'', StartAt = at_minute 90, EndAt = at_minute 95,
     Description = '''', UserID = ''u'', NotifyBefore = 80 * 60 * second\<rparr>"

definition pg_two :: pg where
  "pg_two = \<lparr>ev_rows = [(''a'', row_of standup, None), (''c'', row_of demo, None)], nt_rows = []\<rparr>"

lemma ready_pg_two: "ready pg_ts plain_payload (pg_tab pg_two)"
proof -
  have rows: "pg_tab pg_two i = Some (r, s) \<longleftrightarrow> s = None \<and> (i = ''a'' \<and> r = row_of standup \<or> i = ''c'' \<and> r = row_of demo)" for i r s
    by (auto simp: pg_two_def pg_tab_def)
  have cal: "calendar_of_table (pg_tab pg_two) i = Some e \<longleftrightarrow> i = ''a'' \<and> e = standup \<or> i = ''c'' \<and> e = demo" for i e
    by (auto simp: calendar_of_table_def rows)
  have "valid_event standup" "valid_event demo" "ID standup = ''a''" "ID demo = ''c''" "\<not> clash standup demo" "\<not> clash demo standup"
    "TimeEqual (StartAt standup) (pg_ts (StartAt standup))" "TimeEqual (StartAt demo) (pg_ts (StartAt demo))"
    by code_simp+
  then show ?thesis
    unfolding ready_def calendar_ok_def cal rows by (auto simp: row_of_def plain_payload_def)
qed

lemma calm_times:
  "\<not> IsZero (at_minute 20)" "0 < BatchSize daily" "\<not> IsZero (AddDate (at_minute 20) (- RetentionYears daily) 0 0)"
  by code_simp+

theorem cycle_notifies_all_due_witness:
  "\<exists>w' es. RunOnce (sql_env pg_driver connected plain_payload calm_world) daily (at_minute 20) (fresh_world pg_two) = Some (None, w') \<and>
     distinct es \<and> w_sent w' = map (message_of plain_payload) es \<and> w_sent w' = [(''a'', ''a:standup''), (''c'', ''c:demo'')]"
proof -
  let ?run = "RunOnce (sql_env pg_driver connected plain_payload calm_world) daily (at_minute 20) (fresh_world pg_two)"
  have t: "w_db (fresh_world pg_two) = pg_two" "w_sent (fresh_world pg_two) = []" by (simp_all add: fresh_world_def)
  have run: "map_option (\<lambda>(r, w). w_sent w) ?run = Some [(''a'', ''a:standup''), (''c'', ''c:demo'')]"
    by code_simp
  obtain w' es where w': "?run = Some (None, w')" "distinct es" "w_sent w' = map (message_of plain_payload) es"
    using cycle_notifies_all_due [OF pg_sched.healthy_scheduler_axioms [of "\<lambda>_. True"], of plain_payload "fresh_world pg_two", unfolded t,
        OF ready_pg_two calm_times TrueI TrueI, of "\<lambda>_. at_minute 20" one_tick, folded calm_world_def] by auto
  have "w_sent w' = [(''a'', ''a:standup''), (''c'', ''c:demo'')]" using run w'(1) by simp
  with w' show ?thesis by blast
qed

theorem cycle_repeated_sends_nothing_witness:
  "\<exists>w' w''. RunOnce (sql_env pg_driver connected plain_payload calm_world) daily (at_minute 20) (fresh_world pg_two) = Some (None, w') \<and>
     RunOnce (sql_env pg_driver connected plain_payload calm_world) daily (at_minute 20) w' = Some (None, w'') \<and>
     w_sent w'' = w_sent w'"
proof -
  let ?run = "RunOnce (sql_env pg_driver connected plain_payload calm_world) daily (at_minute 20) (fresh_world pg_two)"
  have t: "w_db (fresh_world pg_two) = pg_two" by (simp add: fresh_world_def)
  have "map_option fst ?run = Some None" by code_simp
  then obtain w' where w': "?run = Some (None, w')" by auto
  show ?thesis
    using cycle_repeated_sends_nothing [OF pg_sched.healthy_scheduler_axioms [of "\<lambda>_. True"], of plain_payload "fresh_world pg_two", unfolded t,
        OF ready_pg_two calm_times TrueI TrueI, of "\<lambda>_. at_minute 20" one_tick, folded calm_world_def, OF w'] w' by auto
qed

end
