(* ===== verification/Kafka.thy ===== *)
theory Kafka
  imports Calendar_Event
begin

text \<open>
  The Kafka adapters of \<open>internal/kafka\<close>: waiting for the broker with exponential backoff (\<open>retry.go\<close>), creation and
  probing of the topic (\<open>topic.go\<close>), the synchronous producer and the consumer with explicit commits.

  The package \<open>segmentio/kafka-go\<close> is outside the sources: its client, dialer, writer and reader are
  operations on a world \<open>'w\<close>, given as arguments. A loop that may wait forever is a partial function.
\<close>

subsection \<open>Retrying with backoff\<close>

text \<open>A \<open>*permanentRetryError\<close> is told apart from every other error of an operation.\<close>

datatype op_error = Transient error | PermanentRetry error

definition withoutRetry :: "error \<Rightarrow> op_error" where
  "withoutRetry err = PermanentRetry err"

text \<open>Durations are \<open>int64\<close>; subtraction and doubling wrap around.\<close>

definition nextBackoff :: "int \<Rightarrow> int \<Rightarrow> int" where
  "nextBackoff current maximum =
     (if current \<ge> maximum \<or> current > wrap64 (maximum - current) then maximum
      else wrap64 (current * 2))"

datatype retry_entry = Retrying string op_error int

record 'w retry_env =
  r_ctx_err :: "'w \<Rightarrow> error option \<times> 'w"
  r_logger :: "(retry_entry \<Rightarrow> 'w \<Rightarrow> 'w) option"
  r_operation :: "'w \<Rightarrow> op_error option \<times> 'w"
  r_wait :: "int \<Rightarrow> 'w \<Rightarrow> error option \<times> 'w"

definition log_retry :: "'w retry_env \<Rightarrow> retry_entry \<Rightarrow> 'w \<Rightarrow> 'w" where
  "log_retry env entry w = (case r_logger env of None \<Rightarrow> w | Some log \<Rightarrow> log entry w)"

partial_function (option) retry_loop ::
  "'w retry_env \<Rightarrow> int \<Rightarrow> string \<Rightarrow> int \<Rightarrow> 'w \<Rightarrow> (error option \<times> 'w) option" where
  "retry_loop env retryMax description backoff w =
     (case r_ctx_err env w of
        (Some err, w) \<Rightarrow> Some (Some err, w)
      | (None, w) \<Rightarrow>
     (case r_operation env w of
        (None, w) \<Rightarrow> Some (None, w)
      | (Some err, w) \<Rightarrow>
     (case r_ctx_err env w of
        (Some _, w) \<Rightarrow> Some (r_ctx_err env w)
      | (None, w) \<Rightarrow>
     (case err of
        PermanentRetry cause \<Rightarrow> Some (Some cause, w)
      | Transient _ \<Rightarrow>
     (case r_wait env backoff (log_retry env (Retrying description err backoff) w) of
        (Some err, w) \<Rightarrow> Some (Some err, w)
      | (None, w) \<Rightarrow> retry_loop env retryMax description (nextBackoff backoff retryMax) w)))))"

definition retryWithBackoff ::
  "'w retry_env \<Rightarrow> int \<Rightarrow> int \<Rightarrow> string \<Rightarrow> 'w \<Rightarrow> (error option \<times> 'w) option" where
  "retryWithBackoff env retryInitial retryMax description = retry_loop env retryMax description retryInitial"

definition validateRetryConfig :: "string list \<Rightarrow> int \<Rightarrow> int \<Rightarrow> int \<Rightarrow> error option" where
  "validateRetryConfig brokers dialTimeout retryInitial retryMax =
     (if length brokers = 0 then Some (Err (Errorf [Lit ''kafka brokers are empty'']))
      else if list_ex blank brokers then Some (Err (Errorf [Lit ''kafka broker address is empty'']))
      else if dialTimeout \<le> 0 then Some (Err (Errorf [Lit ''kafka dial timeout must be positive'']))
      else if retryInitial \<le> 0 then Some (Err (Errorf [Lit ''kafka initial retry backoff must be positive'']))
      else if retryMax < retryInitial
      then Some (Err (Errorf [Lit ''kafka maximum retry backoff must not be less than the initial backoff'']))
      else None)"

text \<open>\<open>waitForRetry\<close>: whichever of the context and the timer is ready first; the choice is the parameter.\<close>

definition waitForRetry :: "('w \<Rightarrow> bool \<times> 'w) \<Rightarrow> ('w \<Rightarrow> error option \<times> 'w) \<Rightarrow> 'w \<Rightarrow> error option \<times> 'w" where
  "waitForRetry done_first ctx_err w =
     (case done_first w of (True, w) \<Rightarrow> ctx_err w | (False, w) \<Rightarrow> (None, w))"

subsection \<open>The topic\<close>

definition topicPartitions :: int where "topicPartitions = 1"
definition topicReplicationFactor :: int where "topicReplicationFactor = 1"
definition maxTopicNameLength :: nat where "maxTopicNameLength = 249"

record ('w, 'conn) kafka_client =
  CreateTopics :: "string \<Rightarrow> int \<Rightarrow> int \<Rightarrow> 'w \<Rightarrow> (error + (string \<rightharpoonup> error) option) \<times> 'w"
  DialLeader :: "string \<Rightarrow> string \<Rightarrow> 'w \<Rightarrow> (error + 'conn) \<times> 'w"
  CloseConn :: "'conn \<Rightarrow> 'w \<Rightarrow> error option \<times> 'w"
  TopicAlreadyExists :: int
  Temporary :: "int \<Rightarrow> bool"

definition createTopic :: "('w, 'conn) kafka_client \<Rightarrow> string \<Rightarrow> 'w \<Rightarrow> error option \<times> 'w" where
  "createTopic client topic w =
     (case CreateTopics client topic topicPartitions topicReplicationFactor w of
        (Inl err, w) \<Rightarrow> (Some (Wrap [Lit ''create Kafka topic''] err), w)
      | (Inr None, w) \<Rightarrow> (Some (Err (Errorf [Lit ''create Kafka topic: empty response''])), w)
      | (Inr (Some errs), w) \<Rightarrow>
          (case errs topic of
             Some topicErr \<Rightarrow>
               if \<not> errors_is topicErr (KafkaError (TopicAlreadyExists client))
               then (Some (Wrap [Lit ''create Kafka topic '', Quoted topic] topicErr), w)
               else (None, w)
           | None \<Rightarrow> (None, w)))"

text \<open>\<open>probeTopic\<close> dials one broker after the other; \<open>last\<close> is \<open>lastErr\<close>.\<close>

fun probe_loop ::
  "('w, 'conn) kafka_client \<Rightarrow> ('w \<Rightarrow> error option \<times> 'w) \<Rightarrow> string \<Rightarrow> string list \<Rightarrow> error option \<Rightarrow> 'w
    \<Rightarrow> error option \<times> 'w" where
  "probe_loop client ctx_err topic [] lastErr w =
     (Some (case lastErr of None \<Rightarrow> Err (Errorf [Lit ''dial Kafka topic leader: %!w(<nil>)''])
            | Some err \<Rightarrow> Wrap [Lit ''dial Kafka topic leader''] err), w)"
| "probe_loop client ctx_err topic (broker # brokers) lastErr w =
     (case ctx_err w of
        (Some err, w) \<Rightarrow> (Some err, w)
      | (None, w) \<Rightarrow>
     (case DialLeader client broker topic w of
        (Inl err, w) \<Rightarrow> probe_loop client ctx_err topic brokers (Some err) w
      | (Inr connection, w) \<Rightarrow>
     (case CloseConn client connection w of
        (Some err, w) \<Rightarrow> (Some (Wrap [Lit ''close Kafka topic probe connection''] err), w)
      | (None, w) \<Rightarrow> (None, w))))"

definition probeTopic ::
  "('w, 'conn) kafka_client \<Rightarrow> ('w \<Rightarrow> error option \<times> 'w) \<Rightarrow> string list \<Rightarrow> string \<Rightarrow> 'w \<Rightarrow> error option \<times> 'w" where
  "probeTopic client ctx_err brokers topic = probe_loop client ctx_err topic brokers None"

fun kafka_code :: "error \<Rightarrow> int option" where
  "kafka_code (Err (KafkaError c)) = Some c"
| "kafka_code (Err _) = None"
| "kafka_code (Wrap _ e) = kafka_code e"

definition classifyTopicError :: "('w, 'conn) kafka_client \<Rightarrow> error \<Rightarrow> op_error" where
  "classifyTopicError client err =
     (case kafka_code err of
        Some code \<Rightarrow> if \<not> Temporary client code then withoutRetry err else Transient err
      | None \<Rightarrow> Transient err)"

definition topic_operation ::
  "('w, 'conn) kafka_client \<Rightarrow> string \<Rightarrow> ('w \<Rightarrow> error option \<times> 'w) \<Rightarrow> 'w \<Rightarrow> op_error option \<times> 'w" where
  "topic_operation client topic probe w =
     (case createTopic client topic w of
        (Some err, w) \<Rightarrow> (Some (classifyTopicError client err), w)
      | (None, w) \<Rightarrow>
     (case probe w of
        (Some err, w) \<Rightarrow> (Some (classifyTopicError client err), w)
      | (None, w) \<Rightarrow> (None, w)))"

definition ensureTopic ::
  "('w \<Rightarrow> error option \<times> 'w) \<Rightarrow> string \<Rightarrow> int \<Rightarrow> int \<Rightarrow> (retry_entry \<Rightarrow> 'w \<Rightarrow> 'w) option \<Rightarrow> ('w, 'conn) kafka_client
    \<Rightarrow> ('w \<Rightarrow> error option \<times> 'w) \<Rightarrow> (int \<Rightarrow> 'w \<Rightarrow> error option \<times> 'w) \<Rightarrow> 'w \<Rightarrow> (error option \<times> 'w) option" where
  "ensureTopic ctx_err topic retryInitial retryMax logger client probe wait =
     retryWithBackoff
       \<lparr>r_ctx_err = ctx_err, r_logger = logger, r_operation = topic_operation client topic probe, r_wait = wait\<rparr>
       retryInitial retryMax ''Kafka topic is unavailable''"

definition isTopicNameByte :: "char \<Rightarrow> bool" where
  "isTopicNameByte value \<longleftrightarrow>
     value \<ge> CHR ''a'' \<and> value \<le> CHR ''z'' \<or> value \<ge> CHR ''A'' \<and> value \<le> CHR ''Z'' \<or>
     value \<ge> CHR ''0'' \<and> value \<le> CHR ''9'' \<or> value = CHR ''.'' \<or> value = CHR ''_'' \<or> value = CHR ''-''"

definition validateTopicName :: "string \<Rightarrow> error option" where
  "validateTopicName topic =
     (if blank topic then Some (Err (Errorf [Lit ''kafka topic is empty'']))
      else if length topic > maxTopicNameLength
      then Some (Err (Errorf [Lit ''kafka topic exceeds '', Num (int maxTopicNameLength), Lit '' bytes'']))
      else if topic = ''.'' \<or> topic = ''..'' then Some (Err (Errorf [Lit ''kafka topic '', Quoted topic, Lit '' is reserved'']))
      else case find (\<lambda>b. \<not> isTopicNameByte b) topic of
        Some b \<Rightarrow> Some (Err (Errorf [Lit ''kafka topic contains invalid character '', Quoted [b]]))
      | None \<Rightarrow> None)"

definition EnsureTopic ::
  "('w \<Rightarrow> error option \<times> 'w) \<Rightarrow> string list \<Rightarrow> string \<Rightarrow> int \<Rightarrow> int \<Rightarrow> int \<Rightarrow> (retry_entry \<Rightarrow> 'w \<Rightarrow> 'w) option
    \<Rightarrow> ('w, 'conn) kafka_client \<Rightarrow> ('w \<Rightarrow> bool \<times> 'w) \<Rightarrow> 'w \<Rightarrow> (error option \<times> 'w) option" where
  "EnsureTopic ctx_err brokers topic dialTimeout retryInitial retryMax logger client done_first w =
     (case validateTopicName topic of Some err \<Rightarrow> Some (Some err, w) | None \<Rightarrow>
      case validateRetryConfig brokers dialTimeout retryInitial retryMax of Some err \<Rightarrow> Some (Some err, w) | None \<Rightarrow>
      ensureTopic ctx_err topic retryInitial retryMax logger client
        (probeTopic client ctx_err brokers topic) (\<lambda>_. waitForRetry done_first ctx_err) w)"

subsection \<open>Producer and consumer\<close>

record kafka_message =
  MsgKey :: string
  MsgValue :: string
  MsgOffset :: nat

record 'w messageWriter =
  WriteMessages :: "string \<Rightarrow> string \<Rightarrow> 'w \<Rightarrow> error option \<times> 'w"
  CloseWriter :: "'w \<Rightarrow> error option \<times> 'w"

text \<open>
  The constructors hand a configuration to the client library, which is an argument: a writer that sends every message at once and
  waits for all replicas (\<open>RequireAll\<close>), and a reader that starts at the first offset and commits synchronously.
\<close>

record WriterConfig =
  wc_Addr :: "string list"
  wc_Topic :: string
  wc_Balancer :: string
  wc_BatchSize :: int
  wc_WriteTimeout :: int
  wc_RequiredAcks :: int
  wc_Async :: bool

definition RequireAll :: int where "RequireAll = -1"

definition NewProducer :: "(WriterConfig \<Rightarrow> 'w messageWriter) \<Rightarrow> string list \<Rightarrow> string \<Rightarrow> int \<Rightarrow> 'w messageWriter" where
  "NewProducer new_writer brokers topic writeTimeout =
     new_writer \<lparr>wc_Addr = brokers, wc_Topic = topic, wc_Balancer = ''hash'', wc_BatchSize = 1, wc_WriteTimeout = writeTimeout,
       wc_RequiredAcks = RequireAll, wc_Async = False\<rparr>"

definition ProducerSend ::
  "'w messageWriter \<Rightarrow> ('w \<Rightarrow> error option \<times> 'w) \<Rightarrow> string \<Rightarrow> string \<Rightarrow> 'w \<Rightarrow> error option \<times> 'w" where
  "ProducerSend writer ctx_err key val w =
     (case ctx_err w of
        (Some err, w) \<Rightarrow> (Some err, w)
      | (None, w) \<Rightarrow>
     (case WriteMessages writer key val w of
        (Some err, w) \<Rightarrow> (Some (Wrap [Lit ''write Kafka message''] err), w)
      | (None, w) \<Rightarrow> (None, w)))"

definition ProducerClose :: "'w messageWriter \<Rightarrow> 'w \<Rightarrow> error option \<times> 'w" where
  "ProducerClose writer w =
     (case CloseWriter writer w of
        (Some err, w) \<Rightarrow> (Some (Wrap [Lit ''close Kafka writer''] err), w)
      | (None, w) \<Rightarrow> (None, w))"

record 'w messageReader =
  FetchMessage :: "'w \<Rightarrow> (error + kafka_message) \<times> 'w"
  CommitMessages :: "kafka_message \<Rightarrow> 'w \<Rightarrow> error option \<times> 'w"
  CloseReader :: "'w \<Rightarrow> error option \<times> 'w"

record ReaderConfig =
  rc_Brokers :: "string list"
  rc_Topic :: string
  rc_GroupID :: string
  rc_StartOffset :: int
  rc_CommitInterval :: int
  rc_MaxBytes :: int

definition FirstOffset :: int where "FirstOffset = -2"

definition NewConsumer ::
  "(ReaderConfig \<Rightarrow> 'w messageReader) \<Rightarrow> string list \<Rightarrow> string \<Rightarrow> string \<Rightarrow> int \<Rightarrow> 'w messageReader" where
  "NewConsumer new_reader brokers topic groupID maxBytes =
     new_reader \<lparr>rc_Brokers = brokers, rc_Topic = topic, rc_GroupID = groupID, rc_StartOffset = FirstOffset,
       rc_CommitInterval = 0, rc_MaxBytes = maxBytes\<rparr>"

text \<open>How a failed step of the loop ends it: silently when the context is done, with a wrapped error otherwise.\<close>

definition stop_on :: "('w \<Rightarrow> error option \<times> 'w) \<Rightarrow> string \<Rightarrow> error \<Rightarrow> 'w \<Rightarrow> error option \<times> 'w" where
  "stop_on ctx_err what err w =
     (case ctx_err w of (Some _, w) \<Rightarrow> (None, w) | (None, w) \<Rightarrow> (Some (Wrap [Lit what] err), w))"

partial_function (option) consume_loop ::
  "'w messageReader \<Rightarrow> ('w \<Rightarrow> error option \<times> 'w) \<Rightarrow> (string \<Rightarrow> 'w \<Rightarrow> error option \<times> 'w) \<Rightarrow> 'w
    \<Rightarrow> (error option \<times> 'w) option" where
  "consume_loop reader ctx_err handler w =
     (case FetchMessage reader w of
        (Inl err, w) \<Rightarrow> Some (stop_on ctx_err ''fetch Kafka message'' err w)
      | (Inr msg, w) \<Rightarrow>
     (case handler (MsgValue msg) w of
        (Some err, w) \<Rightarrow> Some (stop_on ctx_err ''handle Kafka message'' err w)
      | (None, w) \<Rightarrow>
     (case CommitMessages reader msg w of
        (Some err, w) \<Rightarrow> Some (stop_on ctx_err ''commit Kafka message'' err w)
      | (None, w) \<Rightarrow> consume_loop reader ctx_err handler w)))"

definition Consume ::
  "'w messageReader \<Rightarrow> ('w \<Rightarrow> error option \<times> 'w) \<Rightarrow> (string \<Rightarrow> 'w \<Rightarrow> error option \<times> 'w) option \<Rightarrow> 'w
    \<Rightarrow> (error option \<times> 'w) option" where
  "Consume reader ctx_err handler w =
     (case handler of
        None \<Rightarrow> Some (Some (Err (Errorf [Lit ''kafka message handler is nil''])), w)
      | Some h \<Rightarrow> consume_loop reader ctx_err h w)"

definition ConsumerClose :: "'w messageReader \<Rightarrow> 'w \<Rightarrow> error option \<times> 'w" where
  "ConsumerClose reader w =
     (case CloseReader reader w of
        (Some err, w) \<Rightarrow> (Some (Wrap [Lit ''close Kafka reader''] err), w)
      | (None, w) \<Rightarrow> (None, w))"

declare retry_loop.simps [code] consume_loop.simps [code]

subsection \<open>The backoff\<close>

lemma nextBackoff_min:
  assumes "0 < current" "current \<le> maximum" "in_int64 maximum"
  shows "nextBackoff current maximum = min (2 * current) maximum"
proof -
  have "in_int64 (maximum - current)"
    using assms by (auto simp: in_int64_def min_int64_def max_int64_def)
  moreover have "in_int64 (current * 2)" if "current \<le> maximum - current"
    using assms that by (auto simp: in_int64_def min_int64_def max_int64_def)
  ultimately show ?thesis
    using assms by (auto simp: nextBackoff_def not_less)
qed

definition backoffs :: "int \<Rightarrow> int \<Rightarrow> nat \<Rightarrow> int list" where
  "backoffs initial maximum n = map (\<lambda>i. min (initial * 2 ^ i) maximum) [0..<n]"

lemma backoffs_Suc:
  assumes "0 < b" "b \<le> m"
  shows "backoffs b m (Suc n) = b # backoffs (min (2 * b) m) m n"
proof -
  have "min (b * 2 ^ Suc i) m = min (min (2 * b) m * 2 ^ i) m" for i
  proof (cases "2 * b \<le> m")
    case True
    then show ?thesis by (simp add: ac_simps)
  next
    case False
    moreover have "1 \<le> (2::int) ^ i" by simp
    ultimately have "m \<le> m * 2 ^ i" "m \<le> 2 * b * 2 ^ i"
      using assms by (auto intro: mult_le_cancel_left1 [THEN iffD2] order_trans [OF less_imp_le, of m "2 * b"])
    with False show ?thesis by (simp add: min_def ac_simps)
  qed
  then show ?thesis
    using assms by (simp add: backoffs_def map_upt_Suc del: upt_Suc)
qed

text \<open>
  \<open>retry_world\<close>: nobody cancels the context. \<open>script\<close> are the outcomes the next calls of the operation
  have, \<open>waits\<close> the delays waited so far.
\<close>

locale retry_world =
  fixes env :: "'w retry_env"
    and script :: "'w \<Rightarrow> op_error option list"
    and waits :: "'w \<Rightarrow> int list"
  assumes ctx_live: "r_ctx_err env w = (e, w') \<Longrightarrow> e = None \<and> script w' = script w \<and> waits w' = waits w"
    and operation: "script w = x # xs \<Longrightarrow> r_operation env w = (y, w') \<Longrightarrow> y = x \<and> script w' = xs \<and> waits w' = waits w"
    and waiting: "r_wait env t w = (e, w') \<Longrightarrow> e = None \<and> script w' = script w \<and> waits w' = waits w @ [t]"
    and logging: "script (log_retry env entry w) = script w \<and> waits (log_retry env entry w) = waits w"
begin

lemma retry_loop_schedule:
  assumes "script w = map (Some \<circ> Transient) es @ x # rest" "\<forall>e. x \<noteq> Some (Transient e)"
    and "0 < b" "b \<le> m" "in_int64 m"
  shows "\<exists>w'. retry_loop env m d b w = Some (case x of Some (PermanentRetry c) \<Rightarrow> Some c | _ \<Rightarrow> None, w') \<and>
    waits w' = waits w @ backoffs b m (length es) \<and> script w' = rest"
  using assms(1,3,4)
proof (induction es arbitrary: w b)
  case Nil
  obtain e w1 where c: "r_ctx_err env w = (e, w1)" by fastforce
  note w1 = ctx_live [OF c]
  obtain y w2 where o: "r_operation env w1 = (y, w2)" by fastforce
  have w2: "y = x" "script w2 = rest" "waits w2 = waits w"
    using operation [OF _ o, of x rest] w1 Nil.prems(1) by simp_all
  obtain e3 w3 where c3: "r_ctx_err env w2 = (e3, w3)" by fastforce
  note w3 = ctx_live [OF c3]
  show ?case
    using w1 w2 w3 c o c3 assms(2)
    by (auto simp: retry_loop.simps [of env m d b w] backoffs_def split: option.splits op_error.splits)
next
  case (Cons t es)
  obtain e w1 where c: "r_ctx_err env w = (e, w1)" by fastforce
  note w1 = ctx_live [OF c]
  obtain y w2 where o: "r_operation env w1 = (y, w2)" by fastforce
  have w2: "y = Some (Transient t)" "script w2 = map (Some \<circ> Transient) es @ x # rest" "waits w2 = waits w"
    using operation [OF _ o, of "Some (Transient t)" "map (Some \<circ> Transient) es @ x # rest"] w1 Cons.prems(1) by simp_all
  obtain e3 w3 where c3: "r_ctx_err env w2 = (e3, w3)" by fastforce
  note w3 = ctx_live [OF c3]
  let ?w4 = "log_retry env (Retrying d (Transient t) b) w3"
  obtain e5 w5 where wt: "r_wait env b ?w4 = (e5, w5)" by fastforce
  note w5 = waiting [OF wt] logging [of "Retrying d (Transient t) b" w3]
  have nb: "nextBackoff b m = min (2 * b) m"
    using nextBackoff_min Cons.prems assms(5) by simp
  have "script w5 = map (Some \<circ> Transient) es @ x # rest" "waits w5 = waits w @ [b]"
    using w5 w3 w2 by simp_all
  moreover have "retry_loop env m d b w = retry_loop env m d (min (2 * b) m) w5"
    using w1 w2 w3 w5 c o c3 wt by (simp add: retry_loop.simps [of env m d b w] nb)
  ultimately show ?case
    using Cons.IH [of w5 "min (2 * b) m"] Cons.prems backoffs_Suc [of b m "length es"] by auto
qed

end

subsection \<open>Topic names\<close>

text \<open>ASCII letters, digits, full stop, underscore and hyphen, by their codes.\<close>

definition topic_bytes :: "char set" where
  "topic_bytes = {c. (of_char c :: nat) \<in> {97..122} \<union> {65..90} \<union> {48..57} \<union> {45, 46, 95}}"

lemma isTopicNameByte_iff: "isTopicNameByte c \<longleftrightarrow> c \<in> topic_bytes"
proof -
  have eq: "c = d \<longleftrightarrow> (of_char c :: nat) = of_char d" for d :: char by simp
  show ?thesis
    unfolding isTopicNameByte_def topic_bytes_def less_eq_char_def eq [of "CHR ''.''"] eq [of "CHR ''_''"] eq [of "CHR ''-''"]
    by auto
qed

lemma go_spaces_ends: "p \<in> set go_spaces \<Longrightarrow> p \<noteq> [] \<and> hd p \<notin> topic_bytes \<and> last p \<notin> topic_bytes"
proof -
  have "list_all (\<lambda>p. p \<noteq> [] \<and> hd p \<notin> topic_bytes \<and> last p \<notin> topic_bytes) go_spaces"
    unfolding go_spaces_def by (simp add: topic_bytes_def)
  then show "p \<in> set go_spaces \<Longrightarrow> ?thesis" by (simp add: list_all_iff)
qed

lemma topic_bytes_not_space:
  assumes "c \<in> topic_bytes"
  shows "space_width (c # s) = 0 \<and> space_width_back (s @ [c]) = 0"
proof -
  have "\<not> prefix p (c # s)" if "p \<in> set go_spaces" for p
    using go_spaces_ends [OF that] assms by (cases p) auto
  moreover have "\<not> prefix (rev p) (c # rev s)" if "p \<in> set go_spaces" for p
    using go_spaces_ends [OF that] assms by (cases p rule: rev_cases) auto
  ultimately have "find (\<lambda>p. prefix p (c # s)) go_spaces = None" "find (\<lambda>p. prefix (rev p) (rev (s @ [c]))) go_spaces = None"
    by (auto simp: find_None_iff)
  then show ?thesis unfolding space_width_def space_width_back_def by simp
qed

lemma topic_not_blank:
  assumes "t \<noteq> []" "set t \<subseteq> topic_bytes"
  shows "\<not> blank t"
proof -
  obtain c s where t: "t = c # s" using assms(1) by (cases t) auto
  then have "trim_left t = t" using topic_bytes_not_space assms(2) by (subst trim_left.simps) simp
  moreover obtain d r where "t = r @ [d]" using assms(1) by (cases t rule: rev_cases) auto
  then have "trim_right t = t" using topic_bytes_not_space assms(2) by (subst trim_right.simps) auto
  ultimately show ?thesis using assms(1) by (simp add: blank_def TrimSpace_def)
qed

subsection \<open>What the consumer commits\<close>

text \<open>
  \<open>partition\<close>: the reader delivers the messages of the one partition in order of their offsets, from \<open>pos\<close> on; a commit
  that fails may have taken effect. \<open>handled\<close> is what a successful handler establishes for the message at an offset, and what
  neither another call nor the handling of a later message undoes.
\<close>

locale partition =
  fixes reader :: "'w messageReader"
    and ctx_err :: "'w \<Rightarrow> error option \<times> 'w"
    and handler :: "string \<Rightarrow> 'w \<Rightarrow> error option \<times> 'w"
    and pos committed :: "'w \<Rightarrow> nat"
    and payload :: "nat \<Rightarrow> string"
    and handled :: "'w \<Rightarrow> nat \<Rightarrow> bool"
  assumes fetch: "FetchMessage reader w = (r, w') \<Longrightarrow> committed w' = committed w \<and>
      (case r of Inl _ \<Rightarrow> pos w' = pos w
       | Inr m \<Rightarrow> MsgOffset m = pos w \<and> MsgValue m = payload (pos w) \<and> pos w' = Suc (pos w))"
    and handle: "pos w = Suc k \<Longrightarrow> handler (payload k) w = (e, w') \<Longrightarrow>
      committed w' = committed w \<and> pos w' = pos w \<and> (e = None \<longrightarrow> handled w' k)"
    and commit: "CommitMessages reader m w = (e, w') \<Longrightarrow> pos w' = pos w \<and>
      (committed w' = Suc (MsgOffset m) \<or> e \<noteq> None \<and> committed w' = committed w)"
    and poll: "ctx_err w = (e, w') \<Longrightarrow> committed w' = committed w \<and> pos w' = pos w"
    and handled_stays: "FetchMessage reader w = (r, w') \<or> CommitMessages reader m w = (e, w') \<or> ctx_err w = (e, w') \<Longrightarrow>
      handled w k \<Longrightarrow> handled w' k"
    and handled_kept: "pos w = Suc j \<Longrightarrow> handler (payload j) w = (e, w') \<Longrightarrow> k \<le> j \<Longrightarrow> handled w k \<Longrightarrow> handled w' k"
begin

lemma stays:
  assumes "handled w k"
  shows "FetchMessage reader w = (r, w') \<Longrightarrow> handled w' k" "CommitMessages reader m w = (e, w') \<Longrightarrow> handled w' k"
    "ctx_err w = (e, w') \<Longrightarrow> handled w' k"
  using handled_stays [of w r w' m e k] assms by blast+

text \<open>At the head of the loop every delivered message was handled and committed.\<close>

definition caught_up :: "'w \<Rightarrow> bool" where
  "caught_up w \<longleftrightarrow> committed w = pos w \<and> (\<forall>k < pos w. handled w k)"

definition no_loss :: "'w \<Rightarrow> bool" where
  "no_loss w \<longleftrightarrow> (\<forall>k < committed w. handled w k)"

lemma stop_on_no_loss:
  assumes "no_loss w" "stop_on ctx_err what err w = (r, w')"
  shows "no_loss w' \<and> committed w' = committed w"
proof -
  obtain e w1 where c: "ctx_err w = (e, w1)" by fastforce
  then have "w' = w1" using assms(2) by (auto simp: stop_on_def split: option.splits)
  with poll [OF c] stays(3) [OF _ c] assms(1) show ?thesis unfolding no_loss_def by auto
qed

text \<open>Fetching and handling the next message: the older ones stay handled, and it is itself, unless the handler failed.\<close>

lemma handled_next:
  assumes "caught_up w" "FetchMessage reader w = (Inr m, w1)" "handler (MsgValue m) w1 = (e, w2)"
  shows "MsgOffset m = pos w" "pos w2 = Suc (pos w)" "committed w2 = pos w" "k < pos w \<Longrightarrow> handled w2 k"
    "e = None \<Longrightarrow> k \<le> pos w \<Longrightarrow> handled w2 k"
proof -
  have m: "MsgOffset m = pos w" "MsgValue m = payload (pos w)" "pos w1 = Suc (pos w)" "committed w1 = pos w"
    using fetch [OF assms(2)] assms(1) by (auto simp: caught_up_def)
  note h = assms(3) [unfolded m(2)]
  show "MsgOffset m = pos w" "pos w2 = Suc (pos w)" "committed w2 = pos w" using m handle [OF m(3) h] by simp_all
  show old: "handled w2 k" if "k < pos w" for k
  proof -
    have "handled w k" using assms(1) that by (simp add: caught_up_def)
    then have "handled w1 k" using stays(1) [OF _ assms(2)] by blast
    then show ?thesis using handled_kept [OF m(3) h] that by simp
  qed
  show "handled w2 k" if "e = None" "k \<le> pos w"
    using old handle [OF m(3) h] that by (cases "k = pos w") auto
qed

lemma step_caught_up:
  assumes "caught_up w" "FetchMessage reader w = (Inr m, w1)" "handler (MsgValue m) w1 = (None, w2)"
    and "CommitMessages reader m w2 = (None, w3)"
  shows "caught_up w3 \<and> committed w3 = Suc (committed w)"
proof -
  note n = handled_next [OF assms(1-3)]
  have p: "pos w3 = Suc (pos w)" "committed w3 = Suc (pos w)" using commit [OF assms(4)] n by auto
  have "handled w3 k" if "k < Suc (pos w)" for k
    using n(5) [OF refl] stays(2) [OF _ assms(4)] that by (simp add: less_Suc_eq_le)
  with p assms(1) show ?thesis by (simp add: caught_up_def)
qed

lemma failed_step_no_loss:
  assumes "caught_up w"
  shows "FetchMessage reader w = (Inl e, w') \<Longrightarrow> no_loss w' \<and> committed w' = committed w"
    and "FetchMessage reader w = (Inr m, w1) \<Longrightarrow> handler (MsgValue m) w1 = (Some e, w') \<Longrightarrow>
      no_loss w' \<and> committed w' = committed w"
    and "FetchMessage reader w = (Inr m, w1) \<Longrightarrow> handler (MsgValue m) w1 = (None, w2) \<Longrightarrow>
      CommitMessages reader m w2 = (Some e, w') \<Longrightarrow> no_loss w' \<and> committed w \<le> committed w'"
proof -
  have old: "\<forall>k < committed w. handled w k" using assms by (simp add: caught_up_def)
  show "no_loss w' \<and> committed w' = committed w" if "FetchMessage reader w = (Inl e, w')"
    using fetch [OF that] stays(1) [OF _ that] old unfolding no_loss_def by auto
  show "no_loss w' \<and> committed w' = committed w"
    if f: "FetchMessage reader w = (Inr m, w1)" and h: "handler (MsgValue m) w1 = (Some e, w')"
    using handled_next(3,4) [OF assms f h] assms by (auto simp: no_loss_def caught_up_def)
  show "no_loss w' \<and> committed w \<le> committed w'"
    if f: "FetchMessage reader w = (Inr m, w1)" and h: "handler (MsgValue m) w1 = (None, w2)"
      and c: "CommitMessages reader m w2 = (Some e, w')"
  proof -
    note n = handled_next [OF assms f h]
    have "handled w' k" if "k \<le> pos w" for k
      using n(5) [OF refl that] stays(2) [OF _ c] by blast
    with commit [OF c] n(1,3) assms show ?thesis by (auto simp: no_loss_def caught_up_def less_Suc_eq_le)
  qed
qed

lemma consume_loop_no_loss:
  assumes "consume_loop reader ctx_err handler w = Some (r, w')" "caught_up w"
  shows "no_loss w' \<and> committed w \<le> committed w'"
proof -
  have "rd = reader \<and> ce = ctx_err \<and> h = handler \<longrightarrow> caught_up w \<longrightarrow> no_loss (snd res) \<and> committed w \<le> committed (snd res)"
    if "consume_loop rd ce h w = Some res" for rd ce h res
    using that
  proof (induction rule: consume_loop.raw_induct [rotated, consumes 1, case_names step])
    case (step loop rd ce h w res)
    show ?case
    proof (intro impI, elim conjE)
      assume eq: "rd = reader" "ce = ctx_err" "h = handler" and w: "caught_up w"
      obtain f w1 where f: "FetchMessage reader w = (f, w1)" by fastforce
      show "no_loss (snd res) \<and> committed w \<le> committed (snd res)"
      proof (cases f)
        case (Inl e)
        then show ?thesis
          using step(2) failed_step_no_loss(1) [OF w] f stop_on_no_loss [of w1 "''fetch Kafka message''" e]
          by (cases res) (auto simp: eq)
      next
        case (Inr m)
        obtain g w2 where g: "handler (MsgValue m) w1 = (g, w2)" by fastforce
        obtain c w3 where c: "CommitMessages reader m w2 = (c, w3)" by fastforce
        show ?thesis
        proof (cases g)
          case (Some e)
          then show ?thesis
            using step(2) failed_step_no_loss(2) [OF w] f g Inr stop_on_no_loss [of w2 "''handle Kafka message''" e]
            by (cases res) (auto simp: eq)
        next
          case None
          show ?thesis
          proof (cases c)
            case (Some e)
            then show ?thesis
              using step(2) failed_step_no_loss(3) [OF w] f g c Inr None stop_on_no_loss [of w3 "''commit Kafka message''" e]
              by (cases res) (auto simp: eq)
          next
            case c_ok: None
            have w3: "caught_up w3 \<and> committed w3 = Suc (committed w)"
              using step_caught_up [OF w] f g c Inr None c_ok by blast
            have "loop reader ctx_err handler w3 = Some res"
              using step(2) f g c Inr None c_ok by (simp add: eq)
            from step(1) [OF this] w3 show ?thesis by auto
          qed
        qed
      qed
    qed
  qed
  from this [OF assms(1)] assms(2) show ?thesis by simp
qed

end

subsection \<open>A broker that comes up late\<close>

text \<open>
  The world of \<open>ensureTopic\<close> on one broker: for each coming attempt what \<open>CreateTopics\<close> and then
  \<open>DialLeader\<close> answer, the delays waited and the log.
\<close>

record broker_world =
  attempts :: "(error option \<times> error option) list"
  delays :: "int list"
  retry_log :: "retry_entry list"

definition broker_client :: "int \<Rightarrow> (int \<Rightarrow> bool) \<Rightarrow> (broker_world, unit) kafka_client" where
  "broker_client exists_code temp = \<lparr>
     CreateTopics = (\<lambda>_ _ _ w. case attempts w of
         (Some e, _) # rest \<Rightarrow> (Inl e, w\<lparr>attempts := rest\<rparr>)
       | _ \<Rightarrow> (Inr (Some Map.empty), w)),
     DialLeader = (\<lambda>_ _ w. case attempts w of
         (_, Some e) # rest \<Rightarrow> (Inl e, w\<lparr>attempts := rest\<rparr>)
       | (_, None) # rest \<Rightarrow> (Inr (), w\<lparr>attempts := rest\<rparr>)
       | [] \<Rightarrow> (Inr (), w)),
     CloseConn = (\<lambda>_ w. (None, w)),
     TopicAlreadyExists = exists_code,
     Temporary = temp\<rparr>"

definition attempt_outcome :: "(broker_world, unit) kafka_client \<Rightarrow> error option \<times> error option \<Rightarrow> op_error option" where
  "attempt_outcome client a =
     (case a of
        (Some e, _) \<Rightarrow> Some (classifyTopicError client (Wrap [Lit ''create Kafka topic''] e))
      | (None, Some e) \<Rightarrow> Some (classifyTopicError client (Wrap [Lit ''dial Kafka topic leader''] e))
      | (None, None) \<Rightarrow> None)"

definition topic_env :: "int \<Rightarrow> (int \<Rightarrow> bool) \<Rightarrow> string \<Rightarrow> string \<Rightarrow> broker_world retry_env" where
  "topic_env exists_code temp broker topic =
     \<lparr>r_ctx_err = (\<lambda>w. (None, w)),
      r_logger = Some (\<lambda>e w. w\<lparr>retry_log := retry_log w @ [e]\<rparr>),
      r_operation = topic_operation (broker_client exists_code temp) topic
        (probeTopic (broker_client exists_code temp) (\<lambda>w. (None, w)) [broker] topic),
      r_wait = (\<lambda>t w. (None, w\<lparr>delays := delays w @ [t]\<rparr>))\<rparr>"

interpretation topic_retry: retry_world "topic_env x temp b t"
  "\<lambda>w. map (attempt_outcome (broker_client x temp)) (attempts w)" delays for x temp b t
proof (unfold_locales, goal_cases)
  case (2 w o1 os y w')
  then show ?case
    by (auto simp: topic_env_def topic_operation_def createTopic_def probeTopic_def broker_client_def attempt_outcome_def
        split: option.splits prod.splits list.splits)
qed (auto simp: topic_env_def log_retry_def)

subsection \<open>Properties\<close>

text \<open>
  C27: Retrying waits with exponential backoff and gives up only for a reason. In an environment where nobody cancels, an operation
  that fails transiently any number of times and then succeeds or fails permanently makes \<open>retryWithBackoff\<close> return
  that result, after waiting exactly the initial backoff doubled each time and capped at the maximum, without
  overflow of the 64-bit durations.
\<close>

theorem retry_backoff_schedule:
  assumes "retry_world env script waits" "validateRetryConfig brokers timeout initial maximum = None" "in_int64 maximum"
    and "script w = map (Some \<circ> Transient) errs @ x # rest" "\<forall>e. x \<noteq> Some (Transient e)"
  shows "\<exists>w'. retryWithBackoff env initial maximum description w =
      Some (case x of Some (PermanentRetry cause) \<Rightarrow> Some cause | _ \<Rightarrow> None, w') \<and>
    waits w' = waits w @ map (\<lambda>i. min (initial * 2 ^ i) maximum) [0..<length errs] \<and>
    script w' = rest"
proof -
  have "0 < initial" "initial \<le> maximum"
    using assms(2) by (auto simp: validateRetryConfig_def split: if_splits)
  from retry_world.retry_loop_schedule [OF assms(1,4,5) this assms(3)] show ?thesis
    by (simp add: retryWithBackoff_def backoffs_def)
qed

definition late_broker :: broker_world where
  "late_broker = \<lparr>attempts = [(Some (Err (LibError ''refused'')), None), (Some (Err (LibError ''refused'')), None),
     (None, Some (Err (KafkaError 5))), (None, None)], delays = [], retry_log = []\<rparr>"

theorem retry_backoff_schedule_witness:
  "\<exists>w'. retryWithBackoff (topic_env 36 (\<lambda>c. c = 5) ''localhost:9092'' ''notifications'') 100 300 ''d'' late_broker = Some (None, w') \<and>
    delays w' = [100, 200, 300]"
proof -
  let ?c = "broker_client 36 (\<lambda>c. c = 5)"
  let ?errs = "[Wrap [Lit ''create Kafka topic''] (Err (LibError ''refused'')),
    Wrap [Lit ''create Kafka topic''] (Err (LibError ''refused'')), Wrap [Lit ''dial Kafka topic leader''] (Err (KafkaError 5))]"
  have s: "map (attempt_outcome ?c) (attempts late_broker) = map (Some \<circ> Transient) ?errs @ None # []"
    by (simp add: late_broker_def attempt_outcome_def classifyTopicError_def broker_client_def)
  have v: "validateRetryConfig [''localhost:9092''] 1 100 300 = None" by code_simp
  have m: "in_int64 300" by code_simp
  show ?thesis
    using retry_backoff_schedule [OF topic_retry.retry_world_axioms v m s, of "''localhost:9092''" "''notifications''" "''d''"]
    by (auto simp: late_broker_def upt_rec)
qed

text \<open>
  \<open>validateTopicName\<close> accepts exactly the names Kafka allows: 1 to 249 bytes, all of them ASCII letters,
  digits, full stops, underscores or hyphens, and neither of the two reserved names.
\<close>

theorem topic_name_valid_iff:
  "validateTopicName t = None \<longleftrightarrow>
     t \<noteq> [] \<and> length t \<le> 249 \<and> set t \<subseteq> topic_bytes \<and> t \<noteq> ''.'' \<and> t \<noteq> ''..''"
  using topic_not_blank [of t]
  by (auto simp: validateTopicName_def maxTopicNameLength_def isTopicNameByte_iff find_None_iff find_Some_iff
      split: option.splits if_splits dest: nth_mem)

end
