(* ===== verification/Notification_Storer.thy ===== *)
theory Notification_Storer
  imports Sql_Storage Kafka
begin

text \<open>
  The storer of \<open>internal/storer/storer.go\<close>: it consumes the messages the scheduler sent, decodes and validates each
  and saves the notification. The decoder of \<open>encoding/json\<close> is the parameter \<open>json_decoder\<close>: what
  \<open>Decode\<close> gives for the notification and what is left of the input, and what a second \<open>Decode\<close> says of the rest.
\<close>

subsection \<open>Decoding\<close>

record json_decoder =
  DecodeFirst :: "string \<Rightarrow> error + Notification \<times> string"
  DecodeTrailing :: "string \<Rightarrow> error option"

definition decodeNotification :: "json_decoder \<Rightarrow> string \<Rightarrow> error + Notification" where
  "decodeNotification js payload =
     (case DecodeFirst js payload of
        Inl err \<Rightarrow> Inl (Wrap [Lit ''decode notification''] err)
      | Inr (val, rest) \<Rightarrow>
     (case DecodeTrailing js rest of
        None \<Rightarrow> Inl (Wrap [Lit ''decode notification''] (Err (Errorf [Lit ''payload contains more than one JSON value''])))
      | Some err \<Rightarrow>
          if \<not> errors_is err EOF then Inl (Wrap [Lit ''decode notification''] err)
          else
     (case ValidateNotification val of
        Some err \<Rightarrow> Inl (Wrap [Lit ''validate notification''] err)
      | None \<Rightarrow> Inr val)))"

subsection \<open>Handling a message\<close>

record 'w storer_env =
  st_ctx_err :: "'w \<Rightarrow> error option \<times> 'w"
  st_save :: "Notification \<Rightarrow> 'w \<Rightarrow> error option \<times> 'w"
  st_log :: "message \<Rightarrow> error \<Rightarrow> 'w \<Rightarrow> 'w"
  st_now :: "'w \<Rightarrow> Time \<times> 'w"
  SetStorerRunning :: "bool \<Rightarrow> 'w \<Rightarrow> 'w"
  ObserveNotificationStored :: "bool \<Rightarrow> Time \<Rightarrow> 'w \<Rightarrow> 'w"
  ObserveInvalidNotification :: "'w \<Rightarrow> 'w"

definition validNotification :: "json_decoder \<Rightarrow> 'w storer_env \<Rightarrow> string \<Rightarrow> 'w \<Rightarrow> Notification option \<times> 'w" where
  "validNotification js env payload w =
     (case decodeNotification js payload of
        Inl err \<Rightarrow> (None, st_log env [Lit ''skipping invalid notification payload: ''] err w)
      | Inr val \<Rightarrow> (Some val, w))"

text \<open>\<open>errors.Is(err, ctx.Err())\<close>: false while the context is live.\<close>

definition storer_handle :: "json_decoder \<Rightarrow> 'w storer_env \<Rightarrow> string \<Rightarrow> 'w \<Rightarrow> error option \<times> 'w" where
  "storer_handle js env payload w =
     (case validNotification js env payload w of
        (None, w) \<Rightarrow> (None, ObserveInvalidNotification env w)
      | (Some val, w) \<Rightarrow>
     (case st_save env val w of
        (None, w) \<Rightarrow> (case st_now env w of (t, w) \<Rightarrow> (None, ObserveNotificationStored env True t w))
      | (Some err, w) \<Rightarrow>
     (case st_ctx_err env w of
        (Some c, w) \<Rightarrow>
          if errors_is err (root_cause c) then (Some err, w)
          else (case st_now env w of (t, w) \<Rightarrow> (Some err, ObserveNotificationStored env False t w))
      | (None, w) \<Rightarrow> (case st_now env w of (t, w) \<Rightarrow> (Some err, ObserveNotificationStored env False t w)))))"

record ('c, 's, 'l, 'm) Storer =
  sto_consumer :: 'c
  sto_storage :: 's
  sto_logger :: 'l
  sto_metrics :: "'m option"

definition storer_firstMetrics :: "'m option list \<Rightarrow> 'm option" where
  "storer_firstMetrics values = (case values of [] \<Rightarrow> None | None # _ \<Rightarrow> None | Some v # _ \<Rightarrow> Some v)"

definition NewStorer ::
  "'c option \<Rightarrow> 's option \<Rightarrow> 'l option \<Rightarrow> 'm option list \<Rightarrow> error + ('c, 's, 'l, 'm) Storer" where
  "NewStorer consumer storage logger metrics =
     (case consumer of None \<Rightarrow> Inl (Err (Errorf [Lit ''storer consumer is nil''])) | Some c \<Rightarrow>
      case storage of None \<Rightarrow> Inl (Err (Errorf [Lit ''storer storage is nil''])) | Some s \<Rightarrow>
      case logger of None \<Rightarrow> Inl (Err (Errorf [Lit ''storer logger is nil''])) | Some l \<Rightarrow>
        Inr \<lparr>sto_consumer = c, sto_storage = s, sto_logger = l, sto_metrics = storer_firstMetrics metrics\<rparr>)"

definition RunStorer ::
  "json_decoder \<Rightarrow> 'w storer_env \<Rightarrow> 'w messageReader \<Rightarrow> 'w \<Rightarrow> (error option \<times> 'w) option" where
  "RunStorer js env reader w =
     map_option (\<lambda>(r, w). (r, SetStorerRunning env False w))
       (Consume reader (st_ctx_err env) (Some (storer_handle js env)) (SetStorerRunning env True w))"

subsection \<open>The storer on the SQL storage\<close>

text \<open>
  The world of the deployed storer: the database, the fetch position and the committed offset of its consumer group on the one
  partition, what the metrics and the log received, and a counter of the calls. How the context, the reader and the clock
  answer at each call are parameters; a failing commit may have taken effect.
\<close>

record 'd storer_world =
  v_db :: 'd
  v_pos :: nat
  v_committed :: nat
  v_stored :: "bool list"
  v_invalid :: nat
  v_running :: bool
  v_log :: "(message \<times> error) list"
  v_calls :: nat

datatype commit_answer = CommitOk | CommitLost error | CommitUnknown error

record storer_surroundings =
  u_ctx :: "nat \<Rightarrow> cctx"
  u_fetch :: "nat \<Rightarrow> nat \<Rightarrow> error option"
  u_commit :: "nat \<Rightarrow> commit_answer"
  u_clock :: "nat \<Rightarrow> Time"

definition counted :: "'d storer_world \<Rightarrow> 'd storer_world" where
  "counted w = w\<lparr>v_calls := Suc (v_calls w)\<rparr>"

definition sql_storer_env :: "'d driver \<Rightarrow> 'h SqlStorage \<Rightarrow> storer_surroundings \<Rightarrow> 'd storer_world storer_env" where
  "sql_storer_env drv st su = \<lparr>
     st_ctx_err = (\<lambda>w. (u_ctx su (v_calls w) 0, counted w)),
     st_save = (\<lambda>n w. case SaveNotification drv (u_ctx su (v_calls w)) n (st, v_db w) of
        (r, _, d) \<Rightarrow> (r, counted (w\<lparr>v_db := d\<rparr>))),
     st_log = (\<lambda>m e w. w\<lparr>v_log := v_log w @ [(m, e)]\<rparr>),
     st_now = (\<lambda>w. (u_clock su (v_calls w), counted w)),
     SetStorerRunning = (\<lambda>b w. w\<lparr>v_running := b\<rparr>),
     ObserveNotificationStored = (\<lambda>b t w. w\<lparr>v_stored := v_stored w @ [b]\<rparr>),
     ObserveInvalidNotification = (\<lambda>w. w\<lparr>v_invalid := Suc (v_invalid w)\<rparr>)\<rparr>"

definition partition_reader :: "(nat \<Rightarrow> string \<times> string) \<Rightarrow> storer_surroundings \<Rightarrow> 'd storer_world messageReader" where
  "partition_reader msgs su = \<lparr>
     FetchMessage = (\<lambda>w. case u_fetch su (v_calls w) (v_pos w) of
         Some e \<Rightarrow> (Inl e, counted w)
       | None \<Rightarrow> (Inr \<lparr>MsgKey = fst (msgs (v_pos w)), MsgValue = snd (msgs (v_pos w)), MsgOffset = v_pos w\<rparr>,
                  counted (w\<lparr>v_pos := Suc (v_pos w)\<rparr>))),
     CommitMessages = (\<lambda>m w. case u_commit su (v_calls w) of
         CommitOk \<Rightarrow> (None, counted (w\<lparr>v_committed := Suc (MsgOffset m)\<rparr>))
       | CommitLost e \<Rightarrow> (Some e, counted w)
       | CommitUnknown e \<Rightarrow> (Some e, counted (w\<lparr>v_committed := Suc (MsgOffset m)\<rparr>))),
     CloseReader = (\<lambda>w. (None, w))\<rparr>"

text \<open>
  What handling a message has achieved for good: it is not a valid notification, or its event's row in \<open>notifications\<close> is the
  notification of this message, or of a later one for the same event that was delivered (below the offset \<open>pos\<close>).
\<close>

definition settled ::
  "json_decoder \<Rightarrow> (Time \<Rightarrow> Time) \<Rightarrow> (nat \<Rightarrow> string) \<Rightarrow> nat \<Rightarrow> (string \<rightharpoonup> Notification) \<Rightarrow> nat \<Rightarrow> bool" where
  "settled js ts payload pos m k \<longleftrightarrow>
     (case decodeNotification js (payload k) of
        Inl _ \<Rightarrow> True
      | Inr n \<Rightarrow> \<exists>j n'. k \<le> j \<and> j < pos \<and> decodeNotification js (payload j) = Inr n' \<and> n_EventID n' = n_EventID n \<and>
          m (n_EventID n) = Some (n'\<lparr>n_EventAt := ts (n_EventAt n')\<rparr>))"

lemma settled_mono: "settled js ts payload pos m k \<Longrightarrow> pos \<le> pos' \<Longrightarrow> settled js ts payload pos' m k"
  by (fastforce simp: settled_def split: sum.splits)

lemma settled_save:
  assumes "settled js ts payload pos m k" "decodeNotification js (payload j) = Inr n" "k \<le> j" "j < pos"
  shows "settled js ts payload pos (m(n_EventID n \<mapsto> n\<lparr>n_EventAt := ts (n_EventAt n)\<rparr>)) k"
  using assms by (fastforce simp: settled_def split: sum.splits)

locale storer_on_sql = postgres +
  fixes js :: json_decoder
    and su :: storer_surroundings
    and st :: "'h SqlStorage"
    and msgs :: "nat \<Rightarrow> string \<times> string"
  assumes lawful: "ctx_law (u_ctx su n)"
begin

lemma save_step:
  assumes "st_save (sql_storer_env drv st su) n w = (r, w')"
  shows "v_pos w' = v_pos w \<and> v_committed w' = v_committed w \<and>
    (saved (v_db w') = (saved (v_db w))(n_EventID n \<mapsto> n\<lparr>n_EventAt := ts (n_EventAt n)\<rparr>) \<or> r \<noteq> None \<and> saved (v_db w') = saved (v_db w))"
proof -
  obtain s d where d: "SaveNotification drv (u_ctx su (v_calls w)) n (st, v_db w) = (r, s, d)"
      and w': "w' = counted (w\<lparr>v_db := d\<rparr>)"
    using assms by (auto simp: sql_storer_env_def split: prod.splits)
  show ?thesis using save_contract [OF lawful d] by (auto simp: w' counted_def)
qed

lemma env_steps:
  "st_ctx_err (sql_storer_env drv st su) w = (e, w') \<Longrightarrow> v_db w' = v_db w \<and> v_pos w' = v_pos w \<and> v_committed w' = v_committed w"
  "st_now (sql_storer_env drv st su) w = (t, w') \<Longrightarrow> v_db w' = v_db w \<and> v_pos w' = v_pos w \<and> v_committed w' = v_committed w"
  by (auto simp: sql_storer_env_def counted_def)

lemma env_observers [simp]:
  "v_db (st_log (sql_storer_env drv st su) m e w) = v_db w"
  "v_pos (st_log (sql_storer_env drv st su) m e w) = v_pos w"
  "v_committed (st_log (sql_storer_env drv st su) m e w) = v_committed w"
  "v_db (ObserveNotificationStored (sql_storer_env drv st su) b t w) = v_db w"
  "v_pos (ObserveNotificationStored (sql_storer_env drv st su) b t w) = v_pos w"
  "v_committed (ObserveNotificationStored (sql_storer_env drv st su) b t w) = v_committed w"
  "v_db (ObserveInvalidNotification (sql_storer_env drv st su) w) = v_db w"
  "v_pos (ObserveInvalidNotification (sql_storer_env drv st su) w) = v_pos w"
  "v_committed (ObserveInvalidNotification (sql_storer_env drv st su) w) = v_committed w"
  "v_db (SetStorerRunning (sql_storer_env drv st su) b w) = v_db w"
  "v_pos (SetStorerRunning (sql_storer_env drv st su) b w) = v_pos w"
  "v_committed (SetStorerRunning (sql_storer_env drv st su) b w) = v_committed w"
  by (simp_all add: sql_storer_env_def)

lemma handle_step:
  assumes "storer_handle js (sql_storer_env drv st su) p w = (r, w')"
  shows "v_pos w' = v_pos w \<and> v_committed w' = v_committed w \<and>
    (case decodeNotification js p of
       Inl _ \<Rightarrow> saved (v_db w') = saved (v_db w)
     | Inr n \<Rightarrow> saved (v_db w') = (saved (v_db w))(n_EventID n \<mapsto> n\<lparr>n_EventAt := ts (n_EventAt n)\<rparr>) \<or>
         r \<noteq> None \<and> saved (v_db w') = saved (v_db w))"
proof (cases "decodeNotification js p")
  case (Inl err)
  with assms show ?thesis by (auto simp: storer_handle_def validNotification_def)
next
  case (Inr n)
  let ?env = "sql_storer_env drv st su"
  obtain x w1 where x: "st_save ?env n w = (x, w1)" by fastforce
  obtain e w2 where e: "st_ctx_err ?env w1 = (e, w2)" by fastforce
  obtain t w3 where t: "st_now ?env w1 = (t, w3)" by fastforce
  obtain t' w4 where t': "st_now ?env w2 = (t', w4)" by fastforce
  show ?thesis
    using assms save_step [OF x] env_steps(1) [OF e] env_steps(2) [OF t] env_steps(2) [OF t']
    by (auto simp: storer_handle_def validNotification_def Inr x e t t' split: option.splits if_splits)
qed

lemma handle_settles:
  assumes "v_pos w = Suc k" "storer_handle js (sql_storer_env drv st su) (snd (msgs k)) w = (r, w')"
  defines "ok \<equiv> \<lambda>w. settled js ts (\<lambda>k. snd (msgs k)) (v_pos w) (saved (v_db w))"
  shows "r = None \<Longrightarrow> ok w' k" "i \<le> k \<Longrightarrow> ok w i \<Longrightarrow> ok w' i"
proof -
  note h = handle_step [OF assms(2)]
  show "r = None \<Longrightarrow> ok w' k"
    using h assms(1) by (auto simp: ok_def settled_def split: sum.splits)
  show "i \<le> k \<Longrightarrow> ok w i \<Longrightarrow> ok w' i"
    using h assms(1) settled_save [of js ts "\<lambda>k. snd (msgs k)" "v_pos w" "saved (v_db w)" i k]
    by (auto simp: ok_def split: sum.splits)
qed

end

sublocale storer_on_sql \<subseteq> part: partition "partition_reader msgs su" "st_ctx_err (sql_storer_env drv st su)"
  "storer_handle js (sql_storer_env drv st su)" v_pos v_committed "\<lambda>k. snd (msgs k)"
  "\<lambda>w. settled js ts (\<lambda>k. snd (msgs k)) (v_pos w) (saved (v_db w))"
proof (unfold_locales, goal_cases)
  case 1
  then show ?case by (auto simp: partition_reader_def counted_def split: option.splits)
next
  case (2 w k e w')
  then show ?case using handle_step [OF 2(2)] handle_settles(1) [OF 2] by auto
next
  case 3
  then show ?case by (auto simp: partition_reader_def counted_def split: commit_answer.splits)
next
  case 4
  then show ?case using env_steps(1) [OF 4] by blast
next
  case (5 w r w' m e k)
  from 5(1) have "saved (v_db w') = saved (v_db w) \<and> v_pos w \<le> v_pos w'"
    by (auto simp: partition_reader_def sql_storer_env_def counted_def split: option.splits commit_answer.splits)
  with 5(2) settled_mono show ?case by metis
next
  case (6 w j e w' k)
  then show ?case using handle_settles(2) [OF 6(1,2)] by blast
qed

context storer_on_sql
begin

lemma storer_no_loss:
  assumes "RunStorer js (sql_storer_env drv st su) (partition_reader msgs su) w = Some (r, w')"
    and "v_committed w = v_pos w" "\<forall>k < v_pos w. settled js ts (\<lambda>k. snd (msgs k)) (v_pos w) (saved (v_db w)) k"
  shows "v_committed w \<le> v_committed w' \<and>
    (\<forall>k < v_committed w'. settled js ts (\<lambda>k. snd (msgs k)) (v_pos w') (saved (v_db w')) k)"
proof -
  let ?w0 = "SetStorerRunning (sql_storer_env drv st su) True w"
  obtain w1 where "consume_loop (partition_reader msgs su) (st_ctx_err (sql_storer_env drv st su))
      (storer_handle js (sql_storer_env drv st su)) ?w0 = Some (r, w1)"
    and w': "w' = SetStorerRunning (sql_storer_env drv st su) False w1"
    using assms(1) by (auto simp: RunStorer_def Consume_def)
  moreover have "part.caught_up ?w0" using assms(2,3) by (simp add: part.caught_up_def)
  ultimately show ?thesis
    using part.consume_loop_no_loss [of ?w0 r w1] by (simp add: part.no_loss_def)
qed

end

subsection \<open>Draining the topic\<close>

text \<open>The specification of a drained topic: the valid messages are saved in order, the last one of an event wins.\<close>

definition save_all ::
  "json_decoder \<Rightarrow> (Time \<Rightarrow> Time) \<Rightarrow> string list \<Rightarrow> (string \<rightharpoonup> Notification) \<Rightarrow> (string \<rightharpoonup> Notification)" where
  "save_all js ts = fold (\<lambda>p m. case decodeNotification js p of
      Inl _ \<Rightarrow> m | Inr n \<Rightarrow> m(n_EventID n \<mapsto> n\<lparr>n_EventAt := ts (n_EventAt n)\<rparr>))"

text \<open>A live context, commits that succeed, and a reader that ends with \<open>e\<close> after \<open>k\<close> messages.\<close>

definition draining :: "nat \<Rightarrow> error \<Rightarrow> (nat \<Rightarrow> Time) \<Rightarrow> storer_surroundings" where
  "draining k e clock = \<lparr>u_ctx = (\<lambda>_. live), u_fetch = (\<lambda>_ p. if p < k then None else Some e),
     u_commit = (\<lambda>_. CommitOk), u_clock = clock\<rparr>"

locale healthy_storer = postgres +
  fixes st :: "'h SqlStorage"
  assumes connection: "db st \<noteq> None"
    and upsert_answers: "ValidateNotification v = None \<Longrightarrow> storable v \<Longrightarrow> \<exists>n d'. ExecContext drv live (UpsertNotification v) d = (Inr n, d')"
begin

lemma save_healthy:
  assumes "ValidateNotification n = None" "storable n"
  shows "\<exists>d'. SaveNotification drv live n (st, d) = (None, st, d') \<and>
    saved d' = (saved d)(n_EventID n \<mapsto> n\<lparr>n_EventAt := ts (n_EventAt n)\<rparr>)"
proof -
  obtain x d' where "ExecContext drv live (UpsertNotification n) d = (Inr x, d')"
    using upsert_answers [OF assms] by blast
  then have "SaveNotification drv live n (st, d) = (None, st, d')"
    using assms connection by (auto simp: SaveNotification_def database_def)
  with save_contract [OF ctx_law_live this] show ?thesis by simp
qed

lemma handle_healthy:
  assumes "\<And>n. decodeNotification js p = Inr n \<Longrightarrow> storable n"
  shows "\<exists>w'. storer_handle js (sql_storer_env drv st (draining k e clock)) p w = (None, w') \<and>
     v_pos w' = v_pos w \<and> v_committed w' = v_committed w \<and> saved (v_db w') = save_all js ts [p] (saved (v_db w))"
proof (cases "decodeNotification js p")
  case (Inl err)
  then show ?thesis
    by (auto simp: storer_handle_def validNotification_def sql_storer_env_def save_all_def)
next
  case (Inr n)
  then have "ValidateNotification n = None"
    by (auto simp: decodeNotification_def split: sum.splits option.splits if_splits prod.splits)
  from save_healthy [OF this assms [OF Inr], of "v_db w"] Inr show ?thesis
    by (auto simp: storer_handle_def validNotification_def sql_storer_env_def save_all_def draining_def counted_def)
qed

lemma consume_drains:
  fixes clock e js and ps :: "(string \<times> string) list"
  defines "su \<equiv> draining (length ps) e clock"
  defines "run \<equiv> consume_loop (partition_reader (\<lambda>k. ps ! k) su) (st_ctx_err (sql_storer_env drv st su))
    (storer_handle js (sql_storer_env drv st su))"
  assumes "v_pos w \<le> length ps" "v_committed w = v_pos w"
    and ok: "\<forall>p \<in> set ps. \<forall>n. decodeNotification js (snd p) = Inr n \<longrightarrow> storable n"
  shows "\<exists>w'. run w = Some (Some (Wrap [Lit ''fetch Kafka message''] e), w') \<and> v_committed w' = length ps \<and>
    saved (v_db w') = save_all js ts (map snd (drop (v_pos w) ps)) (saved (v_db w))"
  using assms(3,4)
proof (induction "length ps - v_pos w" arbitrary: w)
  case 0
  then show ?case
    by (simp add: run_def su_def consume_loop.simps partition_reader_def draining_def stop_on_def sql_storer_env_def
        counted_def save_all_def)
next
  case (Suc n)
  then have lt: "v_pos w < length ps" by simp
  let ?p = "ps ! v_pos w"
  let ?m = "\<lparr>MsgKey = fst ?p, MsgValue = snd ?p, MsgOffset = v_pos w\<rparr>"
  let ?w1 = "counted (w\<lparr>v_pos := Suc (v_pos w)\<rparr>)"
  have f: "FetchMessage (partition_reader (\<lambda>k. ps ! k) su) w = (Inr ?m, ?w1)"
    using lt by (simp add: partition_reader_def su_def draining_def)
  have "?p \<in> set ps" using lt by simp
  then have s: "\<And>n. decodeNotification js (snd ?p) = Inr n \<Longrightarrow> storable n" using ok by blast
  obtain w2 where h: "storer_handle js (sql_storer_env drv st su) (snd ?p) ?w1 = (None, w2)"
      and w2: "v_pos w2 = Suc (v_pos w)" "saved (v_db w2) = save_all js ts [snd ?p] (saved (v_db w))"
    using handle_healthy [OF s, where k = "length ps" and e = e and clock = clock and w = ?w1] by (auto simp: su_def counted_def)
  let ?w3 = "counted (w2\<lparr>v_committed := Suc (v_pos w)\<rparr>)"
  have c: "CommitMessages (partition_reader (\<lambda>k. ps ! k) su) ?m w2 = (None, ?w3)"
    by (simp add: partition_reader_def su_def draining_def)
  have step: "run w = run ?w3"
    by (simp add: run_def consume_loop.simps [of _ _ _ w] f h c)
  have w3: "v_pos ?w3 = Suc (v_pos w)" "v_committed ?w3 = Suc (v_pos w)" "v_db ?w3 = v_db w2"
    using w2 by (simp_all add: counted_def)
  have "drop (v_pos w) ps = ?p # drop (Suc (v_pos w)) ps" using lt by (simp add: Cons_nth_drop_Suc)
  moreover have "n = length ps - v_pos ?w3" using Suc.hyps(2) w3 by simp
  ultimately show ?case
    using Suc.hyps(1) [of ?w3] w3 w2 lt unfolding step by (simp add: save_all_def)
qed

lemma storer_drains:
  assumes "v_pos w = 0" "v_committed w = 0"
    and "\<forall>p \<in> set ps. \<forall>n. decodeNotification js (snd p) = Inr n \<longrightarrow> storable n"
  shows "\<exists>w'. RunStorer js (sql_storer_env drv st (draining (length ps) e clock))
      (partition_reader (\<lambda>k. ps ! k) (draining (length ps) e clock)) w = Some (Some (Wrap [Lit ''fetch Kafka message''] e), w') \<and>
    v_committed w' = length ps \<and> saved (v_db w') = save_all js ts (map snd ps) (saved (v_db w))"
  using consume_drains [of "SetStorerRunning (sql_storer_env drv st (draining (length ps) e clock)) True w" ps js e clock] assms
  by (auto simp: RunStorer_def Consume_def sql_storer_env_def)

end

interpretation pg_storer: healthy_storer pg_driver pg_tab "\<lambda>d. map_of (nt_rows d)" pg_ts pg_due connected
  by unfold_locales (auto simp: connected_def pg_exec_cases note_checks_valid)

subsection \<open>Properties\<close>

text \<open>
  C7: The storer never acknowledges a message it has not dealt with. However the reader, the database and the
  context fail, lost answers included, when \<open>Run\<close> returns, every message below the committed offset is either not a valid
  notification, or the row of its event in the database is the notification of that message or of a later delivered message for the
  same event; the committed offset never goes back.
\<close>

theorem storer_commits_only_settled:
  assumes "postgres drv tab saved ts due" "\<forall>n. ctx_law (u_ctx su n)"
    and "v_committed w = v_pos w" "\<forall>k < v_pos w. settled js ts (\<lambda>k. snd (msgs k)) (v_pos w) (saved (v_db w)) k"
    and "RunStorer js (sql_storer_env drv st su) (partition_reader msgs su) w = Some (r, w')"
  shows "v_committed w \<le> v_committed w' \<and>
    (\<forall>k < v_committed w'. settled js ts (\<lambda>k. snd (msgs k)) (v_pos w') (saved (v_db w')) k)"
proof -
  have "storer_on_sql drv tab saved ts due su"
    using assms(1,2) by (simp add: storer_on_sql_def storer_on_sql_axioms_def)
  then show ?thesis using storer_on_sql.storer_no_loss assms(3-5) by blast
qed

text \<open>
  C26: With a database that answers and a topic of finitely many messages whose texts and times a database can store, the storer
  processes all of them in order, commits past the last one, and the table of notifications is what saving the valid messages
  one after the other gives: invalid payloads are skipped and the last message of an event wins.
\<close>

theorem storer_drains_topic:
  assumes "healthy_storer drv tab saved ts due st" "v_pos w = 0" "v_committed w = 0"
    and "\<forall>p \<in> set ps. \<forall>n. decodeNotification js (snd p) = Inr n \<longrightarrow> storable n"
  shows "\<exists>w'. RunStorer js (sql_storer_env drv st (draining (length ps) e clock))
      (partition_reader (\<lambda>k. ps ! k) (draining (length ps) e clock)) w = Some (Some (Wrap [Lit ''fetch Kafka message''] e), w') \<and>
    v_committed w' = length ps \<and> saved (v_db w') = save_all js ts (map snd ps) (saved (v_db w))"
  using healthy_storer.storer_drains [OF assms] .

definition standup_note :: Notification where
  "standup_note = notification_of standup"

text \<open>A decoder that knows one payload; anything else is a syntax error.\<close>

definition small_json :: json_decoder where
  "small_json = \<lparr>
     DecodeFirst = (\<lambda>p. if p = ''{standup}'' then Inr (standup_note, []) else Inl (Err (LibError ''syntax error''))),
     DecodeTrailing = (\<lambda>rest. if rest = [] then Some (Err EOF) else None)\<rparr>"

definition idle_storer :: "pg \<Rightarrow> pg storer_world" where
  "idle_storer d = \<lparr>v_db = d, v_pos = 0, v_committed = 0, v_stored = [], v_invalid = 0, v_running = False, v_log = [], v_calls = 0\<rparr>"

definition two_messages :: "(string \<times> string) list" where
  "two_messages = [(''x'', ''garbage''), (''a'', ''{standup}'')]"

definition drain_two :: storer_surroundings where
  "drain_two = draining 2 (Err EOF) (\<lambda>_. at_minute 20)"

lemma standup_decoded:
  "decodeNotification small_json p = Inr n \<Longrightarrow> n = standup_note"
  "decodeNotification small_json ''{standup}'' = Inr standup_note"
proof -
  show "decodeNotification small_json ''{standup}'' = Inr standup_note" by code_simp
  show "n = standup_note" if "decodeNotification small_json p = Inr n"
    using that by (auto simp: decodeNotification_def small_json_def split: if_splits option.splits)
qed

theorem storer_commits_only_settled_witness:
  "\<exists>r w'. RunStorer small_json (sql_storer_env pg_driver connected drain_two) (partition_reader (\<lambda>k. two_messages ! k) drain_two)
      (idle_storer pg_one) = Some (r, w') \<and>
    v_committed w' = 2 \<and> map_of (nt_rows (v_db w')) ''a'' = Some (standup_note\<lparr>n_EventAt := pg_ts (n_EventAt standup_note)\<rparr>)"
proof -
  let ?run = "RunStorer small_json (sql_storer_env pg_driver connected drain_two) (partition_reader (\<lambda>k. two_messages ! k) drain_two)
      (idle_storer pg_one)"
  have "map_option (\<lambda>(r, w). v_committed w) ?run = Some 2" by code_simp
  then obtain r w' where run: "?run = Some (r, w')" "v_committed w' = 2" by auto
  have "\<forall>n. ctx_law (u_ctx drain_two n)" by (simp add: drain_two_def draining_def)
  from storer_commits_only_settled [OF pg.postgres_axioms this _ _ run(1)] run
  have "\<forall>k < 2. settled small_json pg_ts (\<lambda>k. snd (two_messages ! k)) (v_pos w') (map_of (nt_rows (v_db w'))) k"
    by (simp add: idle_storer_def)
  then have "settled small_json pg_ts (\<lambda>k. snd (two_messages ! k)) (v_pos w') (map_of (nt_rows (v_db w'))) 1" by simp
  moreover have "snd (two_messages ! 1) = ''{standup}''" "n_EventID standup_note = ''a''" by code_simp+
  ultimately have "map_of (nt_rows (v_db w')) ''a'' = Some (standup_note\<lparr>n_EventAt := pg_ts (n_EventAt standup_note)\<rparr>)"
    by (auto simp: settled_def standup_decoded(2) dest!: standup_decoded(1))
  with run show ?thesis by simp
qed

theorem storer_drains_topic_witness:
  "\<exists>r w'. RunStorer small_json (sql_storer_env pg_driver connected drain_two) (partition_reader (\<lambda>k. two_messages ! k) drain_two)
      (idle_storer pg_one) = Some (r, w') \<and>
    map_of (nt_rows (v_db w')) = [''a'' \<mapsto> standup_note]"
proof -
  have all: "save_all small_json pg_ts (map snd two_messages) (map_of (nt_rows (v_db (idle_storer pg_one)))) = [''a'' \<mapsto> standup_note]"
  proof -
    have "pg_ts (n_EventAt standup_note) = n_EventAt standup_note" "n_EventID standup_note = ''a''"
      "decodeNotification small_json ''{standup}'' = Inr standup_note"
      by code_simp+
    moreover have "decodeNotification small_json ''garbage'' = Inl (Wrap [Lit ''decode notification''] (Err (LibError ''syntax error'')))"
      by (simp add: decodeNotification_def small_json_def)
    ultimately show ?thesis
      by (simp add: save_all_def two_messages_def idle_storer_def pg_one_def)
  qed
  have "storable standup_note" by code_simp
  then have "\<forall>p \<in> set two_messages. \<forall>n. decodeNotification small_json (snd p) = Inr n \<longrightarrow> storable n"
    by (auto dest: standup_decoded(1))
  then show ?thesis
    using storer_drains_topic [OF pg_storer.healthy_storer_axioms, of "idle_storer pg_one" two_messages small_json "Err EOF" "\<lambda>_. at_minute 20"] all
    by (auto simp: idle_storer_def drain_two_def two_messages_def numeral_2_eq_2)
qed

end
