(* ===== verification/Linked_List.thy ===== *)
theory Linked_List
  imports Go_Prelude "HOL-Library.Monad_Syntax"
begin

text \<open>
  The doubly linked list of \<open>hw04_lru_cache/list.go\<close>, on an explicit heap: a pointer is \<open>addr option\<close> (\<open>None\<close> is \<open>nil\<close>),
  an item is a cell of the heap, and every operation is the sequence of reads and writes of the
  source. An operation that would dereference \<open>nil\<close> yields \<open>None\<close>, the panic of Go.

  The representation predicate \<open>linked\<close> relates a state to the list of its items' addresses; the locale
  \<open>go_list\<close> is the interface \<open>List\<close> with the laws its clients rely on, and the implementation interprets it.
\<close>

subsection \<open>Heap and operations\<close>

type_synonym addr = nat

record 'v ListItem =
  Value :: 'v
  Next :: "addr option"
  Prev :: "addr option"

record 'v list_state =
  heap :: "addr \<rightharpoonup> 'v ListItem"
  fresh :: addr
  l_length :: int
  l_front :: "addr option"
  l_back :: "addr option"

definition NewList :: "'v list_state" where
  "NewList = \<lparr>heap = Map.empty, fresh = 0, l_length = 0, l_front = None, l_back = None\<rparr>"

definition Len :: "'v list_state \<Rightarrow> int" where "Len l = l_length l"
definition Front :: "'v list_state \<Rightarrow> addr option" where "Front l = l_front l"
definition Back :: "'v list_state \<Rightarrow> addr option" where "Back l = l_back l"

definition set_next :: "addr \<Rightarrow> addr option \<Rightarrow> 'v list_state \<Rightarrow> 'v list_state option" where
  "set_next a p l = do { c \<leftarrow> heap l a; Some (l\<lparr>heap := (heap l)(a \<mapsto> c\<lparr>Next := p\<rparr>)\<rparr>) }"

definition set_prev :: "addr \<Rightarrow> addr option \<Rightarrow> 'v list_state \<Rightarrow> 'v list_state option" where
  "set_prev a p l = do { c \<leftarrow> heap l a; Some (l\<lparr>heap := (heap l)(a \<mapsto> c\<lparr>Prev := p\<rparr>)\<rparr>) }"

definition set_value :: "addr \<Rightarrow> 'v \<Rightarrow> 'v list_state \<Rightarrow> 'v list_state option" where
  "set_value a v l = do { c \<leftarrow> heap l a; Some (l\<lparr>heap := (heap l)(a \<mapsto> c\<lparr>Value := v\<rparr>)\<rparr>) }"

definition get_value :: "addr \<Rightarrow> 'v list_state \<Rightarrow> 'v option" where
  "get_value a l = map_option Value (heap l a)"

definition PushFront :: "'v \<Rightarrow> 'v list_state \<Rightarrow> (addr \<times> 'v list_state) option" where
  "PushFront v l =
     (let item = fresh l;
          l = l\<lparr>heap := (heap l)(item \<mapsto> \<lparr>Value = v, Next = l_front l, Prev = None\<rparr>), fresh := Suc item\<rparr>
      in do {
        l \<leftarrow> (case l_front l of
               None \<Rightarrow> Some (l\<lparr>l_back := Some item\<rparr>)
             | Some f \<Rightarrow> set_prev f (Some item) l);
        Some (item, l\<lparr>l_front := Some item, l_length := l_length l + 1\<rparr>)
      })"

definition PushBack :: "'v \<Rightarrow> 'v list_state \<Rightarrow> (addr \<times> 'v list_state) option" where
  "PushBack v l =
     (let item = fresh l;
          l = l\<lparr>heap := (heap l)(item \<mapsto> \<lparr>Value = v, Next = None, Prev = l_back l\<rparr>), fresh := Suc item\<rparr>
      in do {
        l \<leftarrow> (case l_back l of
               None \<Rightarrow> Some (l\<lparr>l_front := Some item\<rparr>)
             | Some b \<Rightarrow> set_next b (Some item) l);
        Some (item, l\<lparr>l_back := Some item, l_length := l_length l + 1\<rparr>)
      })"

definition Remove :: "addr \<Rightarrow> 'v list_state \<Rightarrow> 'v list_state option" where
  "Remove item l = do {
     c \<leftarrow> heap l item;
     l \<leftarrow> (case Prev c of
            None \<Rightarrow> Some (l\<lparr>l_front := Next c\<rparr>)
          | Some p \<Rightarrow> set_next p (Next c) l);
     c \<leftarrow> heap l item;
     l \<leftarrow> (case Next c of
            None \<Rightarrow> Some (l\<lparr>l_back := Prev c\<rparr>)
          | Some n \<Rightarrow> set_prev n (Prev c) l);
     l \<leftarrow> set_next item None l;
     l \<leftarrow> set_prev item None l;
     Some (l\<lparr>l_length := l_length l - 1\<rparr>)
   }"

definition MoveToFront :: "addr \<Rightarrow> 'v list_state \<Rightarrow> 'v list_state option" where
  "MoveToFront item l =
     (if Some item = l_front l then Some l
      else do {
        c \<leftarrow> heap l item;
        p \<leftarrow> Prev c;
        l \<leftarrow> set_next p (Next c) l;
        c \<leftarrow> heap l item;
        l \<leftarrow> (case Next c of
               None \<Rightarrow> Some (l\<lparr>l_back := Prev c\<rparr>)
             | Some n \<Rightarrow> set_prev n (Prev c) l);
        l \<leftarrow> set_prev item None l;
        l \<leftarrow> set_next item (l_front l) l;
        f \<leftarrow> l_front l;
        l \<leftarrow> set_prev f (Some item) l;
        Some (l\<lparr>l_front := Some item\<rparr>)
      })"

subsection \<open>Segments\<close>

text \<open>
  \<open>dseg h p xs n\<close>: the cells at \<open>xs\<close> are chained forwards and backwards, from \<open>p\<close> before the first
  to \<open>n\<close> behind the last.
\<close>

definition first :: "addr list \<Rightarrow> addr option \<Rightarrow> addr option" where
  "first xs n = (case xs of [] \<Rightarrow> n | x # _ \<Rightarrow> Some x)"

definition final :: "addr option \<Rightarrow> addr list \<Rightarrow> addr option" where
  "final p xs = (if xs = [] then p else Some (last xs))"

fun dseg :: "(addr \<rightharpoonup> 'v ListItem) \<Rightarrow> addr option \<Rightarrow> addr list \<Rightarrow> addr option \<Rightarrow> bool" where
  "dseg h p [] n \<longleftrightarrow> True"
| "dseg h p (a # as) n \<longleftrightarrow>
     (\<exists>c. h a = Some c \<and> Prev c = p \<and> Next c = first as n) \<and> dseg h (Some a) as n"

lemma first_simps [simp]:
  "first [] n = n" "first (x # xs) n = Some x" "first (xs @ ys) n = first xs (first ys n)"
  by (auto simp: first_def split: list.splits)

lemma final_simps [simp]:
  "final p [] = p" "final p (xs @ [x]) = Some x" "final p (x # xs) = final (Some x) xs"
  "final p (xs @ ys) = final (final p xs) ys"
  by (auto simp: final_def)

lemma dseg_append [simp]: "dseg h p (xs @ ys) n \<longleftrightarrow> dseg h p xs (first ys n) \<and> dseg h (final p xs) ys n"
  by (induction xs arbitrary: p) auto

lemma dseg_frame [simp]: "a \<notin> set xs \<Longrightarrow> dseg (h(a := c)) p xs n = dseg h p xs n"
  by (induction xs arbitrary: p) auto

lemma dseg_dom: "dseg h p xs n \<Longrightarrow> set xs \<subseteq> dom h"
  by (induction xs arbitrary: p) auto

lemma dseg_value:
  "dseg h p xs n \<Longrightarrow> h a = Some c \<Longrightarrow> dseg (h(a \<mapsto> c\<lparr>Value := v\<rparr>)) p xs n"
  by (induction xs arbitrary: p) auto

text \<open>Redirecting the pointer behind the last cell, and the one before the first.\<close>

lemma dseg_set_next:
  assumes "dseg h p (xs @ [a]) n" "a \<notin> set xs"
  shows "\<exists>c. h a = Some c \<and> dseg (h(a \<mapsto> c\<lparr>Next := m\<rparr>)) p (xs @ [a]) m"
  using assms by (induction xs arbitrary: p) auto

lemma dseg_set_prev:
  assumes "dseg h p (a # xs) n" "a \<notin> set xs"
  shows "\<exists>c. h a = Some c \<and> dseg (h(a \<mapsto> c\<lparr>Prev := q\<rparr>)) q (a # xs) n"
  using assms by auto

subsection \<open>Representation\<close>

definition linked :: "'v list_state \<Rightarrow> addr list \<Rightarrow> bool" where
  "linked l xs \<longleftrightarrow> distinct xs \<and> dseg (heap l) None xs None \<and> l_front l = first xs None \<and>
     l_back l = final None xs \<and> l_length l = int (length xs) \<and> (\<forall>a \<in> dom (heap l). a < fresh l)"

text \<open>No operation changes the value of an item that existed before.\<close>

definition same_values :: "'v list_state \<Rightarrow> 'v list_state \<Rightarrow> bool" where
  "same_values l l' \<longleftrightarrow> (\<forall>a \<in> dom (heap l). get_value a l' = get_value a l)"

lemmas list_op_defs = set_next_def set_prev_def set_value_def get_value_def

lemma linked_NewList: "linked NewList []"
  by (simp add: linked_def NewList_def)

lemma linked_fresh: "linked l xs \<Longrightarrow> fresh l \<notin> set xs \<and> heap l (fresh l) = None"
  using dseg_dom [of "heap l" None xs None] unfolding linked_def by fastforce

lemma linked_in_heap: "linked l xs \<Longrightarrow> a \<in> set xs \<Longrightarrow> \<exists>c. heap l a = Some c"
  using dseg_dom [of "heap l" None xs None] unfolding linked_def by blast

lemma PushFront_linked:
  assumes "linked l xs"
  shows "\<exists>l'. PushFront v l = Some (fresh l, l') \<and> linked l' (fresh l # xs) \<and>
    get_value (fresh l) l' = Some v \<and> same_values l l'"
proof (cases xs)
  case Nil
  with assms linked_fresh [OF assms] show ?thesis
    by (auto simp: Let_def less_Suc_eq PushFront_def linked_def same_values_def list_op_defs)
next
  case (Cons f ys)
  with assms obtain c where "heap l f = Some c" by (auto simp: linked_def)
  with assms Cons linked_fresh [OF assms] show ?thesis
    by (auto simp: Let_def less_Suc_eq PushFront_def linked_def same_values_def list_op_defs)
qed

lemma PushBack_linked:
  assumes "linked l xs"
  shows "\<exists>l'. PushBack v l = Some (fresh l, l') \<and> linked l' (xs @ [fresh l]) \<and>
    get_value (fresh l) l' = Some v \<and> same_values l l'"
proof (cases xs rule: rev_cases)
  case Nil
  with assms linked_fresh [OF assms] show ?thesis
    by (auto simp: Let_def less_Suc_eq PushBack_def linked_def same_values_def list_op_defs)
next
  case (snoc ys b)
  with assms obtain c where "heap l b = Some c" by (auto simp: linked_def)
  with assms snoc linked_fresh [OF assms] show ?thesis
    by (auto simp: Let_def less_Suc_eq PushBack_def linked_def same_values_def list_op_defs)
qed

lemma linked_split:
  assumes "linked l xs" "a \<in> set xs"
  obtains ys zs where "xs = ys @ a # zs" "a \<notin> set ys" "a \<notin> set zs" "remove1 a xs = ys @ zs"
    "set ys \<inter> set zs = {}" "distinct ys" "distinct zs"
proof -
  obtain ys zs where "xs = ys @ a # zs" using split_list [OF assms(2)] by blast
  moreover from this assms(1) have "a \<notin> set ys" "a \<notin> set zs" "set ys \<inter> set zs = {}" "distinct ys" "distinct zs"
    by (auto simp: linked_def)
  ultimately show ?thesis using that by (simp add: remove1_append)
qed

lemma Remove_linked:
  assumes "linked l xs" "a \<in> set xs"
  shows "\<exists>l'. Remove a l = Some l' \<and> linked l' (remove1 a xs) \<and> same_values l l'"
proof -
  from linked_split [OF assms] obtain ys zs where sp: "xs = ys @ a # zs" "a \<notin> set ys" "a \<notin> set zs" "remove1 a xs = ys @ zs"
    "set ys \<inter> set zs = {}" "distinct ys" "distinct zs" .
  from assms(1) sp obtain c where c: "heap l a = Some c" "Prev c = final None ys" "Next c = first zs None"
    by (auto simp: linked_def)
  show ?thesis
  proof (cases ys rule: rev_cases)
    case ys: Nil
    show ?thesis
    proof (cases zs)
      case Nil
      with ys sp c assms(1) show ?thesis
        by (auto simp: Remove_def linked_def same_values_def list_op_defs)
    next
      case (Cons n zs')
      with assms(1) sp obtain cn where "heap l n = Some cn" by (auto simp: linked_def)
      with Cons ys sp c assms(1) show ?thesis
        by (auto simp: Remove_def linked_def same_values_def list_op_defs)
    qed
  next
    case (snoc ys' p)
    with assms(1) sp obtain cp where p: "heap l p = Some cp" by (auto simp: linked_def)
    show ?thesis
    proof (cases zs)
      case Nil
      with snoc sp c p assms(1) show ?thesis
        by (auto simp: Remove_def linked_def same_values_def list_op_defs)
    next
      case (Cons n zs')
      with assms(1) sp obtain cn where "heap l n = Some cn" by (auto simp: linked_def)
      with Cons snoc sp c p assms(1) show ?thesis
        by (auto simp: Remove_def linked_def same_values_def list_op_defs)
    qed
  qed
qed

lemma MoveToFront_linked:
  assumes "linked l xs" "a \<in> set xs"
  shows "\<exists>l'. MoveToFront a l = Some l' \<and> linked l' (a # remove1 a xs) \<and> same_values l l'"
proof -
  from linked_split [OF assms] obtain ys zs where sp: "xs = ys @ a # zs" "a \<notin> set ys" "a \<notin> set zs" "remove1 a xs = ys @ zs"
    "set ys \<inter> set zs = {}" "distinct ys" "distinct zs" .
  from assms(1) sp obtain c where c: "heap l a = Some c" "Prev c = final None ys" "Next c = first zs None"
    by (auto simp: linked_def)
  show ?thesis
  proof (cases ys rule: rev_cases)
    case Nil
    with assms(1) sp show ?thesis by (auto simp: MoveToFront_def linked_def same_values_def)
  next
    case (snoc ys' p)
    with assms(1) sp obtain cp where p: "heap l p = Some cp" by (auto simp: linked_def)
    show ?thesis
    proof (cases ys')
      case ys': Nil
      show ?thesis
      proof (cases zs)
        case Nil
        with ys' snoc sp c p assms(1) show ?thesis
          by (auto simp: MoveToFront_def linked_def same_values_def list_op_defs)
      next
        case (Cons n zs')
        with assms(1) sp obtain cn where "heap l n = Some cn" by (auto simp: linked_def)
        with Cons ys' snoc sp c p assms(1) show ?thesis
          by (auto simp: MoveToFront_def linked_def same_values_def list_op_defs)
      qed
    next
      case ys': (Cons f ys'')
      with assms(1) sp snoc obtain cf where f: "heap l f = Some cf" by (auto simp: linked_def)
      show ?thesis
      proof (cases zs)
        case Nil
        with f ys' snoc sp c p assms(1) show ?thesis
          by (auto simp: MoveToFront_def linked_def same_values_def list_op_defs)
      next
        case (Cons n zs')
        with assms(1) sp obtain cn where "heap l n = Some cn" by (auto simp: linked_def)
        with Cons f ys' snoc sp c p assms(1) show ?thesis
          by (auto simp: MoveToFront_def linked_def same_values_def list_op_defs)
      qed
    qed
  qed
qed

lemma set_value_linked:
  assumes "linked l xs" "a \<in> set xs"
  shows "\<exists>l'. set_value a v l = Some l' \<and> linked l' xs \<and> get_value a l' = Some v \<and>
    (\<forall>b. b \<noteq> a \<longrightarrow> get_value b l' = get_value b l)"
  using linked_in_heap [OF assms] assms(1)
  by (auto simp: linked_def list_op_defs dseg_value dom_def)

lemma linked_ends:
  assumes "linked l xs"
  shows "Len l = int (length xs)" "Front l = (if xs = [] then None else Some (hd xs))"
    "Back l = (if xs = [] then None else Some (last xs))"
  using assms by (auto simp: linked_def Len_def Front_def Back_def first_def final_def split: list.splits)

lemma same_values_in:
  assumes "linked l xs" "same_values l l'" "a \<in> set xs"
  shows "get_value a l' = get_value a l"
  using linked_in_heap [OF assms(1,3)] assms(2) by (auto simp: same_values_def)

subsection \<open>The interface\<close>

text \<open>
  The interface \<open>List\<close>, as a client sees it: \<open>repr l xs\<close> says which items the list has, in order; every operation is
  total on items of the list, changes the sequence as its name says and keeps the values of the items.
\<close>

locale go_list =
  fixes new :: 'l
    and len :: "'l \<Rightarrow> int"
    and first_item last_item :: "'l \<Rightarrow> 'a option"
    and push_front :: "'v \<Rightarrow> 'l \<Rightarrow> ('a \<times> 'l) option"
    and remove move_to_front :: "'a \<Rightarrow> 'l \<Rightarrow> 'l option"
    and assign :: "'a \<Rightarrow> 'v \<Rightarrow> 'l \<Rightarrow> 'l option"
    and val :: "'a \<Rightarrow> 'l \<Rightarrow> 'v option"
    and repr :: "'l \<Rightarrow> 'a list \<Rightarrow> bool"
  assumes repr_new: "repr new []"
    and repr_distinct: "repr l xs \<Longrightarrow> distinct xs"
    and len_repr: "repr l xs \<Longrightarrow> len l = int (length xs)"
    and front_repr: "repr l xs \<Longrightarrow> first_item l = (if xs = [] then None else Some (hd xs))"
    and back_repr: "repr l xs \<Longrightarrow> last_item l = (if xs = [] then None else Some (last xs))"
    and val_repr: "repr l xs \<Longrightarrow> a \<in> set xs \<Longrightarrow> \<exists>v. val a l = Some v"
    and push_front_repr: "repr l xs \<Longrightarrow> \<exists>a l'. push_front v l = Some (a, l') \<and> a \<notin> set xs \<and> repr l' (a # xs) \<and>
      val a l' = Some v \<and> (\<forall>b \<in> set xs. val b l' = val b l)"
    and remove_repr: "repr l xs \<Longrightarrow> a \<in> set xs \<Longrightarrow> \<exists>l'. remove a l = Some l' \<and> repr l' (remove1 a xs) \<and>
      (\<forall>b \<in> set xs. val b l' = val b l)"
    and move_repr: "repr l xs \<Longrightarrow> a \<in> set xs \<Longrightarrow> \<exists>l'. move_to_front a l = Some l' \<and> repr l' (a # remove1 a xs) \<and>
      (\<forall>b \<in> set xs. val b l' = val b l)"
    and assign_repr: "repr l xs \<Longrightarrow> a \<in> set xs \<Longrightarrow> \<exists>l'. assign a v l = Some l' \<and> repr l' xs \<and> val a l' = Some v \<and>
      (\<forall>b \<in> set xs - {a}. val b l' = val b l)"

interpretation dll: go_list NewList Len Front Back PushFront Remove MoveToFront set_value get_value linked
proof (unfold_locales, goal_cases)
  case 1
  show ?case by (rule linked_NewList)
next
  case 2
  then show ?case by (simp add: linked_def)
next
  case 3
  then show ?case by (rule linked_ends)
next
  case 4
  then show ?case by (rule linked_ends)
next
  case 5
  then show ?case by (rule linked_ends)
next
  case 6
  then show ?case using linked_in_heap by (fastforce simp: get_value_def)
next
  case (7 l xs v)
  then show ?case
    using PushFront_linked [OF 7, of v] linked_fresh [OF 7] same_values_in [OF 7] by blast
next
  case (8 l xs a)
  then show ?case using Remove_linked [OF 8] same_values_in [OF 8(1)] by blast
next
  case (9 l xs a)
  then show ?case using MoveToFront_linked [OF 9] same_values_in [OF 9(1)] by blast
next
  case (10 l xs a v)
  then show ?case using set_value_linked [OF 10, of v] by blast
qed

subsection \<open>Properties\<close>

text \<open>The values of a list, front to back.\<close>

definition contents :: "'v list_state \<Rightarrow> addr list \<Rightarrow> 'v option list" where
  "contents l xs = map (\<lambda>a. get_value a l) xs"

lemma contents_same: "linked l xs \<Longrightarrow> same_values l l' \<Longrightarrow> set ys \<subseteq> set xs \<Longrightarrow> contents l' ys = contents l ys"
  using same_values_in by (fastforce simp: contents_def)

text \<open>
  The doubly linked list implements a sequence. On a well-formed list \<open>PushFront\<close> and \<open>PushBack\<close> add one item with the
  given value at their end, and \<open>Remove\<close> and \<open>MoveToFront\<close> of an item of the list take it out or bring it to the
  front; none of them dereferences \<open>nil\<close>, all of them keep the chain of pointers in both directions, the two
  ends and the length right, and the values and the order of the other items.
\<close>

theorem linked_list_is_a_sequence:
  assumes "linked l xs" "a \<in> set xs"
  shows "(\<exists>b l'. PushFront v l = Some (b, l') \<and> linked l' (b # xs) \<and> contents l' (b # xs) = Some v # contents l xs) \<and>
    (\<exists>b l'. PushBack v l = Some (b, l') \<and> linked l' (xs @ [b]) \<and> contents l' (xs @ [b]) = contents l xs @ [Some v]) \<and>
    (\<exists>l'. Remove a l = Some l' \<and> linked l' (remove1 a xs) \<and> contents l' (remove1 a xs) = contents l (remove1 a xs)) \<and>
    (\<exists>l'. MoveToFront a l = Some l' \<and> linked l' (a # remove1 a xs) \<and>
       contents l' (a # remove1 a xs) = contents l (a # remove1 a xs))"
proof (intro conjI)
  have sub: "set (remove1 a xs) \<subseteq> set xs" "set (a # remove1 a xs) \<subseteq> set xs"
    using assms(2) set_remove1_subset [of a xs] by auto
  show "\<exists>b l'. PushFront v l = Some (b, l') \<and> linked l' (b # xs) \<and> contents l' (b # xs) = Some v # contents l xs"
    using PushFront_linked [OF assms(1), of v] contents_same [OF assms(1) _ subset_refl] by (fastforce simp: contents_def)
  show "\<exists>b l'. PushBack v l = Some (b, l') \<and> linked l' (xs @ [b]) \<and> contents l' (xs @ [b]) = contents l xs @ [Some v]"
    using PushBack_linked [OF assms(1), of v] contents_same [OF assms(1) _ subset_refl] by (fastforce simp: contents_def)
  show "\<exists>l'. Remove a l = Some l' \<and> linked l' (remove1 a xs) \<and> contents l' (remove1 a xs) = contents l (remove1 a xs)"
    using Remove_linked [OF assms] contents_same [OF assms(1) _ sub(1)] by blast
  show "\<exists>l'. MoveToFront a l = Some l' \<and> linked l' (a # remove1 a xs) \<and>
      contents l' (a # remove1 a xs) = contents l (a # remove1 a xs)"
    using MoveToFront_linked [OF assms] contents_same [OF assms(1) _ sub(2)] by blast
qed

definition three_items :: "nat list_state" where
  "three_items = the (do { (_, l) \<leftarrow> PushBack 1 NewList; (_, l) \<leftarrow> PushBack 2 l; (_, l) \<leftarrow> PushFront 0 l; Some l })"

lemma three_items_linked: "linked three_items [2, 0, 1]"
  by (simp add: three_items_def NewList_def PushBack_def PushFront_def Let_def linked_def list_op_defs Bex_def)

theorem linked_list_is_a_sequence_witness:
  "\<exists>l'. MoveToFront 1 three_items = Some l' \<and> linked l' [1, 2, 0] \<and> contents l' [1, 2, 0] = [Some 2, Some 0, Some 1]"
proof -
  have "contents three_items [1, 2, 0] = [Some 2, Some 0, Some 1]"
    by (simp add: contents_def three_items_def NewList_def PushBack_def PushFront_def Let_def list_op_defs)
  then show ?thesis
    using linked_list_is_a_sequence [OF three_items_linked, of 1] by simp
qed

end
