(* ===== verification/Lru_Cache.thy ===== *)
theory Lru_Cache
  imports Linked_List
begin

text \<open>
  The LRU cache of \<open>hw04_lru_cache/cache.go\<close>: a map from keys to items of a \<open>List\<close> whose values carry key and value. The
  mutex makes each call a step, so an operation is a function of the state.

  A \<open>cacheItem\<close> is reached through the one list item that holds it, so the item's value is the record itself and the
  assignment to its field is an assignment to the item. The operations take the list operations from the interface: first the cache
  over any implementation of \<open>go_list\<close> refines the abstract LRU cache, then the linked list instantiates it.
\<close>

record 'v cacheItem =
  item_key :: string
  item_value :: 'v

record ('v, 'l, 'a) lruCache =
  capacity :: int
  queue :: 'l
  items :: "(string \<times> 'a) list"

record ('v, 'l, 'a) list_ops =
  o_new :: 'l
  o_len :: "'l \<Rightarrow> int"
  o_back :: "'l \<Rightarrow> 'a option"
  o_push_front :: "'v cacheItem \<Rightarrow> 'l \<Rightarrow> ('a \<times> 'l) option"
  o_remove :: "'a \<Rightarrow> 'l \<Rightarrow> 'l option"
  o_move_to_front :: "'a \<Rightarrow> 'l \<Rightarrow> 'l option"
  o_assign :: "'a \<Rightarrow> 'v cacheItem \<Rightarrow> 'l \<Rightarrow> 'l option"
  o_value :: "'a \<Rightarrow> 'l \<Rightarrow> 'v cacheItem option"

definition NewCache :: "('v, 'l, 'a) list_ops \<Rightarrow> int \<Rightarrow> ('v, 'l, 'a) lruCache" where
  "NewCache ops n = \<lparr>capacity = (if n < 0 then 0 else n), queue = o_new ops, items = []\<rparr>"

definition CacheSet ::
  "('v, 'l, 'a) list_ops \<Rightarrow> string \<Rightarrow> 'v \<Rightarrow> ('v, 'l, 'a) lruCache \<Rightarrow> (bool \<times> ('v, 'l, 'a) lruCache) option" where
  "CacheSet ops key val c =
     (case map_of (items c) key of
        Some item \<Rightarrow> do {
          ci \<leftarrow> o_value ops item (queue c);
          q \<leftarrow> o_assign ops item (ci\<lparr>item_value := val\<rparr>) (queue c);
          q \<leftarrow> o_move_to_front ops item q;
          Some (True, c\<lparr>queue := q\<rparr>)
        }
      | None \<Rightarrow> do {
          (item, q) \<leftarrow> o_push_front ops \<lparr>item_key = key, item_value = val\<rparr> (queue c);
          let its = AList.update key item (items c);
          if o_len ops q > capacity c
          then do {
            oldest \<leftarrow> o_back ops q;
            ci \<leftarrow> o_value ops oldest q;
            q \<leftarrow> o_remove ops oldest q;
            Some (False, c\<lparr>queue := q, items := AList.delete (item_key ci) its\<rparr>)
          }
          else Some (False, c\<lparr>queue := q, items := its\<rparr>)
        })"

definition CacheGet ::
  "('v, 'l, 'a) list_ops \<Rightarrow> string \<Rightarrow> ('v, 'l, 'a) lruCache \<Rightarrow> ('v option \<times> ('v, 'l, 'a) lruCache) option" where
  "CacheGet ops key c =
     (case map_of (items c) key of
        None \<Rightarrow> Some (None, c)
      | Some item \<Rightarrow> do {
          q \<leftarrow> o_move_to_front ops item (queue c);
          ci \<leftarrow> o_value ops item q;
          Some (Some (item_value ci), c\<lparr>queue := q\<rparr>)
        })"

definition CacheClear :: "('v, 'l, 'a) list_ops \<Rightarrow> ('v, 'l, 'a) lruCache \<Rightarrow> ('v, 'l, 'a) lruCache" where
  "CacheClear ops c = c\<lparr>queue := o_new ops, items := []\<rparr>"

subsection \<open>The abstract cache\<close>

text \<open>The entries, most recently used first, with distinct keys.\<close>

type_synonym 'v lru = "(string \<times> 'v) list"

definition without :: "string \<Rightarrow> 'v lru \<Rightarrow> 'v lru" where
  "without k es = filter (\<lambda>(k', v). k' \<noteq> k) es"

definition lru_set :: "nat \<Rightarrow> string \<Rightarrow> 'v \<Rightarrow> 'v lru \<Rightarrow> bool \<times> 'v lru" where
  "lru_set cap k v es =
     (if k \<in> fst ` set es then (True, (k, v) # without k es)
      else (False, take cap ((k, v) # es)))"

definition lru_get :: "string \<Rightarrow> 'v lru \<Rightarrow> 'v option \<times> 'v lru" where
  "lru_get k es = (case map_of es k of None \<Rightarrow> (None, es) | Some v \<Rightarrow> (Some v, (k, v) # without k es))"

definition entry :: "string \<times> 'v \<Rightarrow> 'v cacheItem" where
  "entry e = \<lparr>item_key = fst e, item_value = snd e\<rparr>"

lemma entry_simps [simp]: "item_key (entry e) = fst e" "item_value (entry e) = snd e"
  "(entry e)\<lparr>item_value := v\<rparr> = entry (fst e, v)"
  by (simp_all add: entry_def)

lemma without_absent: "k \<notin> fst ` set es \<Longrightarrow> without k es = es"
  by (induction es) (auto simp: without_def)

lemma without_split: "k \<notin> fst ` set es1 \<Longrightarrow> k \<notin> fst ` set es2 \<Longrightarrow> without k (es1 @ (k, v) # es2) = es1 @ es2"
  using without_absent [of k es1] without_absent [of k es2] by (simp add: without_def)

text \<open>The index of the cache finds the item of a key, and where it is in the queue.\<close>

lemma index_split:
  assumes "length es = length as" "distinct (map fst es)" "distinct as" "map_of (zip (map fst es) as) k = Some a"
  obtains es1 v es2 as1 as2 where "es = es1 @ (k, v) # es2" "as = as1 @ a # as2" "length es1 = length as1"
    "length es2 = length as2" "remove1 a as = as1 @ as2" "without k es = es1 @ es2"
    "k \<notin> fst ` set es1" "k \<notin> fst ` set es2" "a \<notin> set as1" "a \<notin> set as2"
proof -
  from map_of_SomeD [OF assms(4)] obtain v where "((k, v), a) \<in> set (zip es as)"
    by (auto simp: zip_map1)
  then obtain xs ys where z: "zip es as = xs @ ((k, v), a) # ys" by (meson split_list)
  have es: "es = map fst xs @ (k, v) # map fst ys" using arg_cong [OF z, of "map fst"] assms(1) by simp
  have as: "as = map snd xs @ a # map snd ys" using arg_cong [OF z, of "map snd"] assms(1) by simp
  have k: "k \<notin> fst ` set (map fst xs)" "k \<notin> fst ` set (map fst ys)" using assms(2) unfolding es
    by (simp_all add: image_comp comp_def)
  have a: "a \<notin> set (map snd xs)" "a \<notin> set (map snd ys)" using assms(3) unfolding as by auto
  have r: "remove1 a as = map snd xs @ map snd ys" using a(1) unfolding as by (simp add: remove1_append)
  have w: "without k es = map fst xs @ map fst ys" using without_split [OF k] unfolding es .
  show ?thesis
    by (rule that [OF es as _ _ r w k a]) simp_all
qed

lemma index_front:
  assumes "length ks1 = length as1" "k \<notin> set ks1"
  shows "map_of (zip (k # ks1 @ ks2) (a # as1 @ as2)) = map_of (zip (ks1 @ k # ks2) (as1 @ a # as2))"
proof -
  have "k \<notin> dom (map_of (zip ks1 as1))" using assms by (simp add: dom_map_of_zip)
  then show ?thesis using assms(1) by (simp add: map_add_upd_left)
qed

lemma index_last:
  assumes "length ks = length as" "k \<notin> set ks"
  shows "(map_of (zip (ks @ [k]) (as @ [a])))(k := None) = map_of (zip ks as)"
proof -
  have "k \<notin> dom (map_of (zip ks as))" using assms by (simp add: dom_map_of_zip)
  then have "map_of (zip ks as) k = None" "[k \<mapsto> a] ++ map_of (zip ks as) = (map_of (zip ks as))(k \<mapsto> a)"
    by (auto simp: map_add_upd_left)
  then show ?thesis using assms(1) by (simp add: fun_upd_idem)
qed

text \<open>The values of the items are the entries.\<close>

definition entries_at :: "('a \<Rightarrow> 'v cacheItem option) \<Rightarrow> 'a list \<Rightarrow> (string \<times> 'v) list \<Rightarrow> bool" where
  "entries_at f as es \<longleftrightarrow> list_all2 (\<lambda>a e. f a = Some (entry e)) as es"

lemma entries_at_simps [simp]:
  "entries_at f [] []" "entries_at f (a # as) (e # es) \<longleftrightarrow> f a = Some (entry e) \<and> entries_at f as es"
  "length as1 = length es1 \<Longrightarrow> entries_at f (as1 @ as2) (es1 @ es2) \<longleftrightarrow> entries_at f as1 es1 \<and> entries_at f as2 es2"
  by (auto simp: entries_at_def list_all2_append)

lemma entries_at_length: "entries_at f as es \<Longrightarrow> length es = length as"
  by (simp add: entries_at_def list_all2_lengthD)

lemma entries_at_cong: "entries_at f as es \<Longrightarrow> \<forall>b \<in> set as. g b = f b \<Longrightarrow> entries_at g as es"
  unfolding entries_at_def by (erule list.rel_mono_strong) auto

locale cache_over_list =
  go_list "o_new ops" "o_len ops" first_item "o_back ops" "o_push_front ops" "o_remove ops" "o_move_to_front ops"
    "o_assign ops" "o_value ops" repr
  for ops :: "('v, 'l, 'a) list_ops" and first_item :: "'l \<Rightarrow> 'a option" and repr :: "'l \<Rightarrow> 'a list \<Rightarrow> bool"
begin

definition holds :: "'l \<Rightarrow> 'a list \<Rightarrow> (string \<times> 'v) list \<Rightarrow> bool" where
  "holds q as es \<longleftrightarrow> repr q as \<and> entries_at (\<lambda>a. o_value ops a q) as es"

definition cache_rel :: "('v, 'l, 'a) lruCache \<Rightarrow> 'v lru \<Rightarrow> bool" where
  "cache_rel c es \<longleftrightarrow> distinct (map fst es) \<and> int (length es) \<le> capacity c \<and>
     (\<exists>as. holds (queue c) as es \<and> map_of (items c) = map_of (zip (map fst es) as))"

lemma holds_length: "holds q as es \<Longrightarrow> length es = length as \<and> distinct as"
  unfolding holds_def using entries_at_length repr_distinct by blast

lemma NewCache_rel: "cache_rel (NewCache ops n) []"
  using repr_new by (auto simp: cache_rel_def NewCache_def holds_def)

lemma CacheClear_rel: "cache_rel c es \<Longrightarrow> cache_rel (CacheClear ops c) []"
  using repr_new by (auto simp: cache_rel_def CacheClear_def holds_def)

lemma index_item:
  assumes "length es = length as"
  shows "map_of (zip (map fst es) as) k = None \<longleftrightarrow> k \<notin> fst ` set es"
  using assms by (metis dom_map_of_zip domIff length_map list.set_map)

lemma move_holds:
  assumes "holds q (as1 @ a # as2) (es1 @ e # es2)" "length es1 = length as1"
  shows "\<exists>q'. o_move_to_front ops a q = Some q' \<and> holds q' (a # as1 @ as2) (e # es1 @ es2)"
proof -
  have "distinct (as1 @ a # as2)" using holds_length [OF assms(1)] by blast
  then have r: "remove1 a (as1 @ a # as2) = as1 @ as2" by (simp add: remove1_append)
  obtain q' where q': "o_move_to_front ops a q = Some q'" "repr q' (a # as1 @ as2)"
      "\<forall>b \<in> set (as1 @ a # as2). o_value ops b q' = o_value ops b q"
    using move_repr [of q "as1 @ a # as2" a] assms(1) by (auto simp: holds_def r)
  have "entries_at (\<lambda>a. o_value ops a q') (as1 @ a # as2) (es1 @ e # es2)"
    using assms(1) q'(3) entries_at_cong by (fastforce simp: holds_def)
  with q' assms(2) show ?thesis by (auto simp: holds_def)
qed

lemma assign_holds:
  assumes "holds q (as1 @ a # as2) (es1 @ e # es2)" "length es1 = length as1"
  shows "\<exists>q'. o_assign ops a (entry e') q = Some q' \<and> holds q' (as1 @ a # as2) (es1 @ e' # es2)"
proof -
  have d: "distinct (as1 @ a # as2)" using holds_length [OF assms(1)] by blast
  obtain q' where q': "o_assign ops a (entry e') q = Some q'" "repr q' (as1 @ a # as2)" "o_value ops a q' = Some (entry e')"
      "\<forall>b \<in> set (as1 @ a # as2) - {a}. o_value ops b q' = o_value ops b q"
    using assign_repr [of q "as1 @ a # as2" a "entry e'"] assms(1) by (auto simp: holds_def)
  have "entries_at (\<lambda>a. o_value ops a q') as1 es1" "entries_at (\<lambda>a. o_value ops a q') as2 es2"
    using assms d q'(4) by (auto simp: holds_def intro: entries_at_cong)
  with q' assms(2) show ?thesis by (auto simp: holds_def)
qed

lemma push_holds:
  assumes "holds q as es"
  shows "\<exists>a q'. o_push_front ops (entry e) q = Some (a, q') \<and> a \<notin> set as \<and> holds q' (a # as) (e # es)"
proof -
  obtain a q' where q': "o_push_front ops (entry e) q = Some (a, q')" "a \<notin> set as" "repr q' (a # as)"
      "o_value ops a q' = Some (entry e)" "\<forall>b \<in> set as. o_value ops b q' = o_value ops b q"
    using push_front_repr [of q as "entry e"] assms by (auto simp: holds_def)
  with assms show ?thesis by (auto simp: holds_def intro: entries_at_cong)
qed

lemma evict_holds:
  assumes "holds q (as @ [a]) (es @ [e])"
  shows "o_back ops q = Some a \<and> o_value ops a q = Some (entry e) \<and> (\<exists>q'. o_remove ops a q = Some q' \<and> holds q' as es)"
proof -
  have len: "length es = length as" and d: "distinct (as @ [a])" using holds_length [OF assms] by auto
  then have r: "remove1 a (as @ [a]) = as" by (simp add: remove1_append)
  obtain q' where q': "o_remove ops a q = Some q'" "repr q' as" "\<forall>b \<in> set (as @ [a]). o_value ops b q' = o_value ops b q"
    using remove_repr [of q "as @ [a]" a] assms by (auto simp: holds_def r)
  with assms len back_repr [of q "as @ [a]"] show ?thesis by (auto simp: holds_def intro: entries_at_cong)
qed

lemma CacheGet_refines:
  assumes "cache_rel c es"
  shows "\<exists>c'. CacheGet ops k c = Some (fst (lru_get k es), c') \<and> cache_rel c' (snd (lru_get k es)) \<and> capacity c' = capacity c"
proof -
  obtain as where h: "holds (queue c) as es" and idx: "map_of (items c) = map_of (zip (map fst es) as)"
      and d: "distinct (map fst es)" and cap: "int (length es) \<le> capacity c"
    using assms by (auto simp: cache_rel_def)
  note len = holds_length [OF h]
  show ?thesis
  proof (cases "map_of (items c) k")
    case None
    then have "k \<notin> fst ` set es" using index_item [of es as k] len idx by simp
    then have "map_of es k = None" by (simp add: map_of_eq_None_iff)
    with None assms show ?thesis by (simp add: CacheGet_def lru_get_def)
  next
    case (Some a)
    from index_split [OF conjunct1 [OF len] d conjunct2 [OF len] Some [unfolded idx]] obtain es1 v es2 as1 as2 where
      sp: "es = es1 @ (k, v) # es2" "as = as1 @ a # as2" "length es1 = length as1" "length es2 = length as2"
        "without k es = es1 @ es2" "k \<notin> fst ` set es1" .
    obtain q where q: "o_move_to_front ops a (queue c) = Some q" "holds q (a # as1 @ as2) ((k, v) # es1 @ es2)"
      using move_holds h sp by blast
    have "map_of es1 k = None" using sp(6) by (simp add: map_of_eq_None_iff)
    then have "map_of es k = Some v" by (simp add: sp(1) map_add_def)
    moreover have "o_value ops a q = Some (entry (k, v))" using q(2) by (simp add: holds_def)
    moreover have "map_of (zip (map fst ((k, v) # es1 @ es2)) (a # as1 @ as2)) = map_of (items c)"
      using index_front [of "map fst es1" as1 k "map fst es2" a as2] sp(3,6) by (simp add: idx sp(1,2))
    ultimately show ?thesis
      using Some q d cap sp(5) by (auto simp: CacheGet_def lru_get_def cache_rel_def sp(1))
  qed
qed

lemma CacheSet_present:
  assumes "cache_rel c es" "map_of (items c) k = Some a"
  shows "\<exists>c'. CacheSet ops k v c = Some (True, c') \<and> cache_rel c' ((k, v) # without k es) \<and> capacity c' = capacity c
    \<and> k \<in> fst ` set es"
proof -
  obtain as where h: "holds (queue c) as es" and idx: "map_of (items c) = map_of (zip (map fst es) as)"
      and d: "distinct (map fst es)" and cap: "int (length es) \<le> capacity c"
    using assms(1) by (auto simp: cache_rel_def)
  note len = holds_length [OF h]
  from index_split [OF conjunct1 [OF len] d conjunct2 [OF len] assms(2) [unfolded idx]] obtain es1 u es2 as1 as2 where
    sp: "es = es1 @ (k, u) # es2" "as = as1 @ a # as2" "length es1 = length as1" "length es2 = length as2"
      "without k es = es1 @ es2" "k \<notin> fst ` set es1" .
  have old: "o_value ops a (queue c) = Some (entry (k, u))" using h sp(3) by (simp add: sp(1,2) holds_def)
  obtain q1 where q1: "o_assign ops a (entry (k, v)) (queue c) = Some q1" "holds q1 (as1 @ a # as2) (es1 @ (k, v) # es2)"
    using assign_holds h sp by blast
  obtain q2 where q2: "o_move_to_front ops a q1 = Some q2" "holds q2 (a # as1 @ as2) ((k, v) # es1 @ es2)"
    using move_holds [OF q1(2) sp(3)] by blast
  have "map_of (zip (map fst ((k, v) # es1 @ es2)) (a # as1 @ as2)) = map_of (items c)"
    using index_front [of "map fst es1" as1 k "map fst es2" a as2] sp(3,6) by (simp add: idx sp(1,2))
  then show ?thesis
    using assms(2) old q1(1) q2 d cap sp(5) by (auto simp: CacheSet_def cache_rel_def sp(1))
qed

lemma CacheSet_absent:
  assumes "cache_rel c es" "map_of (items c) k = None" "0 \<le> capacity c"
  shows "\<exists>c'. CacheSet ops k v c = Some (False, c') \<and> cache_rel c' (take (nat (capacity c)) ((k, v) # es)) \<and>
    capacity c' = capacity c \<and> k \<notin> fst ` set es"
proof -
  obtain as where h: "holds (queue c) as es" and idx: "map_of (items c) = map_of (zip (map fst es) as)"
      and d: "distinct (map fst es)" and cap: "int (length es) \<le> capacity c"
    using assms(1) by (auto simp: cache_rel_def)
  note len = holds_length [OF h]
  have k: "k \<notin> fst ` set es" using index_item [of es as k] assms(2) len idx by simp
  obtain a q where q: "o_push_front ops (entry (k, v)) (queue c) = Some (a, q)" "holds q (a # as) ((k, v) # es)"
    using push_holds [OF h] by blast
  have entry: "\<lparr>item_key = k, item_value = v\<rparr> = entry (k, v)" by (simp add: entry_def)
  have its: "map_of (AList.update k a (items c)) = map_of (zip (map fst ((k, v) # es)) (a # as))"
    by (simp add: update_conv' idx)
  have size: "o_len ops q = int (length es) + 1"
    using len_repr [of q "a # as"] q(2) len by (simp add: holds_def)
  show ?thesis
  proof (cases "int (length es) < capacity c")
    case True
    then have "take (nat (capacity c)) ((k, v) # es) = (k, v) # es" by simp
    moreover have "cache_rel (c\<lparr>queue := q, items := AList.update k a (items c)\<rparr>) ((k, v) # es)"
      using True d k q(2) its by (auto simp: cache_rel_def)
    ultimately show ?thesis
      using True assms(2) q(1) size k by (auto simp: CacheSet_def entry)
  next
    case False
    with cap have n: "capacity c = int (length es)" by simp
    obtain as' b where as: "a # as = as' @ [b]" by (metis append_butlast_last_id list.distinct(1))
    obtain es' e where es: "(k, v) # es = es' @ [e]" by (metis append_butlast_last_id list.distinct(1))
    have le: "length es' = length es" "length as' = length es" using arg_cong [OF as, of length] arg_cong [OF es, of length] len by auto
    then have tk: "take (nat (capacity c)) ((k, v) # es) = es'" using n es by simp
    have ev: "o_back ops q = Some b" "o_value ops b q = Some (entry e)" "\<exists>q'. o_remove ops b q = Some q' \<and> holds q' as' es'"
      using evict_holds [OF q(2) [unfolded as es]] by auto
    then obtain q' where q': "o_remove ops b q = Some q'" "holds q' as' es'" by blast
    have dk: "distinct (map fst (es' @ [e]))" using d k es by (metis distinct.simps(2) fst_conv list.map(2) list.set_map)
    have "map_of (AList.delete (fst e) (AList.update k a (items c))) = map_of (zip (map fst es') as')"
      using index_last [of "map fst es'" as' "fst e" b] dk le its unfolding as es by (simp add: delete_conv')
    then have "cache_rel (c\<lparr>queue := q', items := AList.delete (fst e) (AList.update k a (items c))\<rparr>) es'"
      using q'(2) dk le n by (auto simp: cache_rel_def)
    then show ?thesis
      using assms(2) q(1) size k n ev q'(1) tk by (auto simp: CacheSet_def entry)
  qed
qed

lemma CacheSet_refines:
  assumes "cache_rel c es" "0 \<le> capacity c"
  shows "\<exists>c'. CacheSet ops k v c = Some (fst (lru_set (nat (capacity c)) k v es), c') \<and>
    cache_rel c' (snd (lru_set (nat (capacity c)) k v es)) \<and> capacity c' = capacity c"
  using CacheSet_present [OF assms(1), of k _ v] CacheSet_absent [OF assms(1) _ assms(2), of k v]
  by (cases "map_of (items c) k") (force simp: lru_set_def)+

end

subsection \<open>Histories of calls\<close>

datatype 'v call = SetCall string 'v | GetCall string | ClearCall

datatype 'v answer = WasPresent bool | Got "'v option" | Cleared

fun run_calls ::
  "('v, 'l, 'a) list_ops \<Rightarrow> 'v call list \<Rightarrow> ('v, 'l, 'a) lruCache \<Rightarrow> ('v answer list \<times> ('v, 'l, 'a) lruCache) option" where
  "run_calls ops [] c = Some ([], c)"
| "run_calls ops (SetCall k v # cs) c = do {
     (b, c) \<leftarrow> CacheSet ops k v c; (rs, c) \<leftarrow> run_calls ops cs c; Some (WasPresent b # rs, c) }"
| "run_calls ops (GetCall k # cs) c = do {
     (v, c) \<leftarrow> CacheGet ops k c; (rs, c) \<leftarrow> run_calls ops cs c; Some (Got v # rs, c) }"
| "run_calls ops (ClearCall # cs) c = do {
     (rs, c) \<leftarrow> run_calls ops cs (CacheClear ops c); Some (Cleared # rs, c) }"

fun lru_run :: "nat \<Rightarrow> 'v call list \<Rightarrow> 'v lru \<Rightarrow> 'v answer list \<times> 'v lru" where
  "lru_run cap [] es = ([], es)"
| "lru_run cap (SetCall k v # cs) es =
     (let (b, es) = lru_set cap k v es; (rs, es) = lru_run cap cs es in (WasPresent b # rs, es))"
| "lru_run cap (GetCall k # cs) es =
     (let (v, es) = lru_get k es; (rs, es) = lru_run cap cs es in (Got v # rs, es))"
| "lru_run cap (ClearCall # cs) es = (let (rs, es) = lru_run cap cs [] in (Cleared # rs, es))"

context cache_over_list
begin

lemma run_calls_refines:
  assumes "cache_rel c es" "0 \<le> capacity c"
  shows "\<exists>c'. run_calls ops cs c = Some (fst (lru_run (nat (capacity c)) cs es), c') \<and>
    cache_rel c' (snd (lru_run (nat (capacity c)) cs es)) \<and> capacity c' = capacity c"
  using assms
proof (induction cs arbitrary: c es)
  case (Cons call cs)
  show ?case
  proof (cases call)
    case (SetCall k v)
    obtain c1 where "CacheSet ops k v c = Some (fst (lru_set (nat (capacity c)) k v es), c1)"
        "cache_rel c1 (snd (lru_set (nat (capacity c)) k v es))" "capacity c1 = capacity c"
      using CacheSet_refines [OF Cons.prems] by blast
    with Cons.IH [of c1 "snd (lru_set (nat (capacity c)) k v es)"] Cons.prems(2) SetCall show ?thesis
      by (auto simp: split_beta Let_def)
  next
    case (GetCall k)
    obtain c1 where "CacheGet ops k c = Some (fst (lru_get k es), c1)" "cache_rel c1 (snd (lru_get k es))" "capacity c1 = capacity c"
      using CacheGet_refines [OF Cons.prems(1)] by blast
    with Cons.IH [of c1 "snd (lru_get k es)"] Cons.prems(2) GetCall show ?thesis
      by (auto simp: split_beta Let_def)
  next
    case ClearCall
    have "capacity (CacheClear ops c) = capacity c" by (simp add: CacheClear_def)
    with Cons.IH [OF CacheClear_rel [OF Cons.prems(1)]] Cons.prems(2) ClearCall show ?thesis
      by (auto simp: split_beta Let_def)
  qed
qed simp

lemma history_refines:
  "\<exists>c'. run_calls ops cs (NewCache ops n) = Some (fst (lru_run (nat n) cs []), c') \<and>
     cache_rel c' (snd (lru_run (nat n) cs [])) \<and> capacity c' = max 0 n"
proof -
  have "capacity (NewCache ops n) = max 0 n" "nat (max 0 n) = nat n" by (simp_all add: NewCache_def)
  with run_calls_refines [OF NewCache_rel [of n], of cs] show ?thesis by simp
qed

lemma cache_rel_size:
  assumes "cache_rel c es"
  shows "int (card (dom (map_of (items c)))) \<le> capacity c"
proof -
  obtain as where h: "holds (queue c) as es" and idx: "map_of (items c) = map_of (zip (map fst es) as)"
      and cap: "int (length es) \<le> capacity c"
    using assms by (auto simp: cache_rel_def)
  have "dom (map_of (items c)) = fst ` set es" using holds_length [OF h] by (simp add: idx dom_map_of_zip)
  then have "card (dom (map_of (items c))) \<le> length es"
    by (metis card_image_le card_length finite_set order_trans)
  with cap show ?thesis by linarith
qed

end

definition dll_ops :: "('v, 'v cacheItem list_state, addr) list_ops" where
  "dll_ops = \<lparr>o_new = NewList, o_len = Len, o_back = Back, o_push_front = PushFront, o_remove = Remove,
     o_move_to_front = MoveToFront, o_assign = set_value, o_value = get_value\<rparr>"

interpretation lru: cache_over_list dll_ops Front linked
  by (simp add: cache_over_list_def dll_ops_def dll.go_list_axioms)

subsection \<open>How long an entry stays\<close>

fun call_keys :: "'v call \<Rightarrow> string set" where
  "call_keys (SetCall k v) = {k}"
| "call_keys (GetCall k) = {k}"
| "call_keys ClearCall = {}"

definition recent :: "string set \<Rightarrow> string \<Rightarrow> 'v \<Rightarrow> 'v lru \<Rightarrow> bool" where
  "recent K k v es \<longleftrightarrow> distinct (map fst es) \<and> (\<exists>pre post. es = pre @ (k, v) # post \<and> fst ` set pre \<subseteq> K)"

lemma distinct_without: "distinct (map fst es) \<Longrightarrow> distinct (map fst (without k es))"
  by (induction es) (auto simp: without_def)

lemma keys_without: "fst ` set (without k es) = fst ` set es - {k}"
  by (auto simp: without_def)

lemma without_append: "without k (es @ fs) = without k es @ without k fs"
  by (simp add: without_def)

lemma recent_move:
  assumes "recent K k v es" "k' \<in> K" "k' \<noteq> k"
  shows "recent K k v ((k', v') # without k' es)"
proof -
  obtain pre post where es: "es = pre @ (k, v) # post" "fst ` set pre \<subseteq> K" using assms(1) by (auto simp: recent_def)
  have "without k' es = without k' pre @ (k, v) # without k' post"
    using assms(3) by (simp add: es(1) without_append) (simp add: without_def)
  moreover have "fst ` set ((k', v') # without k' pre) \<subseteq> K" using es(2) assms(2) keys_without [of k' pre] by auto
  moreover have "distinct (map fst ((k', v') # without k' es))"
    using distinct_without [of es k'] assms(1) keys_without [of k' es] by (auto simp: recent_def)
  ultimately show ?thesis unfolding recent_def by (metis append_Cons)
qed

lemma recent_insert:
  assumes "recent K k v es" "k' \<in> K" "k' \<noteq> k" "k' \<notin> fst ` set es" "finite K" "card K < cap"
  shows "recent K k v (take cap ((k', v') # es))"
proof -
  obtain pre post where es: "es = pre @ (k, v) # post" "fst ` set pre \<subseteq> K" and d: "distinct (map fst es)"
    using assms(1) by (auto simp: recent_def)
  have sub: "set (map fst ((k', v') # pre)) \<subseteq> K" using es(2) assms(2) by auto
  moreover have "distinct (map fst ((k', v') # pre))" using d assms(4) by (auto simp: es(1))
  ultimately have "length ((k', v') # pre) \<le> card K"
    using card_mono [OF assms(5) sub] distinct_card [of "map fst ((k', v') # pre)"] by simp
  then have "take cap ((k', v') # es) = ((k', v') # pre) @ (k, v) # take (cap - length pre - 2) post"
    using assms(6) by (simp add: es(1) take_Cons' numeral_2_eq_2)
  moreover have "distinct (map fst (take cap ((k', v') # es)))"
    using d assms(4) unfolding take_map [symmetric] by (intro distinct_take) auto
  ultimately show ?thesis
    unfolding recent_def using sub by (metis list.set_map)
qed

lemma lru_run_recent:
  assumes "recent K k v es" "k \<notin> K" "finite K" "card K < cap" "ClearCall \<notin> set cs" "\<Union> (call_keys ` set cs) \<subseteq> K"
  shows "recent K k v (snd (lru_run cap cs es))"
  using assms(1,5,6)
proof (induction cs arbitrary: es)
  case (Cons c cs)
  have "recent K k v (snd (lru_set cap k' v' es))" if "k' \<in> K" for k' v'
    using recent_move [OF Cons.prems(1) that] recent_insert [OF Cons.prems(1) that _ _ assms(3,4)] assms(2) that
    by (auto simp: lru_set_def)
  moreover have "recent K k v (snd (lru_get k' es))" if "k' \<in> K" for k'
    using recent_move [OF Cons.prems(1) that] Cons.prems(1) assms(2) that by (auto simp: lru_get_def split: option.splits)
  ultimately show ?case
    using Cons.IH Cons.prems(2,3) by (cases c) (auto simp: split_beta Let_def)
qed simp

lemma recent_lookup: "recent K k v es \<Longrightarrow> map_of es k = Some v"
  by (auto simp: recent_def map_of_eq_Some_iff)

lemma lru_run_append:
  "lru_run cap (cs @ ds) es = (let (rs, es) = lru_run cap cs es; (rs', es) = lru_run cap ds es in (rs @ rs', es))"
proof (induction cs arbitrary: es)
  case (Cons c cs)
  then show ?case by (cases c) (simp_all add: split_beta Let_def)
qed (simp add: split_beta Let_def)

lemma distinct_lru_set: "distinct (map fst es) \<Longrightarrow> distinct (map fst (snd (lru_set cap k v es)))"
proof (cases "k \<in> fst ` set es")
  case True
  assume "distinct (map fst es)"
  with True show ?thesis
    using distinct_without [of es k] keys_without [of k es] by (auto simp: lru_set_def)
next
  case False
  assume "distinct (map fst es)"
  with False have "distinct (map fst (take cap ((k, v) # es)))"
    unfolding take_map [symmetric] by (intro distinct_take) auto
  with False show ?thesis by (simp add: lru_set_def)
qed

lemma distinct_lru_get: "distinct (map fst es) \<Longrightarrow> distinct (map fst (snd (lru_get k es)))"
  using distinct_without [of es k] keys_without [of k es] by (auto simp: lru_get_def split: option.splits)

lemma lru_run_distinct: "distinct (map fst es) \<Longrightarrow> distinct (map fst (snd (lru_run cap cs es)))"
proof (induction cs arbitrary: es)
  case (Cons c cs)
  then show ?case
    by (cases c) (simp_all add: split_beta Let_def distinct_lru_set distinct_lru_get)
qed simp

lemma lru_set_recent: "distinct (map fst es) \<Longrightarrow> 0 < cap \<Longrightarrow> recent {} k v (snd (lru_set cap k v es))"
proof -
  assume a: "distinct (map fst es)" "0 < cap"
  have "\<exists>post. snd (lru_set cap k v es) = [] @ (k, v) # post"
    using a(2) by (cases cap) (simp_all add: lru_set_def)
  then obtain post where "snd (lru_set cap k v es) = [] @ (k, v) # post" ..
  with distinct_lru_set [OF a(1), of cap k v] show ?thesis unfolding recent_def by (metis empty_subsetI image_empty list.set(1))
qed

lemma recent_mono: "recent K k v es \<Longrightarrow> K \<subseteq> K' \<Longrightarrow> recent K' k v es"
proof -
  assume "recent K k v es" "K \<subseteq> K'"
  then obtain pre post where "es = pre @ (k, v) # post" "fst ` set pre \<subseteq> K'" "distinct (map fst es)"
    unfolding recent_def by blast
  then show ?thesis unfolding recent_def by blast
qed

subsection \<open>Properties\<close>

text \<open>
  C8: The LRU cache on the linked list behaves as the abstract cache. For every history of \<open>Set\<close>, \<open>Get\<close>
  and \<open>Clear\<close> on a new cache of any capacity, no call panics, every answer is that of a list of entries ordered by
  recency in which a new key drops the last entry when the capacity is exceeded, and the index never holds more keys than the
  capacity.
\<close>

theorem lru_cache_refines:
  "\<exists>c'. run_calls dll_ops cs (NewCache dll_ops n) = Some (fst (lru_run (nat n) cs []), c') \<and>
     int (card (dom (map_of (items c')))) \<le> max 0 n \<and> capacity c' = max 0 n"
  using lru.history_refines [of cs n] lru.cache_rel_size by metis

text \<open>
  A value stays available as long as fewer than \<open>capacity\<close> other keys were used since. After any history, when a key is
  set and then any calls follow that touch fewer than \<open>capacity\<close> distinct other keys and do not clear the cache, getting
  the key returns the value that was set.
\<close>

theorem lru_keeps_recent_keys:
  assumes "ClearCall \<notin> set cs" "k \<notin> \<Union> (call_keys ` set cs)" "int (card (\<Union> (call_keys ` set cs))) < n"
  shows "\<exists>rs c'. run_calls dll_ops (before @ SetCall k v # cs @ [GetCall k]) (NewCache dll_ops n) = Some (rs, c') \<and>
    last rs = Got (Some v)"
proof -
  let ?K = "\<Union> (call_keys ` set cs)"
  have "finite (call_keys c)" for c :: "'a call" by (cases c) auto
  then have fin: "finite ?K" by simp
  have cap: "card ?K < nat n" "0 < nat n" using assms(3) by linarith+
  obtain rs0 es0 where b: "lru_run (nat n) before ([] :: (string \<times> 'a) list) = (rs0, es0)" by fastforce
  then have "distinct (map fst es0)" using lru_run_distinct [of "[]" "nat n" before] by simp
  then have "recent ?K k v (snd (lru_set (nat n) k v es0))"
    using recent_mono [OF lru_set_recent [OF _ cap(2)] empty_subsetI] by simp
  then have "recent ?K k v (snd (lru_run (nat n) cs (snd (lru_set (nat n) k v es0))))"
    using lru_run_recent [OF _ assms(2) fin cap(1) assms(1) subset_refl] by simp
  note found = recent_lookup [OF this]
  have "last (fst (lru_run (nat n) (before @ SetCall k v # cs @ [GetCall k]) [])) = Got (Some v)"
    by (simp add: lru_run_append b split_beta Let_def lru_get_def found)
  then show ?thesis
    using lru.history_refines [of "before @ SetCall k v # cs @ [GetCall k]" n] by metis
qed

theorem lru_keeps_recent_keys_witness:
  "\<exists>rs c'. run_calls dll_ops ([SetCall ''a'' (1::nat), SetCall ''b'' 2] @ SetCall ''c'' 3 # [SetCall ''d'' 4, GetCall ''d''] @ [GetCall ''c''])
     (NewCache dll_ops 2) = Some (rs, c') \<and> last rs = Got (Some 3)"
  by (rule lru_keeps_recent_keys) simp_all

end
