(* ===== verification/Parallel_Run.thy ===== *)
theory Parallel_Run
  imports Go_Prelude
begin

text \<open>
  The task runner of \<open>hw05_parallel_execution/run.go\<close> as a transition system: the coordinator's loop with its
  \<open>select\<close>, the worker goroutines and the two unbuffered channels. A send and its receive are one step, the rendezvous.
  A label names the step that happens next, so an execution is a list of labels and every interleaving the Go scheduler
  may choose is one of them. \<open>fails i\<close> says whether task \<open>i\<close> returns an error.
\<close>

subsection \<open>States\<close>

text \<open>
  A worker waits in \<open>range tasks\<close>, executes a task, waits to send the result, or has ended. \<open>collected\<close> records
  the tasks whose result the coordinator has counted, in that order; the code does not read it.
\<close>

datatype worker = Idle | Busy nat | Reporting nat | Exited

datatype phase = Looping | Closed | Returned bool

record run_state =
  workers :: "worker list"
  nextTaskIndex :: nat
  runningTasks :: nat
  errorsCount :: nat
  errorsLimitExceeded :: bool
  phase :: phase
  collected :: "nat list"

record run_args =
  task_count :: nat
  fails :: "nat \<Rightarrow> bool"
  n_arg :: int
  m_arg :: int

definition worker_count :: "run_args \<Rightarrow> nat" where
  "worker_count a = (if n_arg a \<le> 0 then 1 else nat (n_arg a))"

definition Run_start :: "run_args \<Rightarrow> run_state" where
  "Run_start a = \<lparr>workers = replicate (worker_count a) Idle, nextTaskIndex = 0, runningTasks = 0, errorsCount = 0,
     errorsLimitExceeded = False, phase = Looping, collected = []\<rparr>"

definition may_dispatch :: "run_args \<Rightarrow> run_state \<Rightarrow> bool" where
  "may_dispatch a s \<longleftrightarrow> \<not> errorsLimitExceeded s \<and> nextTaskIndex s < task_count a"

definition loop_condition :: "run_args \<Rightarrow> run_state \<Rightarrow> bool" where
  "loop_condition a s \<longleftrightarrow> runningTasks s > 0 \<or> may_dispatch a s"

subsection \<open>Steps\<close>

datatype run_label = Dispatch nat | Finish nat | Collect nat | CloseTasks | WorkerExit nat | Return

definition worker_at :: "run_state \<Rightarrow> nat \<Rightarrow> worker option" where
  "worker_at s w = (if w < length (workers s) then Some (workers s ! w) else None)"

definition set_worker :: "nat \<Rightarrow> worker \<Rightarrow> run_state \<Rightarrow> run_state" where
  "set_worker w x s = s\<lparr>workers := (workers s)[w := x]\<rparr>"

text \<open>What the coordinator does with a received result.\<close>

definition count_result :: "run_args \<Rightarrow> nat \<Rightarrow> run_state \<Rightarrow> run_state" where
  "count_result a i s =
     (let s = s\<lparr>runningTasks := runningTasks s - 1, collected := collected s @ [i]\<rparr>
      in if fails a i \<and> m_arg a > 0
         then s\<lparr>errorsCount := errorsCount s + 1,
                errorsLimitExceeded := (int (errorsCount s + 1) \<ge> m_arg a)\<rparr>
         else s)"

fun run_step :: "run_args \<Rightarrow> run_label \<Rightarrow> run_state \<Rightarrow> run_state option" where
  "run_step a (Dispatch w) s =
     (if phase s = Looping \<and> may_dispatch a s \<and> worker_at s w = Some Idle
      then Some (set_worker w (Busy (nextTaskIndex s))
             (s\<lparr>nextTaskIndex := nextTaskIndex s + 1, runningTasks := runningTasks s + 1\<rparr>))
      else None)"
| "run_step a (Finish w) s =
     (case worker_at s w of Some (Busy i) \<Rightarrow> Some (set_worker w (Reporting i) s) | _ \<Rightarrow> None)"
| "run_step a (Collect w) s =
     (case worker_at s w of
        Some (Reporting i) \<Rightarrow>
          if phase s = Looping \<and> loop_condition a s then Some (count_result a i (set_worker w Idle s)) else None
      | _ \<Rightarrow> None)"
| "run_step a CloseTasks s =
     (if phase s = Looping \<and> \<not> loop_condition a s then Some (s\<lparr>phase := Closed\<rparr>) else None)"
| "run_step a (WorkerExit w) s =
     (if phase s \<noteq> Looping \<and> worker_at s w = Some Idle then Some (set_worker w Exited s) else None)"
| "run_step a Return s =
     (if phase s = Closed \<and> list_all (\<lambda>w. w = Exited) (workers s)
      then Some (s\<lparr>phase := Returned (errorsLimitExceeded s)\<rparr>) else None)"

inductive run_reachable :: "run_args \<Rightarrow> run_state \<Rightarrow> bool" for a where
  start: "run_reachable a (Run_start a)"
| step: "run_reachable a s \<Longrightarrow> run_step a l s = Some s' \<Longrightarrow> run_reachable a s'"

fun run_exec :: "run_args \<Rightarrow> run_label list \<Rightarrow> run_state \<Rightarrow> run_state option" where
  "run_exec a [] s = Some s"
| "run_exec a (l # ls) s = (case run_step a l s of None \<Rightarrow> None | Some s' \<Rightarrow> run_exec a ls s')"

lemma run_exec_reachable: "run_reachable a s \<Longrightarrow> run_exec a ls s = Some s' \<Longrightarrow> run_reachable a s'"
  by (induction ls arbitrary: s) (auto split: option.splits intro: run_reachable.step)

subsection \<open>Invariant\<close>

fun task_of :: "worker \<Rightarrow> nat multiset" where
  "task_of (Busy i) = {#i#}"
| "task_of (Reporting i) = {#i#}"
| "task_of _ = {#}"

definition active :: "worker list \<Rightarrow> nat multiset" where
  "active ws = sum_list (map task_of ws)"

lemma active_update: "w < length ws \<Longrightarrow> active (ws[w := x]) + task_of (ws ! w) = active ws + task_of x"
proof (induction ws arbitrary: w)
  case (Cons v ws)
  then show ?case by (cases w) (auto simp: active_def ac_simps)
qed simp

lemma active_size: "size (active ws) \<le> length ws"
proof (induction ws)
  case (Cons v ws)
  then show ?case by (cases v) (auto simp: active_def)
qed (simp add: active_def)

definition failed :: "run_args \<Rightarrow> run_state \<Rightarrow> nat" where
  "failed a s = length (filter (fails a) (collected s))"

definition succeeded :: "run_args \<Rightarrow> run_state \<Rightarrow> nat" where
  "succeeded a s = length (filter (\<lambda>i. \<not> fails a i) (collected s))"

lemma collected_split: "length (collected s) = failed a s + succeeded a s"
  using sum_length_filter_compl [of "fails a" "collected s"] by (simp add: failed_def succeeded_def)

definition tasks_upto :: "nat \<Rightarrow> nat multiset" where
  "tasks_upto n = mset [0..<n]"

lemma tasks_upto_simps [simp]: "tasks_upto 0 = {#}" "tasks_upto (Suc n) = add_mset n (tasks_upto n)" "size (tasks_upto n) = n"
  by (simp_all add: tasks_upto_def del: mset_upt)

text \<open>Every started task is with exactly one worker or was collected once.\<close>

definition tasks_ok :: "run_args \<Rightarrow> run_state \<Rightarrow> bool" where
  "tasks_ok a s \<longleftrightarrow> length (workers s) = worker_count a \<and>
     active (workers s) + mset (collected s) = tasks_upto (nextTaskIndex s) \<and>
     runningTasks s = size (active (workers s)) \<and> nextTaskIndex s \<le> task_count a"

text \<open>The error count is that of the collected results, and bounds how many tasks were started.\<close>

definition limits_ok :: "run_args \<Rightarrow> run_state \<Rightarrow> bool" where
  "limits_ok a s \<longleftrightarrow> errorsCount s = (if m_arg a > 0 then failed a s else 0) \<and>
     (errorsLimitExceeded s \<longleftrightarrow> m_arg a > 0 \<and> m_arg a \<le> int (failed a s)) \<and>
     (m_arg a > 0 \<longrightarrow> int (nextTaskIndex s) \<le> int (succeeded a s) + m_arg a + int (worker_count a) - 1)"

definition phase_ok :: "run_args \<Rightarrow> run_state \<Rightarrow> bool" where
  "phase_ok a s \<longleftrightarrow> (phase s = Looping \<longrightarrow> Exited \<notin> set (workers s)) \<and>
     (phase s \<noteq> Looping \<longrightarrow> \<not> loop_condition a s) \<and>
     (\<forall>b. phase s = Returned b \<longrightarrow> b = errorsLimitExceeded s \<and> set (workers s) \<subseteq> {Exited})"

definition run_inv :: "run_args \<Rightarrow> run_state \<Rightarrow> bool" where
  "run_inv a s \<longleftrightarrow> tasks_ok a s \<and> limits_ok a s \<and> phase_ok a s"

lemma worker_count_pos: "0 < worker_count a"
  by (simp add: worker_count_def)

lemma run_inv_start: "run_inv a (Run_start a)"
proof -
  have "active (replicate n Idle) = {#}" for n by (induction n) (auto simp: active_def)
  then show ?thesis
    using worker_count_pos [of a]
    by (auto simp: run_inv_def tasks_ok_def limits_ok_def phase_ok_def Run_start_def failed_def succeeded_def)
qed

lemma started_eq:
  assumes "tasks_ok a s"
  shows "nextTaskIndex s = runningTasks s + failed a s + succeeded a s"
proof -
  have "active (workers s) + mset (collected s) = tasks_upto (nextTaskIndex s)"
    using assms by (simp add: tasks_ok_def)
  from arg_cong [OF this, of size] have "size (active (workers s)) + length (collected s) = nextTaskIndex s"
    by simp
  with assms collected_split [of s a] show ?thesis by (simp add: tasks_ok_def)
qed

lemma worker_at_Some: "worker_at s w = Some x \<longleftrightarrow> w < length (workers s) \<and> workers s ! w = x"
  by (auto simp: worker_at_def)

lemma update_not_exited: "Exited \<notin> set ws \<Longrightarrow> x \<noteq> Exited \<Longrightarrow> Exited \<notin> set (ws[w := x])"
  using set_update_subset_insert [of ws w x] by blast

lemma run_inv_dispatch:
  assumes "run_inv a s" "run_step a (Dispatch w) s = Some s'"
  shows "run_inv a s'"
proof -
  have c: "phase s = Looping" "may_dispatch a s" "w < length (workers s)" "workers s ! w = Idle"
    using assms(2) by (auto simp: worker_at_Some split: if_splits)
  have s': "s' = set_worker w (Busy (nextTaskIndex s)) (s\<lparr>nextTaskIndex := nextTaskIndex s + 1, runningTasks := runningTasks s + 1\<rparr>)"
    using assms(2) by (auto split: if_splits)
  have act: "active ((workers s)[w := Busy (nextTaskIndex s)]) = add_mset (nextTaskIndex s) (active (workers s))"
    using active_update [OF c(3), of "Busy (nextTaskIndex s)"] c(4) by simp
  have t: "tasks_ok a s" and l: "limits_ok a s" and p: "phase_ok a s" using assms(1) by (auto simp: run_inv_def)
  have t': "tasks_ok a s'" using t c(2) act by (auto simp: tasks_ok_def s' set_worker_def may_dispatch_def)
  then have "runningTasks s' \<le> worker_count a" using active_size [of "workers s'"] by (simp add: tasks_ok_def)
  moreover have "int (failed a s') < m_arg a" if "m_arg a > 0"
    using c(2) l that by (auto simp: limits_ok_def may_dispatch_def s' set_worker_def failed_def)
  ultimately have "limits_ok a s'"
    using l started_eq [OF t'] by (auto simp: limits_ok_def s' set_worker_def failed_def succeeded_def)
  moreover have "phase_ok a s'"
    using p c(1) update_not_exited by (auto simp: phase_ok_def s' set_worker_def)
  ultimately show ?thesis using t' by (simp add: run_inv_def)
qed

lemma run_inv_finish:
  assumes "run_inv a s" "run_step a (Finish w) s = Some s'"
  shows "run_inv a s'"
proof -
  obtain i where c: "w < length (workers s)" "workers s ! w = Busy i" and s': "s' = set_worker w (Reporting i) s"
    using assms(2) by (auto simp: worker_at_Some split: option.splits worker.splits)
  have act: "active ((workers s)[w := Reporting i]) = active (workers s)"
    using active_update [OF c(1), of "Reporting i"] c(2) by simp
  have "\<not> set (workers s) \<subseteq> {Exited}" using c by (metis nth_mem singletonD subsetD worker.distinct(9))
  with assms(1) act update_not_exited show ?thesis
    by (auto simp: run_inv_def tasks_ok_def limits_ok_def phase_ok_def s' set_worker_def failed_def succeeded_def
        loop_condition_def may_dispatch_def)
qed

lemma run_inv_collect:
  assumes "run_inv a s" "run_step a (Collect w) s = Some s'"
  shows "run_inv a s'"
proof -
  obtain i where c: "w < length (workers s)" "workers s ! w = Reporting i" "phase s = Looping"
      and s': "s' = count_result a i (set_worker w Idle s)"
    using assms(2) by (auto simp: worker_at_Some split: option.splits worker.splits if_splits)
  have act: "add_mset i (active ((workers s)[w := Idle])) = active (workers s)"
    using active_update [OF c(1), of Idle] c(2) by simp
  have t: "tasks_ok a s" and l: "limits_ok a s" and p: "phase_ok a s" using assms(1) by (auto simp: run_inv_def)
  have fields: "workers s' = (workers s)[w := Idle]" "collected s' = collected s @ [i]" "nextTaskIndex s' = nextTaskIndex s"
      "runningTasks s' = runningTasks s - 1" "phase s' = Looping"
    using c(3) by (auto simp: s' count_result_def set_worker_def Let_def)
  have counts: "failed a s' = failed a s + (if fails a i then 1 else 0)" "succeeded a s' = succeeded a s + (if fails a i then 0 else 1)"
    by (auto simp: failed_def succeeded_def fields)
  have "tasks_ok a s'"
    using t by (auto simp: tasks_ok_def fields act [symmetric])
  moreover have "limits_ok a s'"
  proof -
    have "errorsCount s' = (if fails a i \<and> m_arg a > 0 then errorsCount s + 1 else errorsCount s)"
      "errorsLimitExceeded s' = (if fails a i \<and> m_arg a > 0 then int (errorsCount s + 1) \<ge> m_arg a else errorsLimitExceeded s)"
      by (auto simp: s' count_result_def set_worker_def Let_def)
    with l counts show ?thesis by (auto simp: limits_ok_def fields)
  qed
  moreover have "phase_ok a s'"
    using p c(3) update_not_exited by (auto simp: phase_ok_def fields)
  ultimately show ?thesis by (simp add: run_inv_def)
qed

lemma run_inv_shutdown:
  assumes "run_inv a s" "run_step a l s = Some s'" "l = CloseTasks \<or> l = WorkerExit w \<or> l = Return"
  shows "run_inv a s'"
  using assms(3)
proof (elim disjE)
  assume l: "l = CloseTasks"
  with assms show ?thesis
    by (auto simp: run_inv_def tasks_ok_def limits_ok_def phase_ok_def failed_def succeeded_def loop_condition_def
        may_dispatch_def split: if_splits)
next
  assume l: "l = WorkerExit w"
  with assms(2) have c: "w < length (workers s)" "workers s ! w = Idle" "phase s \<noteq> Looping" "s' = set_worker w Exited s"
    by (auto simp: worker_at_Some split: if_splits)
  have act: "active ((workers s)[w := Exited]) = active (workers s)"
    using active_update [OF c(1), of Exited] c(2) by simp
  have "\<not> set (workers s) \<subseteq> {Exited}" using c by (metis nth_mem singletonD subsetD worker.distinct(5))
  with assms(1) c act show ?thesis
    by (auto simp: run_inv_def tasks_ok_def limits_ok_def phase_ok_def set_worker_def failed_def succeeded_def
        loop_condition_def may_dispatch_def)
next
  assume l: "l = Return"
  with assms show ?thesis
    by (auto simp: run_inv_def tasks_ok_def limits_ok_def phase_ok_def failed_def succeeded_def loop_condition_def
        may_dispatch_def list_all_iff split: if_splits)
qed

lemma run_inv_step: "run_inv a s \<Longrightarrow> run_step a l s = Some s' \<Longrightarrow> run_inv a s'"
  using run_inv_dispatch run_inv_finish run_inv_collect run_inv_shutdown by (cases l) blast+

lemma run_reachable_inv: "run_reachable a s \<Longrightarrow> run_inv a s"
  by (induction rule: run_reachable.induct) (auto intro: run_inv_start run_inv_step)

subsection \<open>Progress and termination\<close>

fun weight :: "worker \<Rightarrow> nat" where
  "weight Idle = 1"
| "weight (Busy _) = 3"
| "weight (Reporting _) = 2"
| "weight Exited = 0"

fun phase_weight :: "phase \<Rightarrow> nat" where
  "phase_weight Looping = 2"
| "phase_weight Closed = 1"
| "phase_weight (Returned _) = 0"

definition remaining :: "run_args \<Rightarrow> run_state \<Rightarrow> nat" where
  "remaining a s = 4 * (task_count a - nextTaskIndex s) + sum_list (map weight (workers s)) + phase_weight (phase s)"

lemma weight_update: "w < length ws \<Longrightarrow> sum_list (map weight (ws[w := x])) + weight (ws ! w) = sum_list (map weight ws) + weight x"
proof (induction ws arbitrary: w)
  case (Cons v ws)
  then show ?case by (cases w) (auto simp: ac_simps)
qed simp

lemma run_step_decreases:
  assumes "run_step a l s = Some s'"
  shows "remaining a s' < remaining a s"
proof (cases l)
  case (Dispatch w)
  with assms weight_update [of w "workers s" "Busy (nextTaskIndex s)"] show ?thesis
    by (auto simp: worker_at_Some remaining_def set_worker_def may_dispatch_def split: if_splits)
next
  case (Finish w)
  with assms obtain i where "w < length (workers s)" "workers s ! w = Busy i" "s' = set_worker w (Reporting i) s"
    by (auto simp: worker_at_Some split: option.splits worker.splits)
  with weight_update [of w "workers s" "Reporting i"] show ?thesis by (auto simp: remaining_def set_worker_def)
next
  case (Collect w)
  with assms obtain i where "w < length (workers s)" "workers s ! w = Reporting i" "s' = count_result a i (set_worker w Idle s)"
    by (auto simp: worker_at_Some split: option.splits worker.splits if_splits)
  with weight_update [of w "workers s" Idle] show ?thesis
    by (auto simp: remaining_def set_worker_def count_result_def Let_def)
next
  case (WorkerExit w)
  with assms weight_update [of w "workers s" Exited] show ?thesis
    by (auto simp: worker_at_Some remaining_def set_worker_def split: if_splits)
qed (use assms in \<open>auto simp: remaining_def split: if_splits\<close>)

lemma active_nonempty: "active ws \<noteq> {#} \<Longrightarrow> \<exists>w < length ws. \<exists>i. ws ! w = Busy i \<or> ws ! w = Reporting i"
proof (induction ws)
  case (Cons v ws)
  show ?case
  proof (cases v)
    case (Busy i)
    then show ?thesis by (intro exI [of _ 0]) auto
  next
    case (Reporting i)
    then show ?thesis by (intro exI [of _ 0]) auto
  qed (use Cons in \<open>force simp: active_def\<close>)+
qed (simp add: active_def)

lemma active_empty: "active ws = {#} \<Longrightarrow> w < length ws \<Longrightarrow> ws ! w = Idle \<or> ws ! w = Exited"
  using active_update [of w ws Idle] by (cases "ws ! w") auto

lemma run_step_enabled:
  assumes "run_inv a s" "\<forall>b. phase s \<noteq> Returned b"
  shows "\<exists>l s'. run_step a l s = Some s'"
proof -
  have t: "tasks_ok a s" and p: "phase_ok a s" using assms(1) by (auto simp: run_inv_def)
  show ?thesis
  proof (cases "phase s")
    case Looping
    show ?thesis
    proof (cases "runningTasks s = 0")
      case True
      then have none: "active (workers s) = {#}" using t by (simp add: tasks_ok_def)
      have w: "0 < length (workers s)" using t worker_count_pos [of a] by (simp add: tasks_ok_def)
      then have "workers s ! 0 = Idle"
        using active_empty [OF none w] p Looping nth_mem [OF w] unfolding phase_ok_def by metis
      then have "run_step a (if may_dispatch a s then Dispatch 0 else CloseTasks) s \<noteq> None"
        using Looping True w by (auto simp: loop_condition_def worker_at_Some)
      then show ?thesis by blast
    next
      case False
      then have "active (workers s) \<noteq> {#}" using t by (auto simp: tasks_ok_def)
      then obtain w i where w: "w < length (workers s)" "workers s ! w = Busy i \<or> workers s ! w = Reporting i"
        using active_nonempty by blast
      then have "run_step a (Finish w) s \<noteq> None \<or> run_step a (Collect w) s \<noteq> None"
        using Looping False by (auto simp: loop_condition_def worker_at_def)
      then show ?thesis by blast
    qed
  next
    case Closed
    then have none: "active (workers s) = {#}" using t p by (auto simp: tasks_ok_def phase_ok_def loop_condition_def)
    show ?thesis
    proof (cases "list_all (\<lambda>w. w = Exited) (workers s)")
      case True
      then have "run_step a Return s \<noteq> None" using Closed by simp
      then show ?thesis by blast
    next
      case False
      then obtain w where w: "w < length (workers s)" "workers s ! w \<noteq> Exited"
        by (auto simp: list_all_length)
      then have "run_step a (WorkerExit w) s \<noteq> None"
        using active_empty [OF none w(1)] Closed by (auto simp: worker_at_def)
      then show ?thesis by blast
    qed
  next
    case (Returned b)
    with assms(2) show ?thesis by blast
  qed
qed

lemma run_completes:
  assumes "run_reachable a s"
  shows "\<exists>ls s' b. run_exec a ls s = Some s' \<and> phase s' = Returned b"
  using assms
proof (induction "remaining a s" arbitrary: s rule: less_induct)
  case less
  show ?case
  proof (cases "\<exists>b. phase s = Returned b")
    case True
    then show ?thesis by (intro exI [of _ "[]"]) auto
  next
    case False
    then obtain l s1 where l: "run_step a l s = Some s1"
      using run_step_enabled [OF run_reachable_inv [OF less.prems]] by blast
    then have "run_reachable a s1" using less.prems run_reachable.step by blast
    with less.hyps [OF run_step_decreases [OF l]] obtain ls s' b where "run_exec a ls s1 = Some s'" "phase s' = Returned b"
      by blast
    with l show ?thesis by (intro exI [of _ "l # ls"]) auto
  qed
qed

lemma run_exec_length: "run_exec a ls s = Some s' \<Longrightarrow> length ls + remaining a s' \<le> remaining a s"
proof (induction ls arbitrary: s)
  case (Cons l ls)
  then show ?case using run_step_decreases [of a l s] by (fastforce split: option.splits)
qed simp

subsection \<open>Properties\<close>

text \<open>
  C9: Work is bounded under every interleaving. At any moment at most the requested number of goroutines (one, if the
  request is not positive) executes tasks, and with a positive error limit \<open>m\<close> the number of tasks ever
  started is less than \<open>n + m\<close> plus the number of tasks that succeeded: when all tasks fail, fewer than
  \<open>n + m\<close> are started.
\<close>

theorem run_bounded:
  assumes "run_reachable a s"
  shows "runningTasks s \<le> worker_count a \<and>
    (m_arg a > 0 \<longrightarrow> int (nextTaskIndex s) < int (worker_count a) + m_arg a + int (succeeded a s))"
  using run_reachable_inv [OF assms] active_size [of "workers s"]
  by (auto simp: run_inv_def tasks_ok_def limits_ok_def)

text \<open>
  C10: \<open>Run\<close> always returns. There is no deadlock: every reachable state that has not returned has a next step. There is no
  livelock: every execution from the start is at most \<open>4 * tasks + workers + 2\<close> steps long. So each execution can be continued to the
  return.
\<close>

theorem run_terminates:
  assumes "run_reachable a s"
  shows "((\<forall>b. phase s \<noteq> Returned b) \<longrightarrow> (\<exists>l s'. run_step a l s = Some s')) \<and>
    (\<exists>ls s' b. run_exec a ls s = Some s' \<and> phase s' = Returned b) \<and>
    (\<forall>ls s'. run_exec a ls (Run_start a) = Some s' \<longrightarrow> length ls \<le> 4 * task_count a + worker_count a + 2)"
proof (intro conjI allI impI)
  show "\<exists>l s'. run_step a l s = Some s'" if "\<forall>b. phase s \<noteq> Returned b"
    using run_step_enabled [OF run_reachable_inv [OF assms] that] .
  show "\<exists>ls s' b. run_exec a ls s = Some s' \<and> phase s' = Returned b"
    using run_completes [OF assms] .
  show "length ls \<le> 4 * task_count a + worker_count a + 2" if "run_exec a ls (Run_start a) = Some s'" for ls s'
    using run_exec_length [OF that] by (simp add: remaining_def Run_start_def sum_list_replicate)
qed

text \<open>
  C11: The result is right. When \<open>Run\<close> returns, all workers have ended and each started task was executed and
  counted exactly once; it returns \<open>ErrErrorsLimitExceeded\<close> if and only if the limit is positive and at least that many
  tasks failed, and otherwise every task was executed.
\<close>

theorem run_result:
  assumes "run_reachable a s" "phase s = Returned exceeded"
  shows "(exceeded \<longleftrightarrow> m_arg a > 0 \<and> int (failed a s) \<ge> m_arg a) \<and>
    set (workers s) \<subseteq> {Exited} \<and> mset (collected s) = mset [0..<nextTaskIndex s] \<and>
    (\<not> exceeded \<longrightarrow> nextTaskIndex s = task_count a)"
proof -
  have i: "tasks_ok a s" "limits_ok a s" "phase_ok a s" using run_reachable_inv [OF assms(1)] by (auto simp: run_inv_def)
  have "\<not> loop_condition a s" "exceeded = errorsLimitExceeded s" "set (workers s) \<subseteq> {Exited}"
    using i(3) assms(2) by (auto simp: phase_ok_def)
  moreover from this i(1) have "active (workers s) = {#}" by (auto simp: tasks_ok_def loop_condition_def)
  ultimately show ?thesis
    using i(1,2) by (auto simp: tasks_ok_def limits_ok_def loop_condition_def may_dispatch_def tasks_upto_def
        simp del: mset_upt)
qed

definition two_workers :: run_args where
  "two_workers = \<lparr>task_count = 4, fails = (\<lambda>i. i \<le> 1), n_arg = 2, m_arg = 1\<rparr>"

definition interleaving :: "run_label list" where
  "interleaving = [Dispatch 0, Dispatch 1, Finish 1, Finish 0, Collect 0, Collect 1, CloseTasks, WorkerExit 1, WorkerExit 0, Return]"

theorem run_bounded_witness:
  "let s = the (run_exec two_workers [Dispatch 0, Dispatch 1] (Run_start two_workers))
   in runningTasks s = 2 \<and> int (nextTaskIndex s) < 2 + 1 + int (succeeded two_workers s)"
proof -
  let ?s = "the (run_exec two_workers [Dispatch 0, Dispatch 1] (Run_start two_workers))"
  have e: "run_exec two_workers [Dispatch 0, Dispatch 1] (Run_start two_workers) = Some ?s"
    and r: "runningTasks ?s = 2" "worker_count two_workers = 2" "m_arg two_workers = 1" by code_simp+
  from run_bounded [OF run_exec_reachable [OF run_reachable.start e]] r show ?thesis by (simp add: Let_def)
qed

theorem run_terminates_witness:
  "\<exists>ls s' b. run_exec two_workers ls (Run_start two_workers) = Some s' \<and> phase s' = Returned b"
  using run_terminates [OF run_reachable.start, of two_workers] by blast

theorem run_result_witness:
  "let s = the (run_exec two_workers interleaving (Run_start two_workers))
   in phase s = Returned True \<and> mset (collected s) = mset [0..<2]"
proof -
  let ?s = "the (run_exec two_workers interleaving (Run_start two_workers))"
  have e: "run_exec two_workers interleaving (Run_start two_workers) = Some ?s"
    and r: "phase ?s = Returned True" "nextTaskIndex ?s = 2" by code_simp+
  from run_result [OF run_exec_reachable [OF run_reachable.start e] r(1)] r show ?thesis by (simp add: Let_def)
qed

end
