(* ===== verification/Go_Duration.thy ===== *)
theory Go_Duration
  imports Go_Prelude
begin

text \<open>
  \<open>strconv.Itoa\<close>, \<open>net.JoinHostPort\<close> and \<open>time.ParseDuration\<close>, which the configuration package uses. The parser of durations
  follows the library loop by loop, at the width of \<open>uint64\<close>. Its one floating-point operation, the product of a decimal fraction
  with a unit, is the parameter \<open>frac\<close>: \<open>frac f unit scale\<close> stands for \<open>uint64(float64(f) * (float64(unit) / scale))\<close>.
\<close>

subsection \<open>\<open>strconv.Itoa\<close>\<close>

fun nat_digits :: "nat \<Rightarrow> string" where
  "nat_digits n = (if n < 10 then [char_of (48 + n)] else nat_digits (n div 10) @ [char_of (48 + n mod 10)])"

declare nat_digits.simps [simp del]

definition Itoa :: "int \<Rightarrow> string" where
  "Itoa n = (if n < 0 then CHR ''-'' # nat_digits (nat (- n)) else nat_digits (nat n))"

lemma parse_digits_append:
  "parse_digits acc (xs @ ys) = (case parse_digits acc xs of None \<Rightarrow> None | Some a \<Rightarrow> parse_digits a ys)"
  by (induction xs arbitrary: acc) auto

lemma digit_char:
  assumes "d < 10"
  shows "is_ascii_digit (char_of (48 + d))" "digit_val (char_of (48 + d)) = d"
proof -
  have "(of_char (char_of (48 + d) :: char) :: nat) = 48 + d" using assms by (simp add: of_char_of)
  then show "is_ascii_digit (char_of (48 + d))" "digit_val (char_of (48 + d)) = d"
    using assms by (simp_all add: is_ascii_digit_def digit_val_def)
qed

lemma parse_nat_digits: "parse_digits 0 (nat_digits n) = Some n"
proof (induction n rule: nat_digits.induct)
  case (1 n)
  then show ?case
    using digit_char [of n] digit_char [of "n mod 10"]
    by (subst nat_digits.simps) (auto simp: parse_digits_append)
qed

lemma nat_digits_nonempty: "nat_digits n \<noteq> []"
  by (subst nat_digits.simps) simp

lemma nat_digits_all: "c \<in> set (nat_digits n) \<Longrightarrow> is_ascii_digit c"
proof (induction n rule: nat_digits.induct)
  case (1 n)
  then show ?case
    using digit_char(1) [of n] digit_char(1) [of "n mod 10"]
    by (subst (asm) nat_digits.simps) (auto split: if_splits)
qed

lemma ParseInt_Itoa: "in_int64 n \<Longrightarrow> ParseInt (Itoa n) = Some n"
proof -
  assume n: "in_int64 n"
  obtain c cs where c: "nat_digits (nat n) = c # cs" using nat_digits_nonempty by (cases "nat_digits (nat n)") auto
  then have "is_ascii_digit c" using nat_digits_all [of c "nat n"] by simp
  then have "c \<noteq> CHR ''+''" "c \<noteq> CHR ''-''" by (auto simp: is_ascii_digit_def)
  then show ?thesis
    using n c parse_nat_digits [of "nat n"] parse_nat_digits [of "nat (- n)"] nat_digits_nonempty
    by (auto simp: ParseInt_def Itoa_def Let_def)
qed

definition JoinHostPort :: "string \<Rightarrow> string \<Rightarrow> string" where
  "JoinHostPort host port =
     (if CHR '':'' \<in> set host then CHR ''['' # host @ '']:'' @ port else host @ '':'' @ port)"

subsection \<open>\<open>time.ParseDuration\<close>\<close>

definition unit_of :: "string \<Rightarrow> int option" where
  "unit_of u =
     (if u = ''ns'' then Some 1
      else if u = ''us'' \<or> u = [CHR 0xC2, CHR 0xB5, CHR ''s''] \<or> u = [CHR 0xCE, CHR 0xBC, CHR ''s''] then Some (10 ^ 3)
      else if u = ''ms'' then Some (10 ^ 6)
      else if u = ''s'' then Some (10 ^ 9)
      else if u = ''m'' then Some (60 * 10 ^ 9)
      else if u = ''h'' then Some (3600 * 10 ^ 9)
      else None)"

text \<open>\<open>None\<close>: the number exceeds \<open>1<<63\<close>.\<close>

fun leadingInt :: "int \<Rightarrow> string \<Rightarrow> (int \<times> string) option" where
  "leadingInt x [] = Some (x, [])"
| "leadingInt x (c # s) =
     (if \<not> is_ascii_digit c then Some (x, c # s)
      else if x > 2 ^ 63 div 10 then None
      else let y = x * 10 + int (digit_val c) in if y > 2 ^ 63 then None else leadingInt y s)"

text \<open>Digits that no longer fit are skipped.\<close>

fun leadingFraction :: "int \<Rightarrow> int \<Rightarrow> bool \<Rightarrow> string \<Rightarrow> int \<times> int \<times> string" where
  "leadingFraction x scale overflow [] = (x, scale, [])"
| "leadingFraction x scale overflow (c # s) =
     (if \<not> is_ascii_digit c then (x, scale, c # s)
      else if overflow then leadingFraction x scale True s
      else if x > (2 ^ 63 - 1) div 10 then leadingFraction x scale True s
      else let y = x * 10 + int (digit_val c) in
        if y > 2 ^ 63 then leadingFraction x scale True s
        else leadingFraction y (scale * 10) False s)"

definition unit_char :: "char \<Rightarrow> bool" where
  "unit_char c \<longleftrightarrow> \<not> (c = CHR ''.'' \<or> is_ascii_digit c)"

text \<open>One number with its unit; the rest of the input is shorter.\<close>

definition fraction_part :: "string \<Rightarrow> int \<times> int \<times> string \<times> bool" where
  "fraction_part s =
     (case s of
        d # r \<Rightarrow>
          if d = CHR ''.''
          then (case leadingFraction 0 1 False r of (f, sc, r') \<Rightarrow> (f, sc, r', length r' \<noteq> length r))
          else (0, 1, s, False)
      | [] \<Rightarrow> (0, 1, s, False))"

definition duration_part :: "(int \<Rightarrow> int \<Rightarrow> int \<Rightarrow> int) \<Rightarrow> string \<Rightarrow> (int \<times> string) option" where
  "duration_part frac s =
     (case s of [] \<Rightarrow> None | c # _ \<Rightarrow>
      if unit_char c then None else
      case leadingInt 0 s of None \<Rightarrow> None | Some (v, s1) \<Rightarrow>
      case fraction_part s1 of (f, scale, s2, post) \<Rightarrow>
        if length s1 = length s \<and> \<not> post then None
        else if takeWhile unit_char s2 = [] then None
        else case unit_of (takeWhile unit_char s2) of
          None \<Rightarrow> None
        | Some u \<Rightarrow>
            if v > 2 ^ 63 div u then None
            else let w = v * u + (if f > 0 then frac f u scale else 0)
                 in if f > 0 \<and> w > 2 ^ 63 then None else Some (w, dropWhile unit_char s2))"

lemma leadingInt_length: "leadingInt x s = Some (y, s') \<Longrightarrow> length s' \<le> length s"
  by (induction x s rule: leadingInt.induct) (auto simp: Let_def split: if_splits)

lemma leadingFraction_length: "leadingFraction x sc ov s = (y, sc', s') \<Longrightarrow> length s' \<le> length s"
  by (induction x sc ov s rule: leadingFraction.induct) (auto simp: Let_def split: if_splits)

lemma dropWhile_shorter: "takeWhile P s \<noteq> [] \<Longrightarrow> length (dropWhile P s) < length s"
  by (cases s) (auto simp: length_dropWhile_le le_imp_less_Suc split: if_splits)

lemma fraction_part_length: "fraction_part s = (f, sc, s', p) \<Longrightarrow> length s' \<le> length s"
  using leadingFraction_length by (fastforce simp: fraction_part_def split: list.splits if_splits prod.splits)

lemma duration_part_shorter:
  assumes "duration_part frac s = Some (w, s')"
  shows "length s' < length s"
proof -
  obtain v s1 f sc s2 p where l: "leadingInt 0 s = Some (v, s1)" and fr: "fraction_part s1 = (f, sc, s2, p)"
      and u: "takeWhile unit_char s2 \<noteq> []" and s': "s' = dropWhile unit_char s2"
    using assms unfolding duration_part_def Let_def by (auto split: list.splits if_splits option.splits prod.splits)
  show ?thesis
    using leadingInt_length [OF l] fraction_part_length [OF fr] dropWhile_shorter [OF u] s' by simp
qed

function duration_loop :: "(int \<Rightarrow> int \<Rightarrow> int \<Rightarrow> int) \<Rightarrow> int \<Rightarrow> string \<Rightarrow> int option" where
  "duration_loop frac d s =
     (if s = [] then Some d
      else case duration_part frac s of
        None \<Rightarrow> None
      | Some (v, s') \<Rightarrow> if d + v > 2 ^ 63 then None else duration_loop frac (d + v) s')"
  by pat_completeness auto
termination by (relation "measure (\<lambda>(_, _, s). length s)") (auto dest: duration_part_shorter)

declare duration_loop.simps [simp del]

definition ParseDuration :: "(int \<Rightarrow> int \<Rightarrow> int \<Rightarrow> int) \<Rightarrow> string \<Rightarrow> int option" where
  "ParseDuration frac s =
     (let (neg, s) =
        (case s of
           [] \<Rightarrow> (False, [])
         | c # cs \<Rightarrow> if c = CHR ''-'' then (True, cs) else if c = CHR ''+'' then (False, cs) else (False, s))
      in if s = ''0'' then Some 0
         else if s = [] then None
         else case duration_loop frac 0 s of
           None \<Rightarrow> None
         | Some d \<Rightarrow>
             if neg then Some (- d)
             else if d > 2 ^ 63 - 1 then None else Some d)"

lemma leadingInt_nonneg: "leadingInt x s = Some (y, s') \<Longrightarrow> 0 \<le> x \<Longrightarrow> 0 \<le> y"
  by (induction x s rule: leadingInt.induct) (auto simp: Let_def split: if_splits)

text \<open>A converted \<open>uint64\<close> is not negative.\<close>

definition frac_law :: "(int \<Rightarrow> int \<Rightarrow> int \<Rightarrow> int) \<Rightarrow> bool" where
  "frac_law frac \<longleftrightarrow> (\<forall>f u sc. 0 \<le> frac f u sc)"

lemma unit_of_pos: "unit_of u = Some k \<Longrightarrow> 0 < k"
  by (auto simp: unit_of_def split: if_splits)

lemma duration_part_nonneg:
  assumes "duration_part frac s = Some (w, s')" "frac_law frac"
  shows "0 \<le> w"
proof -
  obtain v s1 where l: "leadingInt 0 s = Some (v, s1)"
    using assms(1) by (auto simp: duration_part_def split: list.splits if_splits option.splits)
  obtain f sc s2 p where fr: "fraction_part s1 = (f, sc, s2, p)" by (cases "fraction_part s1") auto
  have "\<exists>u. unit_of (takeWhile unit_char s2) = Some u \<and> w = v * u + (if f > 0 then frac f u sc else 0)"
    using assms(1) l fr by (auto simp: duration_part_def Let_def split: list.splits if_splits option.splits)
  then obtain u where u: "0 < u" "w = v * u + (if f > 0 then frac f u sc else 0)" using unit_of_pos by blast
  then show ?thesis
    using leadingInt_nonneg [OF l] assms(2) by (simp add: frac_law_def)
qed

lemma duration_loop_bound:
  "duration_loop frac d s = Some e \<Longrightarrow> frac_law frac \<Longrightarrow> 0 \<le> d \<Longrightarrow> d \<le> 2 ^ 63 \<Longrightarrow> 0 \<le> e \<and> e \<le> 2 ^ 63"
proof (induction frac d s rule: duration_loop.induct)
  case (1 frac d s)
  show ?case
  proof (cases "s = []")
    case True
    with 1(2,4,5) show ?thesis by (simp add: duration_loop.simps [of frac d "[]"])
  next
    case False
    with 1(2) obtain v s' where v: "duration_part frac s = Some (v, s')" "\<not> d + v > 2 ^ 63" "duration_loop frac (d + v) s' = Some e"
      by (auto simp: duration_loop.simps [of frac d s] split: option.splits if_splits)
    with 1(1) [OF False v(1) refl v(2,3) 1(3)] duration_part_nonneg [OF v(1) 1(3)] 1(4) show ?thesis by simp
  qed
qed

lemma ParseDuration_in_int64:
  assumes "ParseDuration frac s = Some v" "frac_law frac"
  shows "in_int64 v"
proof -
  have "in_int64 0" by (simp add: in_int64_def min_int64_def max_int64_def)
  moreover have "in_int64 (- d)" "\<not> d > 2 ^ 63 - 1 \<Longrightarrow> in_int64 d" if "duration_loop frac 0 s' = Some d" for d s'
    using duration_loop_bound [OF that assms(2)] by (simp_all add: in_int64_def min_int64_def max_int64_def)
  ultimately show ?thesis
    using assms unfolding ParseDuration_def Let_def by (auto split: list.splits if_splits option.splits prod.splits)
qed

end
