(* ===== verification/Service_Config.thy ===== *)
theory Service_Config
  imports Calendar_Event Go_Duration Kafka Notification_Scheduler
begin

text \<open>
  The configuration package \<open>internal/config/config.go\<close>: defaults, the strict decoding of a TOML file, overrides from the
  environment and validation, for the three services. The TOML decoder of \<open>BurntSushi/toml\<close> is outside the
  sources: it is the parameter \<open>decode_file\<close>, which maps the path and the configuration with defaults to an error, or to the filled
  configuration with the keys it did not use. The environment is a map, and \<open>frac\<close> the floating-point product inside
  \<open>time.ParseDuration\<close> (see \<open>Go_Duration\<close>).
\<close>

subsection \<open>Settings\<close>

record LoggerSettings = Level :: string

record HTTPSettings =
  http_Host :: string
  http_Port :: int

record MetricsSettings =
  metrics_Host :: string
  metrics_Port :: int

record StorageSettings =
  st_Type :: string
  st_DSN :: string

record KafkaSettings =
  Brokers :: "string list"
  Topic :: string
  GroupID :: string
  ConnectTimeout :: int
  RetryInitial :: int
  RetryMax :: int
  WriteTimeout :: int
  MaxMessageBytes :: int

record SchedulerSettings =
  sch_Interval :: int
  sch_BatchSize :: int
  sch_RetentionYears :: int

record CalendarConfig =
  cal_Logger :: LoggerSettings
  cal_HTTP :: HTTPSettings
  cal_Storage :: StorageSettings

record SchedulerConfig =
  scd_Logger :: LoggerSettings
  scd_Metrics :: MetricsSettings
  scd_Storage :: StorageSettings
  scd_Kafka :: KafkaSettings
  scd_Scheduler :: SchedulerSettings

record StorerConfig =
  sto_Logger :: LoggerSettings
  sto_Metrics :: MetricsSettings
  sto_Storage :: StorageSettings
  sto_Kafka :: KafkaSettings

definition HTTP_Address :: "HTTPSettings \<Rightarrow> string" where
  "HTTP_Address c = JoinHostPort (http_Host c) (Itoa (http_Port c))"

definition Metrics_Address :: "MetricsSettings \<Rightarrow> string" where
  "Metrics_Address c = JoinHostPort (metrics_Host c) (Itoa (metrics_Port c))"

text \<open>\<open>errorf s\<close>: \<open>fmt.Errorf\<close> without a wrapped error.\<close>

definition errorf :: "message \<Rightarrow> error" where
  "errorf msg = Err (Errorf msg)"

definition UnmarshalText :: "(int \<Rightarrow> int \<Rightarrow> int \<Rightarrow> int) \<Rightarrow> string \<Rightarrow> error + int" where
  "UnmarshalText frac text =
     (case ParseDuration frac text of
        None \<Rightarrow> Inl (Wrap [Lit ''parse duration '', Quoted text] (Err (LibError ''time: invalid duration'')))
      | Some val \<Rightarrow> Inr val)"

subsection \<open>Defaults\<close>

definition defaultKafka :: KafkaSettings where
  "defaultKafka = \<lparr>Brokers = [''localhost:9092''], Topic = ''calendar.notifications'', GroupID = '''',
     ConnectTimeout = 5 * second, RetryInitial = 500 * 10 ^ 6, RetryMax = 10 * second, WriteTimeout = 10 * second,
     MaxMessageBytes = 2 ^ 20\<rparr>"

definition NewCalendarConfig :: CalendarConfig where
  "NewCalendarConfig = \<lparr>cal_Logger = \<lparr>Level = ''info''\<rparr>, cal_HTTP = \<lparr>http_Host = ''0.0.0.0'', http_Port = 8080\<rparr>,
     cal_Storage = \<lparr>st_Type = ''memory'', st_DSN = ''''\<rparr>\<rparr>"

definition NewSchedulerConfig :: SchedulerConfig where
  "NewSchedulerConfig = \<lparr>scd_Logger = \<lparr>Level = ''info''\<rparr>, scd_Metrics = \<lparr>metrics_Host = ''0.0.0.0'', metrics_Port = 8081\<rparr>,
     scd_Storage = \<lparr>st_Type = ''sql'', st_DSN = ''''\<rparr>, scd_Kafka = defaultKafka,
     scd_Scheduler = \<lparr>sch_Interval = 60 * second, sch_BatchSize = 100, sch_RetentionYears = 1\<rparr>\<rparr>"

definition NewStorerConfig :: StorerConfig where
  "NewStorerConfig = \<lparr>sto_Logger = \<lparr>Level = ''info''\<rparr>, sto_Metrics = \<lparr>metrics_Host = ''0.0.0.0'', metrics_Port = 8082\<rparr>,
     sto_Storage = \<lparr>st_Type = ''sql'', st_DSN = ''''\<rparr>, sto_Kafka = defaultKafka\<lparr>GroupID := ''calendar-storer''\<rparr>\<rparr>"

subsection \<open>The file\<close>

type_synonym 'c decode_file = "string \<Rightarrow> 'c \<Rightarrow> error + ('c \<times> string list)"

definition decode :: "'c decode_file \<Rightarrow> string \<Rightarrow> 'c \<Rightarrow> error + 'c" where
  "decode decode_file path target =
     (if blank path then Inl (errorf [Lit ''config path is empty''])
      else case decode_file path target of
        Inl err \<Rightarrow> Inl (Wrap [Lit ''decode config '', Quoted path] err)
      | Inr (config, undecoded) \<Rightarrow>
          if length undecoded \<noteq> 0
          then Inl (errorf [Lit ''config '', Quoted path, Lit '' contains unknown fields: '', Strs undecoded])
          else Inr config)"

definition validationError :: "string \<Rightarrow> error \<Rightarrow> error" where
  "validationError path err = Wrap [Lit ''validate config '', Quoted path] err"

definition environmentError :: "string \<Rightarrow> error \<Rightarrow> error" where
  "environmentError path err = Wrap [Lit ''load config '', Quoted path, Lit '' from environment''] err"

subsection \<open>The environment\<close>

type_synonym environment = "string \<rightharpoonup> string"

definition overrideString :: "environment \<Rightarrow> string \<Rightarrow> string \<Rightarrow> string" where
  "overrideString lookup name target = (case lookup name of Some val \<Rightarrow> val | None \<Rightarrow> target)"

definition overrideInt :: "environment \<Rightarrow> string \<Rightarrow> int \<Rightarrow> error + int" where
  "overrideInt lookup name target =
     (case lookup name of
        None \<Rightarrow> Inr target
      | Some val \<Rightarrow>
          (case ParseInt (TrimSpace val) of
             None \<Rightarrow> Inl (Wrap [Lit ''parse '', Plain name] (Err (LibError ''strconv.Atoi'')))
           | Some parsed \<Rightarrow> Inr parsed))"

definition overrideDuration :: "(int \<Rightarrow> int \<Rightarrow> int \<Rightarrow> int) \<Rightarrow> environment \<Rightarrow> string \<Rightarrow> int \<Rightarrow> error + int" where
  "overrideDuration frac lookup name target =
     (case lookup name of
        None \<Rightarrow> Inr target
      | Some val \<Rightarrow>
          (case ParseDuration frac (TrimSpace val) of
             None \<Rightarrow> Inl (Wrap [Lit ''parse '', Plain name] (Err (LibError ''time: invalid duration'')))
           | Some parsed \<Rightarrow> Inr parsed))"

definition applyCommonEnvironment :: "LoggerSettings \<Rightarrow> StorageSettings \<Rightarrow> environment \<Rightarrow> LoggerSettings \<times> StorageSettings" where
  "applyCommonEnvironment logger storage lookup =
     (logger\<lparr>Level := overrideString lookup ''CALENDAR_LOGGER_LEVEL'' (Level logger)\<rparr>,
      storage\<lparr>st_Type := overrideString lookup ''CALENDAR_STORAGE_TYPE'' (st_Type storage),
        st_DSN := overrideString lookup ''CALENDAR_STORAGE_DSN'' (st_DSN storage)\<rparr>)"

definition applyMetricsEnvironment :: "MetricsSettings \<Rightarrow> environment \<Rightarrow> error + MetricsSettings" where
  "applyMetricsEnvironment config lookup =
     (let config = config\<lparr>metrics_Host := overrideString lookup ''CALENDAR_METRICS_HOST'' (metrics_Host config)\<rparr>
      in case overrideInt lookup ''CALENDAR_METRICS_PORT'' (metrics_Port config) of
           Inl err \<Rightarrow> Inl err | Inr port \<Rightarrow> Inr (config\<lparr>metrics_Port := port\<rparr>))"

definition applyKafkaEnvironment :: "(int \<Rightarrow> int \<Rightarrow> int \<Rightarrow> int) \<Rightarrow> KafkaSettings \<Rightarrow> environment \<Rightarrow> error + KafkaSettings" where
  "applyKafkaEnvironment frac config lookup =
     (let config = (case lookup ''CALENDAR_KAFKA_BROKERS'' of
            Some val \<Rightarrow> config\<lparr>Brokers := map TrimSpace (go_split (CHR '','') val)\<rparr> | None \<Rightarrow> config);
          config = config\<lparr>Topic := overrideString lookup ''CALENDAR_KAFKA_TOPIC'' (Topic config)\<rparr>;
          config = config\<lparr>GroupID := overrideString lookup ''CALENDAR_KAFKA_GROUP_ID'' (GroupID config)\<rparr>
      in case overrideDuration frac lookup ''CALENDAR_KAFKA_CONNECT_TIMEOUT'' (ConnectTimeout config) of
           Inl err \<Rightarrow> Inl err | Inr connect \<Rightarrow>
         case overrideDuration frac lookup ''CALENDAR_KAFKA_RETRY_INITIAL'' (RetryInitial config) of
           Inl err \<Rightarrow> Inl err | Inr initial \<Rightarrow>
         case overrideDuration frac lookup ''CALENDAR_KAFKA_RETRY_MAX'' (RetryMax config) of
           Inl err \<Rightarrow> Inl err | Inr maximum \<Rightarrow>
         case overrideDuration frac lookup ''CALENDAR_KAFKA_WRITE_TIMEOUT'' (WriteTimeout config) of
           Inl err \<Rightarrow> Inl err | Inr write \<Rightarrow>
         case overrideInt lookup ''CALENDAR_KAFKA_MAX_MESSAGE_BYTES'' (MaxMessageBytes config) of
           Inl err \<Rightarrow> Inl err | Inr bytes \<Rightarrow>
           Inr (config\<lparr>ConnectTimeout := connect, RetryInitial := initial, RetryMax := maximum, WriteTimeout := write,
             MaxMessageBytes := bytes\<rparr>))"

definition applyCalendarEnvironment :: "CalendarConfig \<Rightarrow> environment \<Rightarrow> error + CalendarConfig" where
  "applyCalendarEnvironment config lookup =
     (case applyCommonEnvironment (cal_Logger config) (cal_Storage config) lookup of (logger, storage) \<Rightarrow>
      let http = (cal_HTTP config)\<lparr>http_Host := overrideString lookup ''CALENDAR_HTTP_HOST'' (http_Host (cal_HTTP config))\<rparr>
      in case overrideInt lookup ''CALENDAR_HTTP_PORT'' (http_Port http) of
           Inl err \<Rightarrow> Inl err
         | Inr port \<Rightarrow> Inr (config\<lparr>cal_Logger := logger, cal_Storage := storage, cal_HTTP := http\<lparr>http_Port := port\<rparr>\<rparr>))"

definition applySchedulerEnvironment ::
  "(int \<Rightarrow> int \<Rightarrow> int \<Rightarrow> int) \<Rightarrow> SchedulerConfig \<Rightarrow> environment \<Rightarrow> error + SchedulerConfig" where
  "applySchedulerEnvironment frac config lookup =
     (case applyCommonEnvironment (scd_Logger config) (scd_Storage config) lookup of (logger, storage) \<Rightarrow>
      case applyMetricsEnvironment (scd_Metrics config) lookup of Inl err \<Rightarrow> Inl err | Inr metrics \<Rightarrow>
      case applyKafkaEnvironment frac (scd_Kafka config) lookup of Inl err \<Rightarrow> Inl err | Inr kafka \<Rightarrow>
      let sch = scd_Scheduler config in
      case overrideDuration frac lookup ''CALENDAR_SCHEDULER_INTERVAL'' (sch_Interval sch) of
        Inl err \<Rightarrow> Inl err | Inr interval \<Rightarrow>
      case overrideInt lookup ''CALENDAR_SCHEDULER_BATCH_SIZE'' (sch_BatchSize sch) of Inl err \<Rightarrow> Inl err | Inr batch \<Rightarrow>
      case overrideInt lookup ''CALENDAR_SCHEDULER_RETENTION_YEARS'' (sch_RetentionYears sch) of
        Inl err \<Rightarrow> Inl err | Inr years \<Rightarrow>
        Inr (config\<lparr>scd_Logger := logger, scd_Storage := storage, scd_Metrics := metrics, scd_Kafka := kafka,
          scd_Scheduler := sch\<lparr>sch_Interval := interval, sch_BatchSize := batch, sch_RetentionYears := years\<rparr>\<rparr>))"

definition applyStorerEnvironment :: "(int \<Rightarrow> int \<Rightarrow> int \<Rightarrow> int) \<Rightarrow> StorerConfig \<Rightarrow> environment \<Rightarrow> error + StorerConfig" where
  "applyStorerEnvironment frac config lookup =
     (case applyCommonEnvironment (sto_Logger config) (sto_Storage config) lookup of (logger, storage) \<Rightarrow>
      case applyMetricsEnvironment (sto_Metrics config) lookup of Inl err \<Rightarrow> Inl err | Inr metrics \<Rightarrow>
      case applyKafkaEnvironment frac (sto_Kafka config) lookup of Inl err \<Rightarrow> Inl err | Inr kafka \<Rightarrow>
        Inr (config\<lparr>sto_Logger := logger, sto_Storage := storage, sto_Metrics := metrics, sto_Kafka := kafka\<rparr>))"

subsection \<open>Validation\<close>

definition Logger_validate :: "LoggerSettings \<Rightarrow> error option" where
  "Logger_validate c =
     (if Level c \<in> {''error'', ''warn'', ''info'', ''debug''} then None
      else Some (errorf [Lit ''unsupported logger level '', Quoted (Level c)]))"

definition Metrics_validate :: "MetricsSettings \<Rightarrow> error option" where
  "Metrics_validate c =
     (if blank (metrics_Host c) then Some (errorf [Lit ''metrics host is empty''])
      else if metrics_Port c < 1 \<or> metrics_Port c > 65535
      then Some (errorf [Lit ''metrics port must be between 1 and 65535, got '', Num (metrics_Port c)])
      else None)"

definition Storage_validate :: "StorageSettings \<Rightarrow> bool \<Rightarrow> error option" where
  "Storage_validate c allowMemory =
     (if st_Type c = ''memory'' then
        (if allowMemory then None
         else Some (errorf [Lit ''storage type '', Quoted (st_Type c), Lit '' is not supported by this service'']))
      else if st_Type c = ''sql'' then
        (if blank (st_DSN c) then Some (errorf [Lit ''storage DSN is required for sql storage'']) else None)
      else Some (errorf [Lit ''unsupported storage type '', Quoted (st_Type c)]))"

definition isKafkaTopicNameByte :: "char \<Rightarrow> bool" where
  "isKafkaTopicNameByte value \<longleftrightarrow>
     value \<ge> CHR ''a'' \<and> value \<le> CHR ''z'' \<or> value \<ge> CHR ''A'' \<and> value \<le> CHR ''Z'' \<or>
     value \<ge> CHR ''0'' \<and> value \<le> CHR ''9'' \<or> value = CHR ''.'' \<or> value = CHR ''_'' \<or> value = CHR ''-''"

definition maxKafkaTopicNameLength :: nat where "maxKafkaTopicNameLength = 249"

definition validateKafkaTopicName :: "string \<Rightarrow> error option" where
  "validateKafkaTopicName topic =
     (if blank topic then Some (errorf [Lit ''Kafka topic is empty''])
      else if length topic > maxKafkaTopicNameLength
      then Some (errorf [Lit ''Kafka topic exceeds '', Num (int maxKafkaTopicNameLength), Lit '' bytes''])
      else if topic = ''.'' \<or> topic = ''..'' then Some (errorf [Lit ''Kafka topic '', Quoted topic, Lit '' is reserved''])
      else case find (\<lambda>b. \<not> isKafkaTopicNameByte b) topic of
        Some b \<Rightarrow> Some (errorf [Lit ''Kafka topic contains invalid character '', Quoted [b]])
      | None \<Rightarrow> None)"

definition Kafka_validate :: "KafkaSettings \<Rightarrow> bool \<Rightarrow> error option" where
  "Kafka_validate c requireGroup =
     (if length (Brokers c) = 0 then Some (errorf [Lit ''at least one Kafka broker is required''])
      else if list_ex blank (Brokers c) then Some (errorf [Lit ''Kafka broker address is empty''])
      else case validateKafkaTopicName (Topic c) of Some err \<Rightarrow> Some err | None \<Rightarrow>
      if requireGroup \<and> blank (GroupID c) then Some (errorf [Lit ''Kafka consumer group ID is empty''])
      else if ConnectTimeout c \<le> 0 then Some (errorf [Lit ''Kafka connect timeout must be positive''])
      else if RetryInitial c \<le> 0 \<or> RetryMax c \<le> 0 then Some (errorf [Lit ''Kafka retry delays must be positive''])
      else if RetryInitial c > RetryMax c
      then Some (errorf [Lit ''Kafka initial retry delay exceeds maximum retry delay''])
      else if WriteTimeout c \<le> 0 then Some (errorf [Lit ''Kafka write timeout must be positive''])
      else if MaxMessageBytes c \<le> 0 then Some (errorf [Lit ''Kafka maximum message size must be positive''])
      else None)"

definition Calendar_Validate :: "CalendarConfig \<Rightarrow> error option" where
  "Calendar_Validate c =
     (case Logger_validate (cal_Logger c) of Some err \<Rightarrow> Some err | None \<Rightarrow>
      if blank (http_Host (cal_HTTP c)) then Some (errorf [Lit ''http host is empty''])
      else if http_Port (cal_HTTP c) < 1 \<or> http_Port (cal_HTTP c) > 65535
      then Some (errorf [Lit ''http port must be between 1 and 65535, got '', Num (http_Port (cal_HTTP c))])
      else Storage_validate (cal_Storage c) True)"

definition Scheduler_Validate :: "SchedulerConfig \<Rightarrow> error option" where
  "Scheduler_Validate c =
     (case Logger_validate (scd_Logger c) of Some err \<Rightarrow> Some err | None \<Rightarrow>
      case Metrics_validate (scd_Metrics c) of Some err \<Rightarrow> Some err | None \<Rightarrow>
      case Storage_validate (scd_Storage c) False of Some err \<Rightarrow> Some err | None \<Rightarrow>
      case Kafka_validate (scd_Kafka c) False of Some err \<Rightarrow> Some err | None \<Rightarrow>
      if sch_Interval (scd_Scheduler c) \<le> 0 then Some (errorf [Lit ''scheduler interval must be positive''])
      else if sch_BatchSize (scd_Scheduler c) \<le> 0 then Some (errorf [Lit ''scheduler batch size must be positive''])
      else if sch_RetentionYears (scd_Scheduler c) \<le> 0
      then Some (errorf [Lit ''scheduler retention years must be positive''])
      else None)"

definition Storer_Validate :: "StorerConfig \<Rightarrow> error option" where
  "Storer_Validate c =
     (case Logger_validate (sto_Logger c) of Some err \<Rightarrow> Some err | None \<Rightarrow>
      case Metrics_validate (sto_Metrics c) of Some err \<Rightarrow> Some err | None \<Rightarrow>
      case Storage_validate (sto_Storage c) False of Some err \<Rightarrow> Some err | None \<Rightarrow>
      Kafka_validate (sto_Kafka c) True)"

subsection \<open>Loading\<close>

text \<open>The three loaders have the same shape; \<open>load_steps\<close> is that shape.\<close>

definition load_steps ::
  "'c decode_file \<Rightarrow> ('c \<Rightarrow> error + 'c) \<Rightarrow> ('c \<Rightarrow> error option) \<Rightarrow> 'c \<Rightarrow> string \<Rightarrow> error + 'c" where
  "load_steps decode_file env validate defaults path =
     (case decode decode_file path defaults of Inl err \<Rightarrow> Inl err | Inr config \<Rightarrow>
      case env config of Inl err \<Rightarrow> Inl (environmentError path err) | Inr config \<Rightarrow>
      case validate config of Some err \<Rightarrow> Inl (validationError path err) | None \<Rightarrow> Inr config)"

definition LoadCalendar :: "CalendarConfig decode_file \<Rightarrow> environment \<Rightarrow> string \<Rightarrow> error + CalendarConfig" where
  "LoadCalendar decode_file lookup =
     load_steps decode_file (\<lambda>c. applyCalendarEnvironment c lookup) Calendar_Validate NewCalendarConfig"

definition LoadScheduler ::
  "(int \<Rightarrow> int \<Rightarrow> int \<Rightarrow> int) \<Rightarrow> SchedulerConfig decode_file \<Rightarrow> environment \<Rightarrow> string \<Rightarrow> error + SchedulerConfig" where
  "LoadScheduler frac decode_file lookup =
     load_steps decode_file (\<lambda>c. applySchedulerEnvironment frac c lookup) Scheduler_Validate NewSchedulerConfig"

definition LoadStorer ::
  "(int \<Rightarrow> int \<Rightarrow> int \<Rightarrow> int) \<Rightarrow> StorerConfig decode_file \<Rightarrow> environment \<Rightarrow> string \<Rightarrow> error + StorerConfig" where
  "LoadStorer frac decode_file lookup =
     load_steps decode_file (\<lambda>c. applyStorerEnvironment frac c lookup) Storer_Validate NewStorerConfig"

subsection \<open>Properties\<close>

lemma sum_case_InrE:
  assumes "(case x of Inl e \<Rightarrow> Inl e | Inr y \<Rightarrow> f y) = Inr z"
  obtains y where "x = Inr y" "f y = Inr z"
  using assms by (cases x) auto

lemma load_stepsE:
  assumes "load_steps df env validate defaults path = Inr c"
  obtains f where "\<not> blank path" "df path defaults = Inr (f, [])" "env f = Inr c" "validate c = None"
  using assms by (auto simp: load_steps_def decode_def split: sum.splits option.splits if_splits prod.splits)

lemma overrideInt_Inr:
  "overrideInt env name d = Inr p \<Longrightarrow> Some p = (case env name of Some v \<Rightarrow> ParseInt (TrimSpace v) | None \<Rightarrow> Some d)"
  by (auto simp: overrideInt_def split: option.splits)

lemma topic_byte_agree: "isKafkaTopicNameByte = isTopicNameByte"
  by (auto simp: isKafkaTopicNameByte_def isTopicNameByte_def fun_eq_iff)

lemma topic_name_agree: "validateKafkaTopicName t = None \<longleftrightarrow> validateTopicName t = None"
  by (auto simp: validateKafkaTopicName_def validateTopicName_def topic_byte_agree maxKafkaTopicNameLength_def
      maxTopicNameLength_def split: option.splits)

lemma Kafka_validate_accepts:
  assumes "Kafka_validate k g = None"
  shows "validateTopicName (Topic k) = None \<and>
    validateRetryConfig (Brokers k) (ConnectTimeout k) (RetryInitial k) (RetryMax k) = None \<and> (g \<longrightarrow> \<not> blank (GroupID k))"
  using assms topic_name_agree [of "Topic k"]
  by (auto simp: Kafka_validate_def validateRetryConfig_def split: if_splits option.splits)

lemma loaded_scheduler_settings:
  assumes "LoadScheduler frac df env path = Inr c"
  shows "SchedConfig_Validate \<lparr>Interval = sch_Interval (scd_Scheduler c), BatchSize = sch_BatchSize (scd_Scheduler c),
      RetentionYears = sch_RetentionYears (scd_Scheduler c)\<rparr> = None \<and>
    validateTopicName (Topic (scd_Kafka c)) = None \<and>
    validateRetryConfig (Brokers (scd_Kafka c)) (ConnectTimeout (scd_Kafka c)) (RetryInitial (scd_Kafka c)) (RetryMax (scd_Kafka c)) = None \<and>
    st_Type (scd_Storage c) = ''sql'' \<and> \<not> blank (st_DSN (scd_Storage c)) \<and>
    1 \<le> metrics_Port (scd_Metrics c) \<and> metrics_Port (scd_Metrics c) \<le> 65535"
proof -
  obtain f where "Scheduler_Validate c = None"
    using load_stepsE assms unfolding LoadScheduler_def by metis
  then have "Kafka_validate (scd_Kafka c) False = None" "Storage_validate (scd_Storage c) False = None"
      "Metrics_validate (scd_Metrics c) = None" "0 < sch_Interval (scd_Scheduler c)" "0 < sch_BatchSize (scd_Scheduler c)"
      "0 < sch_RetentionYears (scd_Scheduler c)"
    by (auto simp: Scheduler_Validate_def split: option.splits if_splits)
  with Kafka_validate_accepts [of "scd_Kafka c" False] show ?thesis
    by (auto simp: SchedConfig_Validate_def Storage_validate_def Metrics_validate_def split: if_splits)
qed

text \<open>
  A configuration that loads is accepted by everything it configures. When \<open>LoadScheduler\<close> succeeds, the settings pass the
  validation of the scheduler, of the Kafka topic and of the Kafka retries, so none of these can reject them at
  start-up; the storage is SQL with a DSN and the metrics port is a port.
\<close>

theorem loaded_scheduler_config_accepted:
  assumes "LoadScheduler frac df env path = Inr c"
  shows "SchedConfig_Validate \<lparr>Interval = sch_Interval (scd_Scheduler c), BatchSize = sch_BatchSize (scd_Scheduler c),
      RetentionYears = sch_RetentionYears (scd_Scheduler c)\<rparr> = None \<and>
    validateTopicName (Topic (scd_Kafka c)) = None \<and>
    validateRetryConfig (Brokers (scd_Kafka c)) (ConnectTimeout (scd_Kafka c)) (RetryInitial (scd_Kafka c)) (RetryMax (scd_Kafka c)) = None \<and>
    st_Type (scd_Storage c) = ''sql'' \<and> \<not> blank (st_DSN (scd_Storage c)) \<and>
    1 \<le> metrics_Port (scd_Metrics c) \<and> metrics_Port (scd_Metrics c) \<le> 65535"
  by (rule loaded_scheduler_settings [OF assms])

text \<open>
  C28: The environment takes precedence over the file, and the file over the defaults. When \<open>LoadCalendar\<close> succeeds, the file was
  decoded without unknown fields on top of the defaults, each setting is the value of its environment variable if that is set and the
  value from the file otherwise, the port is the parsed number, and the result is valid.
\<close>

theorem environment_overrides_file:
  assumes "LoadCalendar df env path = Inr c"
  shows "\<exists>f. df path NewCalendarConfig = Inr (f, []) \<and> Calendar_Validate c = None \<and>
    Level (cal_Logger c) = (case env ''CALENDAR_LOGGER_LEVEL'' of Some v \<Rightarrow> v | None \<Rightarrow> Level (cal_Logger f)) \<and>
    st_Type (cal_Storage c) = (case env ''CALENDAR_STORAGE_TYPE'' of Some v \<Rightarrow> v | None \<Rightarrow> st_Type (cal_Storage f)) \<and>
    st_DSN (cal_Storage c) = (case env ''CALENDAR_STORAGE_DSN'' of Some v \<Rightarrow> v | None \<Rightarrow> st_DSN (cal_Storage f)) \<and>
    http_Host (cal_HTTP c) = (case env ''CALENDAR_HTTP_HOST'' of Some v \<Rightarrow> v | None \<Rightarrow> http_Host (cal_HTTP f)) \<and>
    Some (http_Port (cal_HTTP c)) =
      (case env ''CALENDAR_HTTP_PORT'' of Some v \<Rightarrow> ParseInt (TrimSpace v) | None \<Rightarrow> Some (http_Port (cal_HTTP f)))"
proof -
  obtain f where f: "df path NewCalendarConfig = Inr (f, [])" "applyCalendarEnvironment f env = Inr c" "Calendar_Validate c = None"
    using load_stepsE assms unfolding LoadCalendar_def by metis
  from f(2) obtain p where p: "overrideInt env ''CALENDAR_HTTP_PORT'' (http_Port (cal_HTTP f)) = Inr p"
    and c: "c = f\<lparr>cal_Logger := fst (applyCommonEnvironment (cal_Logger f) (cal_Storage f) env),
      cal_Storage := snd (applyCommonEnvironment (cal_Logger f) (cal_Storage f) env),
      cal_HTTP := (cal_HTTP f)\<lparr>http_Host := overrideString env ''CALENDAR_HTTP_HOST'' (http_Host (cal_HTTP f)), http_Port := p\<rparr>\<rparr>"
    by (auto simp: applyCalendarEnvironment_def Let_def case_prod_beta split: sum.splits)
  show ?thesis
    by (intro exI [of _ f] conjI)
      (use f in \<open>simp_all add: c applyCommonEnvironment_def overrideString_def overrideInt_Inr [OF p, symmetric]\<close>)
qed

text \<open>
  The two copies of the topic-name check, in the configuration package and in the Kafka package, accept the same names.
\<close>

theorem topic_checks_agree: "validateKafkaTopicName t = None \<longleftrightarrow> validateTopicName t = None"
  by (rule topic_name_agree)

lemma kafka_environment_retry:
  assumes "applyKafkaEnvironment frac k env = Inr k'"
  shows "\<exists>d. overrideDuration frac env ''CALENDAR_KAFKA_RETRY_MAX'' d = Inr (RetryMax k')"
  using assms unfolding applyKafkaEnvironment_def Let_def
  by (elim sum_case_InrE) (auto split: option.splits)

lemma scheduler_environment_kafka:
  assumes "applySchedulerEnvironment frac f env = Inr c"
  shows "applyKafkaEnvironment frac (scd_Kafka f) env = Inr (scd_Kafka c)"
  using assms unfolding applySchedulerEnvironment_def Let_def split_beta
  by (elim sum_case_InrE) auto

text \<open>
  Durations that come from the environment fit in 64 bits. When \<open>LoadScheduler\<close> succeeds with the variable for the
  longest retry delay set, the setting is what \<open>time.ParseDuration\<close> gives for its trimmed value, and it is in the range of
  \<open>int64\<close>, which the backoff arithmetic needs.
\<close>

theorem environment_durations_fit:
  assumes "LoadScheduler frac df env path = Inr c" "frac_law frac" "env ''CALENDAR_KAFKA_RETRY_MAX'' = Some v"
  shows "ParseDuration frac (TrimSpace v) = Some (RetryMax (scd_Kafka c)) \<and> in_int64 (RetryMax (scd_Kafka c))"
proof -
  obtain f where "applySchedulerEnvironment frac f env = Inr c"
    using load_stepsE assms(1) unfolding LoadScheduler_def by metis
  from kafka_environment_retry [OF scheduler_environment_kafka [OF this]]
  obtain d where "overrideDuration frac env ''CALENDAR_KAFKA_RETRY_MAX'' d = Inr (RetryMax (scd_Kafka c))" by blast
  then have "ParseDuration frac (TrimSpace v) = Some (RetryMax (scd_Kafka c))"
    using assms(3) by (simp add: overrideDuration_def split: option.splits)
  then show ?thesis using ParseDuration_in_int64 assms(2) by blast
qed

definition dsn_file :: "SchedulerConfig decode_file" where
  "dsn_file path c = Inr (c\<lparr>scd_Storage := \<lparr>st_Type = ''sql'', st_DSN = ''postgres://db''\<rparr>\<rparr>, [])"

definition sample_env :: environment where
  "sample_env = [''CALENDAR_KAFKA_BROKERS'' \<mapsto> ''a:1, b:2'', ''CALENDAR_SCHEDULER_BATCH_SIZE'' \<mapsto> '' 50 '',
     ''CALENDAR_KAFKA_RETRY_MAX'' \<mapsto> ''1m30s'', ''CALENDAR_HTTP_PORT'' \<mapsto> ''9090'']"

theorem loaded_scheduler_config_accepted_witness:
  "\<exists>c. LoadScheduler (\<lambda>_ _ _. 0) dsn_file sample_env ''c.toml'' = Inr c \<and>
    Brokers (scd_Kafka c) = [''a:1'', ''b:2''] \<and> sch_BatchSize (scd_Scheduler c) = 50 \<and> RetryMax (scd_Kafka c) = 90 * second \<and>
    validateTopicName (Topic (scd_Kafka c)) = None"
proof -
  let ?c = "projr (LoadScheduler (\<lambda>_ _ _. 0) dsn_file sample_env ''c.toml'')"
  have c: "LoadScheduler (\<lambda>_ _ _. 0) dsn_file sample_env ''c.toml'' = Inr ?c" by code_simp
  have "Brokers (scd_Kafka ?c) = [''a:1'', ''b:2''] \<and> sch_BatchSize (scd_Scheduler ?c) = 50 \<and> RetryMax (scd_Kafka ?c) = 90 * second"
    by code_simp
  with loaded_scheduler_config_accepted [OF c] c show ?thesis by blast
qed

theorem environment_overrides_file_witness:
  "\<exists>c. LoadCalendar (\<lambda>_ c. Inr (c, [])) sample_env ''c.toml'' = Inr c \<and> Some (http_Port (cal_HTTP c)) = ParseInt (TrimSpace ''9090'')"
proof -
  let ?c = "projr (LoadCalendar (\<lambda>_ c. Inr (c, [])) sample_env ''c.toml'')"
  have c: "LoadCalendar (\<lambda>_ c. Inr (c, [])) sample_env ''c.toml'' = Inr ?c" by code_simp
  have "sample_env ''CALENDAR_HTTP_PORT'' = Some ''9090''" by code_simp
  with environment_overrides_file [OF c] c show ?thesis by auto
qed

theorem environment_durations_fit_witness:
  "ParseDuration (\<lambda>_ _ _. 0) (TrimSpace ''1m30s'') =
     Some (RetryMax (scd_Kafka (projr (LoadScheduler (\<lambda>_ _ _. 0) dsn_file sample_env ''c.toml''))))"
proof -
  have c: "LoadScheduler (\<lambda>_ _ _. 0) dsn_file sample_env ''c.toml'' = Inr (projr (LoadScheduler (\<lambda>_ _ _. 0) dsn_file sample_env ''c.toml''))"
    by code_simp
  have "frac_law (\<lambda>_ _ _. 0)" by (simp add: frac_law_def)
  moreover have "sample_env ''CALENDAR_KAFKA_RETRY_MAX'' = Some ''1m30s''" by code_simp
  ultimately show ?thesis using environment_durations_fit [OF c] by blast
qed

end
