(* ===== verification/Frequency_Analysis.thy ===== *)
theory Frequency_Analysis
  imports Go_Prelude
begin

text \<open>
  The word statistics of \<open>hw03_frequency_analysis/top.go\<close>. The words of a text are counted in a Go map, the keys of
  the map are listed in whatever order \<open>range\<close> visits them and sorted with \<open>sort.Slice\<close>, and the first ten are
  returned. The order of \<open>range\<close> and the sorting algorithm are arguments of the model: the language and the library
  fix only that the first lists every key once and the second is a permutation sorted by a strict weak order.
\<close>

subsection \<open>\<open>strings.Fields\<close>\<close>

definition flush :: "string \<Rightarrow> string list" where
  "flush cur = (if cur = [] then [] else [cur])"

function fields_loop :: "string \<Rightarrow> string \<Rightarrow> string list" where
  "fields_loop cur s =
     (if s = [] then flush cur
      else if space_width s \<noteq> 0 then flush cur @ fields_loop [] (drop (space_width s) s)
      else fields_loop (cur @ [hd s]) (tl s))"
  by pat_completeness auto
termination by (relation "measure (length \<circ> snd)") (auto simp: neq_Nil_conv)

declare fields_loop.simps [simp del]

definition Fields :: "string \<Rightarrow> string list" where
  "Fields s = fields_loop [] s"

subsection \<open>\<open>Top10\<close>\<close>

definition topWordsLimit :: nat where "topWordsLimit = 10"

definition count_of :: "(string, nat) gomap \<Rightarrow> string \<Rightarrow> nat" where
  "count_of m w = (case map_of m w of None \<Rightarrow> 0 | Some n \<Rightarrow> n)"

definition count_words :: "string list \<Rightarrow> (string, nat) gomap" where
  "count_words ws = fold (\<lambda>w m. AList.update w (count_of m w + 1) m) ws []"

definition word_less :: "(string, nat) gomap \<Rightarrow> string \<Rightarrow> string \<Rightarrow> bool" where
  "word_less m v w = (if count_of m v = count_of m w then v < w else count_of m v > count_of m w)"

definition Top10 ::
  "(string list \<Rightarrow> string list) \<Rightarrow> ((string \<Rightarrow> string \<Rightarrow> bool) \<Rightarrow> string list \<Rightarrow> string list) \<Rightarrow> string \<Rightarrow> string list"
where
  "Top10 range_keys sort_Slice text =
     (let wordCounts = count_words (Fields text);
          words = sort_Slice (word_less wordCounts) (range_keys (map fst wordCounts))
      in if length words > topWordsLimit then take topWordsLimit words else words)"

subsection \<open>Counting\<close>

lemma count_of_update:
  "count_of (AList.update w n m) v = (if v = w then n else count_of m v)"
  by (simp add: count_of_def update_conv')

lemma count_fold:
  "count_of (fold (\<lambda>w m. AList.update w (count_of m w + 1) m) ws m) v = count_of m v + count_list ws v"
  by (induction ws arbitrary: m) (auto simp: count_of_update)

lemma count_of_words [simp]: "count_of (count_words ws) w = count_list ws w"
  unfolding count_words_def count_fold by (simp add: count_of_def)

lemma keys_fold:
  "set (map fst (fold (\<lambda>w m. AList.update w (count_of m w + 1) m) ws m)) = set (map fst m) \<union> set ws"
  by (induction ws arbitrary: m) (auto simp: dom_update)

lemma keys_count_words: "set (map fst (count_words ws)) = set ws"
  unfolding count_words_def keys_fold by simp

lemma count_words_ok: "gomap_ok (fold (\<lambda>w m. AList.update w (count_of m w + 1) m) ws m)" if "gomap_ok m"
  using that by (induction ws arbitrary: m) auto

lemma distinct_keys: "distinct (map fst (count_words ws))"
  using count_words_ok [of "[]" ws] by (simp add: count_words_def gomap_ok_def)

subsection \<open>The contracts of \<open>range\<close> and \<open>sort.Slice\<close>\<close>

definition strict_weak :: "('a \<Rightarrow> 'a \<Rightarrow> bool) \<Rightarrow> bool" where
  "strict_weak lt \<longleftrightarrow> (\<forall>a. \<not> lt a a) \<and> (\<forall>a b c. lt a b \<longrightarrow> lt b c \<longrightarrow> lt a c)
     \<and> (\<forall>a b c. lt a c \<longrightarrow> lt a b \<or> lt b c)"

locale slice_sort =
  fixes sort_Slice :: "(string \<Rightarrow> string \<Rightarrow> bool) \<Rightarrow> string list \<Rightarrow> string list"
  assumes permutes: "mset (sort_Slice lt xs) = mset xs"
    and sorts: "strict_weak lt \<Longrightarrow> sorted_wrt (\<lambda>a b. \<not> lt b a) (sort_Slice lt xs)"
begin

text \<open>When the order comes from an injective key, every sorting algorithm gives the same slice.\<close>

lemma by_key:
  fixes key :: "string \<Rightarrow> 'k::linorder"
  assumes lt: "lt = (\<lambda>a b. key a < key b)" and inj: "inj key" and perm: "mset xs = mset ys"
  shows "sort_Slice lt xs = sort_key key ys"
proof -
  have "strict_weak lt" by (auto simp: lt strict_weak_def)
  then have "sorted_wrt (\<lambda>a b. \<not> lt b a) (sort_Slice lt xs)" by (rule sorts)
  then have "sorted (map key (sort_Slice lt xs))" by (simp add: lt sorted_map not_less)
  moreover have "mset ys = mset (sort_Slice lt xs)" by (simp add: permutes perm)
  ultimately show ?thesis using inj by (metis inj_on_subset sort_key_inj_key_eq subset_UNIV)
qed

end

locale map_range =
  fixes range_keys :: "string list \<Rightarrow> string list"
  assumes visits_each: "mset (range_keys ks) = mset ks"

locale word_ranking = slice_sort + map_range
begin

lemma ranked_by_key:
  fixes key :: "string \<Rightarrow> 'k::linorder"
  assumes "lt = (\<lambda>a b. key a < key b)" "inj key" "distinct ks" "set ks = set ws"
  shows "sort_Slice lt (range_keys ks) = sort_key key (remdups ws)"
  using assms by (intro by_key) (auto simp: visits_each set_eq_iff_mset_eq_distinct [symmetric])

end

text \<open>Insertion sort, which the library uses for short slices, and the insertion order of the keys are instances.\<close>

fun insert_by :: "('a \<Rightarrow> 'a \<Rightarrow> bool) \<Rightarrow> 'a \<Rightarrow> 'a list \<Rightarrow> 'a list" where
  "insert_by lt x [] = [x]"
| "insert_by lt x (y # ys) = (if lt y x then y # insert_by lt x ys else x # y # ys)"

definition insertion_sort :: "('a \<Rightarrow> 'a \<Rightarrow> bool) \<Rightarrow> 'a list \<Rightarrow> 'a list" where
  "insertion_sort lt xs = foldr (insert_by lt) xs []"

lemma mset_insert_by [simp]: "mset (insert_by lt x ys) = add_mset x (mset ys)"
  by (induction ys) auto

lemma set_insert_by [simp]: "set (insert_by lt x ys) = insert x (set ys)"
  by (induction ys) auto

lemma insert_by_sorted:
  "strict_weak lt \<Longrightarrow> sorted_wrt (\<lambda>a b. \<not> lt b a) ys \<Longrightarrow> sorted_wrt (\<lambda>a b. \<not> lt b a) (insert_by lt x ys)"
proof (induction ys)
  case (Cons y ys)
  have asym: "\<not> lt x y" if "lt y x" using that Cons.prems(1) unfolding strict_weak_def by blast
  have neg: "\<not> lt z x" if "\<not> lt y x" "\<not> lt z y" for z using that Cons.prems(1) unfolding strict_weak_def by blast
  show ?case using Cons.IH [OF Cons.prems(1)] Cons.prems(2) asym neg by auto
qed simp

interpretation ins: word_ranking insertion_sort "\<lambda>ks. ks"
proof
  show "mset (insertion_sort lt xs) = mset xs" for lt :: "string \<Rightarrow> string \<Rightarrow> bool" and xs
    by (induction xs) (auto simp: insertion_sort_def)
  show "sorted_wrt (\<lambda>a b. \<not> lt b a) (insertion_sort lt xs)" if "strict_weak lt"
    for lt :: "string \<Rightarrow> string \<Rightarrow> bool" and xs
    using that by (induction xs) (auto simp: insertion_sort_def insert_by_sorted)
qed simp

subsection \<open>The ranking\<close>

definition rank_key :: "string list \<Rightarrow> string \<Rightarrow> int \<times> string" where
  "rank_key ws w = (- int (count_list ws w), w)"

definition ranking :: "string list \<Rightarrow> string list" where
  "ranking ws = sort_key (rank_key ws) (remdups ws)"

lemma inj_rank_key: "inj (rank_key ws)"
  by (auto simp: rank_key_def inj_def)

lemma word_less_rank: "word_less (count_words ws) = (\<lambda>v w. rank_key ws v < rank_key ws w)"
  by (auto simp: word_less_def rank_key_def fun_eq_iff)

text \<open>
  C40: whatever order \<open>range\<close> visits the map in and whatever algorithm sorts the slice, \<open>Top10\<close> returns the first ten
  words of the one ranking by falling number of occurrences, equal numbers in byte order.
\<close>

theorem Top10_ranking:
  assumes "word_ranking srt rng"
  shows "Top10 rng srt text = take 10 (ranking (Fields text))"
proof -
  have "srt (word_less (count_words (Fields text))) (rng (map fst (count_words (Fields text)))) =
      ranking (Fields text)"
    unfolding ranking_def
    by (rule word_ranking.ranked_by_key [OF assms word_less_rank inj_rank_key distinct_keys keys_count_words])
  then show ?thesis by (simp add: Top10_def Let_def topWordsLimit_def)
qed

theorem Top10_ranking_witness:
  "Top10 (\<lambda>ks. ks) insertion_sort ''b a c a'' = take 10 (ranking (Fields ''b a c a'')) \<and>
   Top10 (\<lambda>ks. ks) insertion_sort ''b a c a'' = [''a'', ''b'', ''c'']"
proof
  show "Top10 (\<lambda>ks. ks) insertion_sort ''b a c a'' = take 10 (ranking (Fields ''b a c a''))"
    by (rule Top10_ranking) (rule ins.word_ranking_axioms)
  show "Top10 (\<lambda>ks. ks) insertion_sort ''b a c a'' = [''a'', ''b'', ''c'']" by code_simp
qed

end
