(* ===== verification/Envdir_Tool.thy ===== *)
theory Envdir_Tool
  imports Go_Prelude
begin

text \<open>
  The environment tool of \<open>hw08_envdir_tool\<close>: \<open>ReadDir\<close> turns a directory into overrides, \<open>mergeEnvironment\<close> applies
  them to the environment of the process, \<open>RunCmd\<close> resolves the command in the resulting \<open>PATH\<close> and maps the outcome
  of the child to an exit code. The operating system (directory listings, file contents, which files are executable,
  what a started program does) is the record \<open>os_world\<close>, an argument of the definitions.
\<close>

subsection \<open>\<open>path/filepath\<close> on Unix\<close>

definition clean_step :: "bool \<Rightarrow> string \<Rightarrow> string list \<Rightarrow> string list" where
  "clean_step rooted e stack =
     (if e = [] \<or> e = ''.'' then stack
      else if e = ''..'' then
        (if stack \<noteq> [] \<and> hd stack \<noteq> ''..'' then tl stack else if rooted then stack else e # stack)
      else e # stack)"

definition Clean :: "string \<Rightarrow> string" where
  "Clean path =
     (let rooted = (path \<noteq> [] \<and> hd path = CHR ''/'');
          out = go_join (CHR ''/'') (rev (fold (clean_step rooted) (go_split (CHR ''/'') path) []))
      in if rooted then CHR ''/'' # out else if out = [] then ''.'' else out)"

definition Join :: "string \<Rightarrow> string \<Rightarrow> string" where
  "Join a b = (if a \<noteq> [] then Clean (a @ ''/'' @ b) else if b \<noteq> [] then Clean b else [])"

definition Base :: "string \<Rightarrow> string" where
  "Base path =
     (if path = [] then ''.''
      else let stripped = dropWhile (\<lambda>c. c = CHR ''/'') (rev path);
               last = rev (takeWhile (\<lambda>c. c \<noteq> CHR ''/'') stripped)
           in if last = [] then ''/'' else last)"

definition SplitList :: "string \<Rightarrow> string list" where
  "SplitList path = (if path = [] then [] else go_split (CHR '':'') path)"

subsection \<open>The operating system\<close>

record dir_entry =
  entry_name :: string
  entry_is_dir :: bool

datatype proc_outcome =
    Exited int
  | Signaled int
  | OtherStatus
  | RunError

record os_world =
  Environ :: "string list"
  os_ReadDir :: "string \<Rightarrow> dir_entry list option"
  os_ReadFile :: "string \<Rightarrow> string option"
  is_executable :: "string \<Rightarrow> bool"
  run_process :: "string \<Rightarrow> string list \<Rightarrow> string list \<Rightarrow> proc_outcome"

subsection \<open>\<open>env_reader.go\<close>\<close>

record EnvValue =
  Value :: string
  NeedRemove :: bool

type_synonym Environment = "(string, EnvValue) gomap"

datatype env_error = DirError string | FileError string

definition TrimRight :: "string \<Rightarrow> string" where
  "TrimRight s = rev (dropWhile (\<lambda>c. c = CHR '' '' \<or> c = CHR 0x09) (rev s))"

definition env_value :: "string \<Rightarrow> EnvValue" where
  "env_value content =
     (if content = [] then \<lparr>Value = [], NeedRemove = True\<rparr>
      else let line = takeWhile (\<lambda>c. c \<noteq> CHR 0x0A) content;
               line = map (\<lambda>c. if c = CHR 0x00 then CHR 0x0A else c) line
           in \<lparr>Value = TrimRight line, NeedRemove = False\<rparr>)"

fun read_entries :: "os_world \<Rightarrow> string \<Rightarrow> dir_entry list \<Rightarrow> Environment \<Rightarrow> env_error + Environment" where
  "read_entries os dir [] env = Inr env"
| "read_entries os dir (entry # entries) env =
     (if entry_is_dir entry \<or> CHR ''='' \<in> set (entry_name entry) then read_entries os dir entries env
      else case os_ReadFile os (Join dir (entry_name entry)) of
             None \<Rightarrow> Inl (FileError (entry_name entry))
           | Some content \<Rightarrow>
               read_entries os dir entries (AList.update (entry_name entry) (env_value content) env))"

definition ReadDir :: "os_world \<Rightarrow> string \<Rightarrow> env_error + Environment" where
  "ReadDir os dir =
     (case os_ReadDir os dir of None \<Rightarrow> Inl (DirError dir) | Some entries \<Rightarrow> read_entries os dir entries [])"

subsection \<open>\<open>executor.go\<close>\<close>

definition errorExitCode :: int where "errorExitCode = 111"

definition variable_name :: "string \<Rightarrow> string" where
  "variable_name variable = takeWhile (\<lambda>c. c \<noteq> CHR ''='') variable"

text \<open>\<open>visit\<close> is the order in which \<open>range\<close> lists the overrides.\<close>

definition mergeEnvironment :: "(Environment \<Rightarrow> Environment) \<Rightarrow> string list \<Rightarrow> Environment \<Rightarrow> string list" where
  "mergeEnvironment visit parent overrides =
     filter (\<lambda>variable. map_of overrides (variable_name variable) = None) parent @
     map (\<lambda>(name, value). name @ ''='' @ Value value)
       (filter (\<lambda>(name, value). \<not> NeedRemove value) (visit overrides))"

definition lookupEnvironment :: "string list \<Rightarrow> string \<Rightarrow> string option" where
  "lookupEnvironment environment name =
     map_option (drop (length (name @ ''=''))) (find (prefix (name @ ''='')) (rev environment))"

definition path_candidate :: "string \<Rightarrow> string \<Rightarrow> string" where
  "path_candidate directory file =
     (let directory = (if directory = [] then ''.'' else directory);
          candidate = Join directory file
      in if Base candidate = candidate then ''./'' @ candidate else candidate)"

definition lookPathInEnvironment :: "os_world \<Rightarrow> string \<Rightarrow> string list \<Rightarrow> string option" where
  "lookPathInEnvironment os file environment =
     (case lookupEnvironment environment ''PATH'' of
        None \<Rightarrow> None
      | Some path \<Rightarrow> find (is_executable os) (map (\<lambda>directory. path_candidate directory file) (SplitList path)))"

datatype diagnostic =
    CommandRequired
  | RunFailed string
  | Usage
  | ReadFailed env_error

definition command_path :: "os_world \<Rightarrow> string \<Rightarrow> string list \<Rightarrow> string option" where
  "command_path os name environment =
     (if Base name = name then lookPathInEnvironment os name environment
      else if name = [] then None else Some name)"

definition start_command :: "os_world \<Rightarrow> string \<Rightarrow> string list \<Rightarrow> string list \<Rightarrow> int \<times> diagnostic option" where
  "start_command os name args environment =
     (case command_path os name environment of
        None \<Rightarrow> (errorExitCode, Some (RunFailed name))
      | Some path \<Rightarrow>
          (case run_process os path (name # args) environment of
             Exited code \<Rightarrow> (code, None)
           | Signaled sig \<Rightarrow> (128 + sig, None)
           | OtherStatus \<Rightarrow> (errorExitCode, None)
           | RunError \<Rightarrow> (errorExitCode, Some (RunFailed name))))"

definition runCmd ::
  "(Environment \<Rightarrow> Environment) \<Rightarrow> os_world \<Rightarrow> string list \<Rightarrow> Environment \<Rightarrow> int \<times> diagnostic option" where
  "runCmd visit os cmd env =
     (case cmd of
        [] \<Rightarrow> (errorExitCode, Some CommandRequired)
      | name # args \<Rightarrow> start_command os name args (mergeEnvironment visit (Environ os) env))"

definition RunCmd ::
  "(Environment \<Rightarrow> Environment) \<Rightarrow> os_world \<Rightarrow> string list \<Rightarrow> Environment \<Rightarrow> int \<times> diagnostic option" where
  "RunCmd visit os cmd env = runCmd visit os cmd env"

subsection \<open>\<open>main.go\<close>\<close>

definition envdir_run ::
  "(Environment \<Rightarrow> Environment) \<Rightarrow> os_world \<Rightarrow> string list \<Rightarrow> int \<times> diagnostic option" where
  "envdir_run visit os arguments =
     (if length arguments < 3 then (errorExitCode, Some Usage)
      else case ReadDir os (arguments ! 1) of
             Inl err \<Rightarrow> (errorExitCode, Some (ReadFailed err))
           | Inr environment \<Rightarrow> RunCmd visit os (drop 2 arguments) environment)"

subsection \<open>The merged environment\<close>

text \<open>The overrides that \<open>ReadDir\<close> builds: one entry per name, and no name with an equals sign.\<close>

definition overrides_ok :: "Environment \<Rightarrow> bool" where
  "overrides_ok env \<longleftrightarrow> gomap_ok env \<and> list_all (\<lambda>(name, _). CHR ''='' \<notin> set name) env"

definition lookup_override :: "Environment \<Rightarrow> string list \<Rightarrow> string \<Rightarrow> string option" where
  "lookup_override env parent name =
     (case map_of env name of
        None \<Rightarrow> lookupEnvironment parent name
      | Some v \<Rightarrow> if NeedRemove v then None else Some (Value v))"

lemma variable_name_prefix:
  assumes "CHR ''='' \<notin> set name"
  shows "prefix (name @ ''='') v \<Longrightarrow> variable_name v = name"
  using assms by (auto simp: prefix_def variable_name_def takeWhile_append2 takeWhile_append)

lemma name_prefix_iff:
  "CHR ''='' \<notin> set n \<Longrightarrow> CHR ''='' \<notin> set name \<Longrightarrow> prefix (name @ ''='') (n @ ''='' @ v) \<longleftrightarrow> n = name"
  using variable_name_prefix [of name "n @ ''='' @ v"] variable_name_prefix [of n "n @ ''='' @ v"]
  by (auto simp: prefix_def)

lemma find_append: "find P (xs @ ys) = (case find P xs of None \<Rightarrow> find P ys | Some x \<Rightarrow> Some x)"
  by (induction xs) auto

lemma find_filter: "(\<And>x. P x \<Longrightarrow> Q x) \<Longrightarrow> find P (filter Q xs) = find P xs"
  by (induction xs) auto

lemma find_filter_none: "(\<And>x. P x \<Longrightarrow> \<not> Q x) \<Longrightarrow> find P (filter Q xs) = None"
  by (auto simp: find_None_iff)

lemma lookup_append:
  "lookupEnvironment (xs @ ys) name =
    (case lookupEnvironment ys name of None \<Rightarrow> lookupEnvironment xs name | Some v \<Rightarrow> Some v)"
  by (simp add: lookupEnvironment_def find_append split: option.splits)

lemma lookup_parent:
  assumes "CHR ''='' \<notin> set name"
  shows "lookupEnvironment (filter (\<lambda>v. map_of env (variable_name v) = None) parent) name =
    (if map_of env name = None then lookupEnvironment parent name else None)"
proof (cases "map_of env name = None")
  case True
  then have "find (prefix (name @ ''='')) (filter (\<lambda>v. map_of env (variable_name v) = None) (rev parent)) =
      find (prefix (name @ ''='')) (rev parent)"
    using variable_name_prefix [OF assms] by (intro find_filter) simp
  then show ?thesis using True by (simp add: lookupEnvironment_def rev_filter [symmetric])
next
  case False
  then have "find (prefix (name @ ''='')) (filter (\<lambda>v. map_of env (variable_name v) = None) (rev parent)) = None"
    using variable_name_prefix [OF assms] by (intro find_filter_none) simp
  then show ?thesis using False by (auto simp: lookupEnvironment_def rev_filter [symmetric])
qed

lemma lookup_rendered:
  assumes "overrides_ok env" "CHR ''='' \<notin> set name"
  shows "lookupEnvironment (map (\<lambda>(n, v). n @ ''='' @ Value v) (filter (\<lambda>(n, v). \<not> NeedRemove v) env)) name =
    (case map_of env name of None \<Rightarrow> None | Some v \<Rightarrow> if NeedRemove v then None else Some (Value v))"
  using assms
proof (induction env)
  case Nil
  then show ?case by (simp add: lookupEnvironment_def)
next
  case (Cons e env)
  obtain n v where e: "e = (n, v)" by fastforce
  have ok: "overrides_ok env" "CHR ''='' \<notin> set n" "n \<notin> fst ` set env"
    using Cons.prems(1) by (auto simp: overrides_ok_def gomap_ok_def e)
  then have absent: "n = name \<Longrightarrow> map_of env name = None" by (simp add: map_of_eq_None_iff)
  have one: "lookupEnvironment [n @ ''='' @ w] name = (if n = name then Some w else None)" for w
    using name_prefix_iff [OF ok(2) Cons.prems(2)] by (simp add: lookupEnvironment_def)
  let ?tail = "map (\<lambda>(n, v). n @ ''='' @ Value v) (filter (\<lambda>(n, v). \<not> NeedRemove v) env)"
  have snoc: "lookupEnvironment ((n @ ''='' @ Value v) # ?tail) name =
      (case lookupEnvironment ?tail name of None \<Rightarrow> lookupEnvironment [n @ ''='' @ Value v] name | Some v \<Rightarrow> Some v)"
    using lookup_append [of "[n @ ''='' @ Value v]" ?tail] by simp
  show ?case
  proof (cases "n = name")
    case True
    then show ?thesis using Cons.IH [OF ok(1) Cons.prems(2)] absent snoc one by (simp add: e)
  next
    case False
    then show ?thesis using Cons.IH [OF ok(1) Cons.prems(2)] snoc one by (auto simp: e split: option.splits)
  qed
qed

lemma overrides_ok_perm: "mset xs = mset ys \<Longrightarrow> overrides_ok xs = overrides_ok ys"
  unfolding overrides_ok_def gomap_ok_def list_all_iff
  by (metis mset_eq_setD mset_map mset_eq_imp_distinct_iff)

lemma map_of_perm: "mset xs = mset ys \<Longrightarrow> gomap_ok ys \<Longrightarrow> map_of xs = map_of ys"
  unfolding gomap_ok_def
  by (metis map_of_inject_set mset_eq_setD mset_map mset_eq_imp_distinct_iff)

locale map_visit =
  fixes visit :: "Environment \<Rightarrow> Environment"
  assumes visits_all: "mset (visit env) = mset env"
begin

lemma merged_lookup:
  assumes "overrides_ok env" "CHR ''='' \<notin> set name"
  shows "lookupEnvironment (mergeEnvironment visit parent env) name = lookup_override env parent name"
proof -
  have ok: "overrides_ok (visit env)" using assms(1) overrides_ok_perm [OF visits_all] by simp
  have same: "map_of (visit env) = map_of env"
    using assms(1) by (intro map_of_perm visits_all) (simp add: overrides_ok_def)
  show ?thesis
    unfolding mergeEnvironment_def lookup_append lookup_rendered [OF ok assms(2)] same
      lookup_parent [OF assms(2)] lookup_override_def
    by (auto split: option.splits)
qed

end

interpretation in_order: map_visit "\<lambda>env. env"
  by unfold_locales simp

subsection \<open>What a directory says\<close>

definition is_variable :: "dir_entry \<Rightarrow> bool" where
  "is_variable entry \<longleftrightarrow> \<not> entry_is_dir entry \<and> CHR ''='' \<notin> set (entry_name entry)"

definition listed :: "dir_entry list \<Rightarrow> string \<Rightarrow> bool" where
  "listed entries name \<longleftrightarrow> list_ex (\<lambda>e. is_variable e \<and> entry_name e = name) entries"

definition readable :: "os_world \<Rightarrow> string \<Rightarrow> dir_entry list \<Rightarrow> bool" where
  "readable os dir entries \<longleftrightarrow>
     list_all (\<lambda>e. is_variable e \<longrightarrow> os_ReadFile os (Join dir (entry_name e)) \<noteq> None) entries"

text \<open>The value a variable has in the directory, or else in the environment of the process.\<close>

definition dir_lookup :: "os_world \<Rightarrow> string \<Rightarrow> dir_entry list \<Rightarrow> string \<Rightarrow> string option" where
  "dir_lookup os dir entries name =
     (if listed entries name then
        (case os_ReadFile os (Join dir name) of
           None \<Rightarrow> None
         | Some content \<Rightarrow> if content = [] then None else Some (Value (env_value content)))
      else lookupEnvironment (Environ os) name)"

lemma NeedRemove_env_value [simp]: "NeedRemove (env_value content) \<longleftrightarrow> content = []"
  by (simp add: env_value_def Let_def)

lemma read_entries_total:
  "readable os dir entries \<Longrightarrow> \<exists>env'. read_entries os dir entries env = Inr env'"
  by (induction entries arbitrary: env) (auto simp: readable_def is_variable_def)

lemma read_entries_fails:
  "\<not> readable os dir entries \<Longrightarrow> \<exists>name. read_entries os dir entries env = Inl (FileError name)"
  by (induction entries arbitrary: env) (auto simp: readable_def is_variable_def split: option.splits)

lemma overrides_ok_keys: "overrides_ok env \<longleftrightarrow> gomap_ok env \<and> (\<forall>n \<in> fst ` set env. CHR ''='' \<notin> set n)"
  by (auto simp: overrides_ok_def list_all_iff)

lemma overrides_ok_update:
  "overrides_ok env \<Longrightarrow> CHR ''='' \<notin> set name \<Longrightarrow> overrides_ok (AList.update name v env)"
  by (simp add: overrides_ok_keys dom_update)

lemma listed_readable: "readable os dir entries \<Longrightarrow> listed entries name \<Longrightarrow> os_ReadFile os (Join dir name) \<noteq> None"
  by (auto simp: readable_def listed_def list_all_iff list_ex_iff)

lemma read_entries_ok:
  "read_entries os dir entries env = Inr env' \<Longrightarrow> overrides_ok env \<Longrightarrow> overrides_ok env'"
  by (induction entries arbitrary: env) (auto split: if_splits option.splits intro: overrides_ok_update)

lemma read_entries_lookup:
  "read_entries os dir entries env = Inr env' \<Longrightarrow>
   map_of env' name =
     (if listed entries name then map_option env_value (os_ReadFile os (Join dir name)) else map_of env name)"
proof (induction entries arbitrary: env)
  case (Cons e entries)
  then show ?case
    by (auto simp: listed_def is_variable_def update_conv' split: if_splits option.splits)
qed (simp add: listed_def)

text \<open>
  C37: when the directory and its variable files can be read, the command runs with the environment the directory says:
  a variable with a file has the value of the file, one with an empty file is removed, every other one keeps its value,
  and the exit code is that of the command run with it.
\<close>

theorem envdir_child_environment:
  assumes "map_visit visit" and dir: "os_ReadDir os dir = Some entries" "readable os dir entries"
  shows "\<exists>E. envdir_run visit os (program # dir # name # args) = start_command os name args E \<and>
    (\<forall>var. CHR ''='' \<notin> set var \<longrightarrow> lookupEnvironment E var = dir_lookup os dir entries var)"
proof -
  obtain env where env: "read_entries os dir entries [] = Inr env" using read_entries_total [OF dir(2)] by blast
  have ok: "overrides_ok env" by (rule read_entries_ok [OF env]) (simp add: overrides_ok_def)
  have "lookupEnvironment (mergeEnvironment visit (Environ os) env) var = dir_lookup os dir entries var"
    if "CHR ''='' \<notin> set var" for var
    using map_visit.merged_lookup [OF assms(1) ok that] read_entries_lookup [OF env, of var] listed_readable [OF dir(2), of var]
    by (auto simp: lookup_override_def dir_lookup_def split: option.splits)
  moreover have "envdir_run visit os (program # dir # name # args) =
      start_command os name args (mergeEnvironment visit (Environ os) env)"
    using dir(1) env by (simp add: envdir_run_def ReadDir_def RunCmd_def runCmd_def)
  ultimately show ?thesis by blast
qed

text \<open>An operating system with one directory of four files, the last of which is no variable.\<close>

definition sample_os :: os_world where
  "sample_os = \<lparr>
     Environ = [''HOME=/root'', ''PATH=/sbin::/bin'', ''OLD=1''],
     os_ReadDir = (\<lambda>d. if d = ''env'' then Some
        [\<lparr>entry_name = ''A'', entry_is_dir = False\<rparr>, \<lparr>entry_name = ''HOME'', entry_is_dir = False\<rparr>,
         \<lparr>entry_name = ''OLD'', entry_is_dir = False\<rparr>, \<lparr>entry_name = ''X=Y'', entry_is_dir = False\<rparr>] else None),
     os_ReadFile = (\<lambda>f. if f = ''env/A'' then Some ''one '' else if f = ''env/HOME'' then Some [CHR 0x0A]
        else if f = ''env/OLD'' then Some [] else None),
     is_executable = (\<lambda>f. f = ''./ls'' \<or> f = ''/bin/ls''),
     run_process = (\<lambda>path argv env. if path = ''./ls'' \<and> lookupEnvironment env ''OLD'' = None then Exited 3 else RunError)\<rparr>"

theorem envdir_child_environment_witness:
  "(\<exists>E. envdir_run (\<lambda>env. env) sample_os [''go-envdir'', ''env'', ''ls'', ''-l''] = start_command sample_os ''ls'' [''-l''] E \<and>
      lookupEnvironment E ''A'' = Some ''one'' \<and> lookupEnvironment E ''HOME'' = Some [] \<and>
      lookupEnvironment E ''OLD'' = None \<and> lookupEnvironment E ''PATH'' = Some ''/sbin::/bin'') \<and>
   envdir_run (\<lambda>env. env) sample_os [''go-envdir'', ''env'', ''ls'', ''-l''] = (3, None)"
proof
  let ?entries = "[\<lparr>entry_name = ''A'', entry_is_dir = False\<rparr>, \<lparr>entry_name = ''HOME'', entry_is_dir = False\<rparr>,
    \<lparr>entry_name = ''OLD'', entry_is_dir = False\<rparr>, \<lparr>entry_name = ''X=Y'', entry_is_dir = False\<rparr>]"
  have listing: "os_ReadDir sample_os ''env'' = Some ?entries" by code_simp
  have read: "readable sample_os ''env'' ?entries" by code_simp
  have vals: "dir_lookup sample_os ''env'' ?entries ''A'' = Some ''one''"
    "dir_lookup sample_os ''env'' ?entries ''HOME'' = Some []"
    "dir_lookup sample_os ''env'' ?entries ''OLD'' = None"
    "dir_lookup sample_os ''env'' ?entries ''PATH'' = Some ''/sbin::/bin''"
    by code_simp+
  obtain E where
    run: "envdir_run (\<lambda>env. env) sample_os [''go-envdir'', ''env'', ''ls'', ''-l''] = start_command sample_os ''ls'' [''-l''] E"
    and E: "\<And>var. CHR ''='' \<notin> set var \<Longrightarrow> lookupEnvironment E var = dir_lookup sample_os ''env'' ?entries var"
    using envdir_child_environment [OF in_order.map_visit_axioms listing read, of "''go-envdir''" "''ls''" "[''-l'']"]
    by blast
  have "lookupEnvironment E ''A'' = Some ''one''" "lookupEnvironment E ''HOME'' = Some []"
    "lookupEnvironment E ''OLD'' = None" "lookupEnvironment E ''PATH'' = Some ''/sbin::/bin''"
    by (subst E, simp, rule vals)+
  with run show "\<exists>E. envdir_run (\<lambda>env. env) sample_os [''go-envdir'', ''env'', ''ls'', ''-l''] = start_command sample_os ''ls'' [''-l''] E \<and>
      lookupEnvironment E ''A'' = Some ''one'' \<and> lookupEnvironment E ''HOME'' = Some [] \<and>
      lookupEnvironment E ''OLD'' = None \<and> lookupEnvironment E ''PATH'' = Some ''/sbin::/bin''" by blast
  show "envdir_run (\<lambda>env. env) sample_os [''go-envdir'', ''env'', ''ls'', ''-l''] = (3, None)" by code_simp
qed

subsection \<open>Writing a variable file\<close>

text \<open>The file a user writes for a value: newlines as NUL bytes, then the end of the line and whatever follows.\<close>

definition env_file :: "string \<Rightarrow> string \<Rightarrow> string" where
  "env_file v rest = map (\<lambda>c. if c = CHR 0x0A then CHR 0x00 else c) v @ CHR 0x0A # rest"

lemma TrimRight_id: "v = [] \<or> (last v \<noteq> CHR '' '' \<and> last v \<noteq> CHR 0x09) \<Longrightarrow> TrimRight v = v"
  by (cases v rule: rev_cases) (auto simp: TrimRight_def)

lemma env_value_first_line:
  "CHR 0x0A \<notin> set line \<Longrightarrow> env_value (line @ CHR 0x0A # rest) =
    \<lparr>Value = TrimRight (map (\<lambda>c. if c = CHR 0x00 then CHR 0x0A else c) line), NeedRemove = False\<rparr>"
proof -
  assume "CHR 0x0A \<notin> set line"
  then have "takeWhile (\<lambda>c. c \<noteq> CHR 0x0A) (line @ CHR 0x0A # rest) = line"
    by (subst takeWhile_append2) auto
  then show ?thesis by (simp add: env_value_def Let_def)
qed

text \<open>
  every value without NUL bytes and without blanks at its end, of one line or several and the empty one too, is read
  back from its file, whatever follows the first line of the file.
\<close>

theorem env_file_roundtrip:
  assumes "CHR 0x00 \<notin> set v" "v = [] \<or> (last v \<noteq> CHR '' '' \<and> last v \<noteq> CHR 0x09)"
  shows "env_value (env_file v rest) = \<lparr>Value = v, NeedRemove = False\<rparr>"
proof -
  have one_line: "CHR 0x0A \<notin> set (map (\<lambda>c. if c = CHR 0x0A then CHR 0x00 else c) v)" by auto
  have "map (\<lambda>c. if c = CHR 0x00 then CHR 0x0A else c) (map (\<lambda>c. if c = CHR 0x0A then CHR 0x00 else c) v) = v"
    using assms(1) by (induction v) auto
  then show ?thesis
    unfolding env_file_def env_value_first_line [OF one_line] by (simp only: TrimRight_id [OF assms(2)])
qed

theorem env_file_roundtrip_witness:
  "env_value (env_file (''a'' @ [CHR 0x0A] @ ''b'') ''tail'') = \<lparr>Value = ''a'' @ [CHR 0x0A] @ ''b'', NeedRemove = False\<rparr>"
  by (rule env_file_roundtrip) simp_all

end
