(* ===== verification/Http_Api.thy ===== *)
theory Http_Api
  imports Calendar_App
begin

text \<open>
  The handlers of the HTTP transport, \<open>internal/server/http/handler.go\<close>, and what they exchange. A handler is a function
  from the request and the state of the application to the calls it makes on the \<open>ResponseWriter\<close> and the new state.
  The libraries the transport is built on are the record \<open>http_lib\<close>, an argument of the definitions: the media type
  parser, the JSON decoder (one value and the unread rest), the parameter binding of oapi-codegen and the router of chi.
  A body is the value that is handed to the JSON encoder. Durations and clock readings are not modelled.
\<close>

subsection \<open>Requests, responses and libraries\<close>

record http_request =
  Method :: string
  URLPath :: string
  URLRawPath :: string
  Query :: "(string \<times> string) list"
  ContentType :: string
  Body :: string
  RequestURI :: string
  URLRequestURI :: string
  RemoteAddr :: string
  Proto :: string
  UserAgent :: string

record CreateEventRequest =
  cr_Description :: "string option"
  cr_EndAt :: Time
  cr_Id :: string
  cr_NotifyBeforeSeconds :: "int option"
  cr_StartAt :: Time
  cr_Title :: string
  cr_UserId :: string

record UpdateEventRequest =
  ur_Description :: "string option"
  ur_EndAt :: Time
  ur_NotifyBeforeSeconds :: "int option"
  ur_StartAt :: Time
  ur_Title :: string
  ur_UserId :: string

record api_event =
  ae_Description :: string
  ae_EndAt :: Time
  ae_Id :: string
  ae_NotifyBeforeSeconds :: int
  ae_StartAt :: Time
  ae_Title :: string
  ae_UserId :: string

text \<open>The errors of the generated code, with the text and the cause they report.\<close>

datatype param_error =
    UnescapedCookieParamError string error
  | UnmarshallingParamError string error
  | RequiredParamError string
  | RequiredHeaderError string error
  | InvalidParamFormatError string error
  | TooManyValuesForParamError string int

type_synonym error_text = "message \<times> error option"

fun param_Error :: "param_error \<Rightarrow> error_text" where
  "param_Error (UnescapedCookieParamError name err) =
     ([Lit ''error unescaping cookie parameter '', Lit [CHR 0x27], Plain name, Lit [CHR 0x27]], None)"
| "param_Error (UnmarshallingParamError name err) = ([Lit ''Error unmarshalling parameter '', Plain name, Lit '' as JSON: ''], Some err)"
| "param_Error (RequiredParamError name) = ([Lit ''Query argument '', Plain name, Lit '' is required, but not found''], None)"
| "param_Error (RequiredHeaderError name err) = ([Lit ''Header parameter '', Plain name, Lit '' is required, but not found''], None)"
| "param_Error (InvalidParamFormatError name err) = ([Lit ''Invalid format for parameter '', Plain name, Lit '': ''], Some err)"
| "param_Error (TooManyValuesForParamError name n) = ([Lit ''Expected one value for '', Plain name, Lit '', got '', Num n], None)"

fun param_Unwrap :: "param_error \<Rightarrow> error option" where
  "param_Unwrap (UnescapedCookieParamError name err) = Some err"
| "param_Unwrap (UnmarshallingParamError name err) = Some err"
| "param_Unwrap (RequiredParamError name) = None"
| "param_Unwrap (RequiredHeaderError name err) = Some err"
| "param_Unwrap (InvalidParamFormatError name err) = Some err"
| "param_Unwrap (TooManyValuesForParamError name n) = None"

datatype body =
    JsonError string string
  | JsonEvent api_event
  | JsonEvents "api_event list"
  | RawBody string
  | TextBody error_text

datatype writer_op =
    SetHeader string string
  | WriteHeader int
  | WriteBody body

text \<open>
  The handlers the program registers with chi, each with a method (\<open>*\<close> for any) and a pattern. What chi finds for a
  request is one of the registrations with the value of its URL parameter, or an answer of its own.
\<close>

datatype endpoint =
    RouteCreate
  | RouteDay
  | RouteMonth
  | RouteWeek
  | RouteDelete
  | RouteUpdate
  | RouteHello
  | RouteMetrics

type_synonym registration = "string \<times> string \<times> endpoint"

datatype chi_route =
    Matched string endpoint string
  | NoRoute string "writer_op list"

record http_lib =
  ParseMediaType :: "string \<Rightarrow> string option"
  DecodeCreate :: "string \<Rightarrow> (CreateEventRequest \<times> string) option"
  DecodeUpdate :: "string \<Rightarrow> (UpdateEventRequest \<times> string) option"
  BindPath :: "string \<Rightarrow> error + string"
  BindQuery :: "string \<Rightarrow> (string \<times> string) list \<Rightarrow> error + string"
  chi_match :: "registration list \<Rightarrow> http_request \<Rightarrow> chi_route"
  metrics_page :: "http_request \<Rightarrow> writer_op list"

text \<open>The interface \<open>Application\<close>, over any state.\<close>

record 'a application =
  app_CreateEvent :: "cctx \<Rightarrow> Event \<Rightarrow> 'a \<Rightarrow> error option \<times> 'a"
  app_UpdateEvent :: "cctx \<Rightarrow> Event \<Rightarrow> 'a \<Rightarrow> error option \<times> 'a"
  app_DeleteEvent :: "cctx \<Rightarrow> string \<Rightarrow> 'a \<Rightarrow> error option \<times> 'a"
  app_ListEventsForDay :: "cctx \<Rightarrow> string \<Rightarrow> Time \<Rightarrow> 'a \<Rightarrow> (error + Event list) \<times> 'a"
  app_ListEventsForWeek :: "cctx \<Rightarrow> string \<Rightarrow> Time \<Rightarrow> 'a \<Rightarrow> (error + Event list) \<times> 'a"
  app_ListEventsForMonth :: "cctx \<Rightarrow> string \<Rightarrow> Time \<Rightarrow> 'a \<Rightarrow> (error + Event list) \<times> 'a"

subsection \<open>The standard library\<close>

text \<open>\<open>url.PathEscape\<close>: unreserved bytes and the marks a path segment may hold stay, every other byte is \<open>%XX\<close>.\<close>

definition hex_digit :: "nat \<Rightarrow> char" where
  "hex_digit n = ''0123456789ABCDEF'' ! n"

definition path_safe :: "char \<Rightarrow> bool" where
  "path_safe c \<longleftrightarrow> (CHR ''a'' \<le> c \<and> c \<le> CHR ''z'') \<or> (CHR ''A'' \<le> c \<and> c \<le> CHR ''Z'') \<or> (CHR ''0'' \<le> c \<and> c \<le> CHR ''9'')
     \<or> c \<in> set ''-_.~$&+=:@''"

definition PathEscape :: "string \<Rightarrow> string" where
  "PathEscape s = concat (map (\<lambda>c. if path_safe c then [c]
     else [CHR ''%'', hex_digit (of_char c div 16), hex_digit (of_char c mod 16)]) s)"

text \<open>
  \<open>time.Parse("2006-01-02", s)\<close>: four, two and two digits with dashes between and nothing after, a month of the year
  and a day of the month; midnight UTC of that date.
\<close>

definition two_digits :: "char \<Rightarrow> char \<Rightarrow> int" where
  "two_digits a b = int (10 * digit_val a + digit_val b)"

definition ParseDate :: "string \<Rightarrow> Time option" where
  "ParseDate s =
     (case s of
        [y1, y2, y3, y4, s1, m1, m2, s2, d1, d2] \<Rightarrow>
          (let year = 100 * two_digits y1 y2 + two_digits y3 y4; month = two_digits m1 m2; day = two_digits d1 d2
           in if list_all is_ascii_digit [y1, y2, y3, y4, m1, m2, d1, d2] \<and> s1 = CHR ''-'' \<and> s2 = CHR ''-''
                 \<and> valid_date year month day
              then Some (Date year month day 0 0 0 0 UTC) else None)
      | _ \<Rightarrow> None)"

text \<open>\<open>net.SplitHostPort\<close>, the host only.\<close>

definition SplitHost :: "string \<Rightarrow> string option" where
  "SplitHost hostport =
     (if CHR '':'' \<notin> set hostport then None
      else if hd hostport = CHR ''['' then
        (let host = takeWhile (\<lambda>c. c \<noteq> CHR '']'') (tl hostport)
         in case dropWhile (\<lambda>c. c \<noteq> CHR '']'') (tl hostport) of
              c1 # c2 # port \<Rightarrow>
                if c2 = CHR '':'' \<and> CHR '':'' \<notin> set port \<and> CHR ''['' \<notin> set (host @ port) \<and> CHR '']'' \<notin> set port
                then Some host else None
            | _ \<Rightarrow> None)
      else (let host = takeWhile (\<lambda>c. c \<noteq> CHR '':'') hostport; port = tl (dropWhile (\<lambda>c. c \<noteq> CHR '':'') hostport)
            in if CHR '':'' \<in> set port \<or> CHR ''['' \<in> set hostport \<or> CHR '']'' \<in> set hostport then None else Some host))"

text \<open>What the \<open>ResponseWriter\<close> of \<open>net/http\<close> makes of the calls: the first final status is sent with the headers set so far.\<close>

record response_writer =
  rw_header :: "(string, string) gomap"
  rw_sent :: "(int \<times> (string, string) gomap) option"
  rw_body :: "body list"

definition fresh_writer :: response_writer where
  "fresh_writer = \<lparr>rw_header = [], rw_sent = None, rw_body = []\<rparr>"

definition informational :: "int \<Rightarrow> bool" where
  "informational s \<longleftrightarrow> 100 \<le> s \<and> s \<le> 199 \<and> s \<noteq> 101"

definition send_status :: "int \<Rightarrow> response_writer \<Rightarrow> response_writer" where
  "send_status s w =
     (if rw_sent w \<noteq> None \<or> informational s then w else w\<lparr>rw_sent := Some (s, rw_header w)\<rparr>)"

fun write_op :: "writer_op \<Rightarrow> response_writer \<Rightarrow> response_writer" where
  "write_op (SetHeader k v) w = w\<lparr>rw_header := AList.update k v (rw_header w)\<rparr>"
| "write_op (WriteHeader s) w = send_status s w"
| "write_op (WriteBody b) w = (let w' = send_status 200 w in w'\<lparr>rw_body := rw_body w' @ [b]\<rparr>)"

definition respond :: "writer_op list \<Rightarrow> response_writer" where
  "respond ops = fold write_op ops fresh_writer"

definition final_status :: "response_writer \<Rightarrow> int" where
  "final_status w = (case rw_sent w of None \<Rightarrow> 200 | Some (s, _) \<Rightarrow> s)"

subsection \<open>\<open>handler.go\<close>: writing answers\<close>

definition maxRequestBodySize :: int where "maxRequestBodySize = 2 ^ 20"

definition writeJSON :: "int \<Rightarrow> body \<Rightarrow> writer_op list" where
  "writeJSON status value = [SetHeader ''Content-Type'' ''application/json'', WriteHeader status, WriteBody value]"

definition writeError :: "int \<Rightarrow> string \<Rightarrow> string \<Rightarrow> writer_op list" where
  "writeError status code message = writeJSON status (JsonError code message)"

definition writeApplicationError :: "error \<Rightarrow> writer_op list" where
  "writeApplicationError err =
     (if errors_is err ErrInvalidEvent then writeError 400 ''invalid_event'' ''invalid event''
      else if errors_is err ErrEventNotFound then writeError 404 ''event_not_found'' ''event not found''
      else if errors_is err ErrEventAlreadyExists then writeError 409 ''event_already_exists'' ''event already exists''
      else if errors_is err ErrDateBusy then writeError 409 ''date_busy'' ''event date is busy''
      else writeError 500 ''internal_error'' ''internal server error'')"

definition errNotConfigured :: error where
  "errNotConfigured = Err (Errorf [Lit ''calendar application is not configured''])"

subsection \<open>\<open>handler.go\<close>: requests to events and back\<close>

text \<open>A duration in seconds, checked so that the product with \<open>time.Second\<close> is an \<open>int64\<close>.\<close>

definition notificationDuration :: "int option \<Rightarrow> error + int" where
  "notificationDuration seconds =
     (case seconds of
        None \<Rightarrow> Inr 0
      | Some n \<Rightarrow>
          (let maxSeconds = quot max_int64 second
           in if n < 0 \<or> n > maxSeconds then Inl (Err ErrInvalidEvent) else Inr (wrap64 (n * second))))"

definition newStorageEvent ::
  "string \<Rightarrow> string \<Rightarrow> Time \<Rightarrow> Time \<Rightarrow> string option \<Rightarrow> string \<Rightarrow> int option \<Rightarrow> error + Event" where
  "newStorageEvent eventID title startAt endAt description userID notifyBeforeSeconds =
     (case notificationDuration notifyBeforeSeconds of
        Inl err \<Rightarrow> Inl err
      | Inr notifyBefore \<Rightarrow>
          (let event = \<lparr>ID = eventID, Title = title, StartAt = startAt, EndAt = endAt,
                 Description = (case description of None \<Rightarrow> [] | Some d \<Rightarrow> d),
                 UserID = userID, NotifyBefore = notifyBefore\<rparr>
           in case ValidateEvent event of Some err \<Rightarrow> Inl err | None \<Rightarrow> Inr event))"

definition eventResponse :: "Event \<Rightarrow> api_event" where
  "eventResponse event =
     \<lparr>ae_Description = Description event, ae_EndAt = EndAt event, ae_Id = ID event,
      ae_NotifyBeforeSeconds = quot (NotifyBefore event) second, ae_StartAt = StartAt event,
      ae_Title = Title event, ae_UserId = UserID event\<rparr>"

text \<open>
  \<open>decodeJSON\<close>: the media type, one value within the size limit, and nothing but JSON white space after it. A body that
  is too long fails in the first or, by its unread rest, in the second \<open>Decode\<close>.
\<close>

datatype decode_error = UnsupportedMediaType | BadJSON

definition json_space :: "char \<Rightarrow> bool" where
  "json_space c \<longleftrightarrow> c = CHR '' '' \<or> c = CHR 0x09 \<or> c = CHR 0x0A \<or> c = CHR 0x0D"

definition decodeJSON ::
  "http_lib \<Rightarrow> (string \<Rightarrow> ('r \<times> string) option) \<Rightarrow> http_request \<Rightarrow> decode_error + 'r" where
  "decodeJSON lib decode r =
     (if ParseMediaType lib (ContentType r) \<noteq> Some ''application/json'' then Inl UnsupportedMediaType
      else if int (length (Body r)) > maxRequestBodySize then Inl BadJSON
      else case decode (Body r) of
             None \<Rightarrow> Inl BadJSON
           | Some (target, rest) \<Rightarrow> if list_all json_space rest then Inr target else Inl BadJSON)"

definition decodeRequest ::
  "http_lib \<Rightarrow> (string \<Rightarrow> ('r \<times> string) option) \<Rightarrow> http_request \<Rightarrow> writer_op list + 'r" where
  "decodeRequest lib decode r =
     (case decodeJSON lib decode r of
        Inl UnsupportedMediaType \<Rightarrow>
          Inl (writeError 415 ''unsupported_media_type'' ''Content-Type must be application/json'')
      | Inl BadJSON \<Rightarrow> Inl (writeError 400 ''invalid_request'' ''request body must contain one valid JSON object'')
      | Inr request \<Rightarrow> Inr request)"

subsection \<open>\<open>handler.go\<close>: the handlers\<close>

text \<open>\<open>None\<close> is the \<open>nil\<close> application, which the handlers check for.\<close>

definition apiCreateEvent ::
  "http_lib \<Rightarrow> 'a application option \<Rightarrow> cctx \<Rightarrow> http_request \<Rightarrow> 'a \<Rightarrow> writer_op list \<times> 'a" where
  "apiCreateEvent lib app ctx r a =
     (case decodeRequest lib (DecodeCreate lib) r of
        Inl ops \<Rightarrow> (ops, a)
      | Inr q \<Rightarrow>
          (case newStorageEvent (cr_Id q) (cr_Title q) (cr_StartAt q) (cr_EndAt q) (cr_Description q) (cr_UserId q)
                  (cr_NotifyBeforeSeconds q) of
             Inl err \<Rightarrow> (writeApplicationError err, a)
           | Inr event \<Rightarrow>
               (case app of
                  None \<Rightarrow> (writeApplicationError errNotConfigured, a)
                | Some app \<Rightarrow>
                    (case app_CreateEvent app ctx event a of
                       (Some err, a') \<Rightarrow> (writeApplicationError err, a')
                     | (None, a') \<Rightarrow>
                         (SetHeader ''Location'' (''/api/v1/events/'' @ PathEscape (ID event)) #
                            writeJSON 201 (JsonEvent (eventResponse event)), a')))))"

definition apiUpdateEvent ::
  "http_lib \<Rightarrow> 'a application option \<Rightarrow> cctx \<Rightarrow> http_request \<Rightarrow> string \<Rightarrow> 'a \<Rightarrow> writer_op list \<times> 'a" where
  "apiUpdateEvent lib app ctx r eventID a =
     (case decodeRequest lib (DecodeUpdate lib) r of
        Inl ops \<Rightarrow> (ops, a)
      | Inr q \<Rightarrow>
          (case newStorageEvent eventID (ur_Title q) (ur_StartAt q) (ur_EndAt q) (ur_Description q) (ur_UserId q)
                  (ur_NotifyBeforeSeconds q) of
             Inl err \<Rightarrow> (writeApplicationError err, a)
           | Inr event \<Rightarrow>
               (case app of
                  None \<Rightarrow> (writeApplicationError errNotConfigured, a)
                | Some app \<Rightarrow>
                    (case app_UpdateEvent app ctx event a of
                       (Some err, a') \<Rightarrow> (writeApplicationError err, a')
                     | (None, a') \<Rightarrow> (writeJSON 200 (JsonEvent (eventResponse event)), a')))))"

definition apiDeleteEvent ::
  "'a application option \<Rightarrow> cctx \<Rightarrow> string \<Rightarrow> 'a \<Rightarrow> writer_op list \<times> 'a" where
  "apiDeleteEvent app ctx eventID a =
     (case app of
        None \<Rightarrow> (writeApplicationError errNotConfigured, a)
      | Some app \<Rightarrow>
          (case app_DeleteEvent app ctx eventID a of
             (Some err, a') \<Rightarrow> (writeApplicationError err, a')
           | (None, a') \<Rightarrow> ([WriteHeader 204], a')))"

definition listEvents ::
  "(cctx \<Rightarrow> string \<Rightarrow> Time \<Rightarrow> 'a \<Rightarrow> (error + Event list) \<times> 'a) \<Rightarrow> cctx \<Rightarrow> string \<Rightarrow> string \<Rightarrow> 'a
     \<Rightarrow> writer_op list \<times> 'a" where
  "listEvents list ctx userID dateValue a =
     (case ParseDate dateValue of
        None \<Rightarrow> (writeError 400 ''invalid_request'' ''date must use YYYY-MM-DD format'', a)
      | Some date \<Rightarrow>
          if blank userID then (writeApplicationError (Err ErrInvalidEvent), a)
          else (case list ctx userID date a of
                  (Inl err, a') \<Rightarrow> (writeApplicationError err, a')
                | (Inr es, a') \<Rightarrow> (writeJSON 200 (JsonEvents (map eventResponse es)), a')))"

definition apiListEvents ::
  "('a application \<Rightarrow> cctx \<Rightarrow> string \<Rightarrow> Time \<Rightarrow> 'a \<Rightarrow> (error + Event list) \<times> 'a) \<Rightarrow> 'a application option \<Rightarrow> cctx
     \<Rightarrow> string \<Rightarrow> string \<Rightarrow> 'a \<Rightarrow> writer_op list \<times> 'a" where
  "apiListEvents list app ctx userID dateValue a =
     (case app of
        None \<Rightarrow> (writeApplicationError errNotConfigured, a)
      | Some app \<Rightarrow> listEvents (list app) ctx userID dateValue a)"

definition apiListEventsForDay ::
  "'a application option \<Rightarrow> cctx \<Rightarrow> string \<Rightarrow> string \<Rightarrow> 'a \<Rightarrow> writer_op list \<times> 'a" where
  [simp]: "apiListEventsForDay = apiListEvents app_ListEventsForDay"

definition apiListEventsForWeek ::
  "'a application option \<Rightarrow> cctx \<Rightarrow> string \<Rightarrow> string \<Rightarrow> 'a \<Rightarrow> writer_op list \<times> 'a" where
  [simp]: "apiListEventsForWeek = apiListEvents app_ListEventsForWeek"

definition apiListEventsForMonth ::
  "'a application option \<Rightarrow> cctx \<Rightarrow> string \<Rightarrow> string \<Rightarrow> 'a \<Rightarrow> writer_op list \<times> 'a" where
  [simp]: "apiListEventsForMonth = apiListEvents app_ListEventsForMonth"

definition helloHandler :: "writer_op list" where
  "helloHandler = [SetHeader ''Content-Type'' ''text/plain; charset=utf-8'', WriteHeader 200,
     WriteBody (RawBody (''Hello, world!'' @ [CHR 0x0A]))]"

end
