(* ===== verification/Http_Router.thy ===== *)
theory Http_Router
  imports Http_Api
begin

text \<open>
  The rest of the HTTP transport: the generated routing and parameter checks of \<open>openapi/api.gen.go\<close>, the middlewares of
  \<open>middleware.go\<close> and the construction and life cycle of \<open>server.go\<close>.
\<close>

subsection \<open>\<open>openapi/api.gen.go\<close>: parameters\<close>

type_synonym 'a handler = "'a \<Rightarrow> writer_op list \<times> 'a"

record ListParams =
  lp_UserId :: string
  lp_Date :: string

text \<open>The interface the generated code calls; the context of the request is part of its implementation.\<close>

record 'a ServerInterface =
  si_CreateEvent :: "http_request \<Rightarrow> 'a handler"
  si_ListEventsForDay :: "http_request \<Rightarrow> ListParams \<Rightarrow> 'a handler"
  si_ListEventsForMonth :: "http_request \<Rightarrow> ListParams \<Rightarrow> 'a handler"
  si_ListEventsForWeek :: "http_request \<Rightarrow> ListParams \<Rightarrow> 'a handler"
  si_DeleteEvent :: "http_request \<Rightarrow> string \<Rightarrow> 'a handler"
  si_UpdateEvent :: "http_request \<Rightarrow> string \<Rightarrow> 'a handler"

type_synonym 'a middleware = "'a handler \<Rightarrow> 'a handler"

record 'a ServerInterfaceWrapper =
  siw_Handler :: "'a ServerInterface"
  HandlerMiddlewares :: "'a middleware list"
  ErrorHandlerFunc :: "param_error \<Rightarrow> writer_op list"

definition run_handler :: "'a ServerInterfaceWrapper \<Rightarrow> 'a handler \<Rightarrow> 'a handler" where
  "run_handler siw h = fold (\<lambda>m h. m h) (HandlerMiddlewares siw) h"

definition query_Get :: "(string \<times> string) list \<Rightarrow> string \<Rightarrow> string" where
  "query_Get q key = (case map_of q key of None \<Rightarrow> [] | Some v \<Rightarrow> v)"

text \<open>A required query parameter: present, and accepted by the binding.\<close>

definition wrapQuery ::
  "http_lib \<Rightarrow> 'a ServerInterfaceWrapper \<Rightarrow> string \<Rightarrow> http_request \<Rightarrow> (string \<Rightarrow> 'a handler) \<Rightarrow> 'a handler" where
  "wrapQuery lib siw name r k =
     (if query_Get (Query r) name = [] then Pair (ErrorHandlerFunc siw (RequiredParamError name))
      else case BindQuery lib name (Query r) of
             Inl err \<Rightarrow> Pair (ErrorHandlerFunc siw (InvalidParamFormatError name err))
           | Inr value \<Rightarrow> k value)"

definition wrapList ::
  "http_lib \<Rightarrow> 'a ServerInterfaceWrapper \<Rightarrow> (ListParams \<Rightarrow> 'a handler) \<Rightarrow> http_request \<Rightarrow> 'a handler" where
  "wrapList lib siw handler r =
     wrapQuery lib siw ''user_id'' r (\<lambda>userId.
     wrapQuery lib siw ''date'' r (\<lambda>date.
       run_handler siw (handler \<lparr>lp_UserId = userId, lp_Date = date\<rparr>)))"

definition wrapPath ::
  "http_lib \<Rightarrow> 'a ServerInterfaceWrapper \<Rightarrow> (string \<Rightarrow> 'a handler) \<Rightarrow> string \<Rightarrow> 'a handler" where
  "wrapPath lib siw handler param =
     (case BindPath lib param of
        Inl err \<Rightarrow> Pair (ErrorHandlerFunc siw (InvalidParamFormatError ''eventId'' err))
      | Inr eventId \<Rightarrow> run_handler siw (handler eventId))"

definition siw_CreateEvent :: "'a ServerInterfaceWrapper \<Rightarrow> http_request \<Rightarrow> 'a handler" where
  "siw_CreateEvent siw r = run_handler siw (si_CreateEvent (siw_Handler siw) r)"

definition siw_ListEventsForDay :: "http_lib \<Rightarrow> 'a ServerInterfaceWrapper \<Rightarrow> http_request \<Rightarrow> 'a handler" where
  "siw_ListEventsForDay lib siw r = wrapList lib siw (si_ListEventsForDay (siw_Handler siw) r) r"

definition siw_ListEventsForMonth :: "http_lib \<Rightarrow> 'a ServerInterfaceWrapper \<Rightarrow> http_request \<Rightarrow> 'a handler" where
  "siw_ListEventsForMonth lib siw r = wrapList lib siw (si_ListEventsForMonth (siw_Handler siw) r) r"

definition siw_ListEventsForWeek :: "http_lib \<Rightarrow> 'a ServerInterfaceWrapper \<Rightarrow> http_request \<Rightarrow> 'a handler" where
  "siw_ListEventsForWeek lib siw r = wrapList lib siw (si_ListEventsForWeek (siw_Handler siw) r) r"

definition siw_DeleteEvent :: "http_lib \<Rightarrow> 'a ServerInterfaceWrapper \<Rightarrow> http_request \<Rightarrow> string \<Rightarrow> 'a handler" where
  "siw_DeleteEvent lib siw r = wrapPath lib siw (si_DeleteEvent (siw_Handler siw) r)"

definition siw_UpdateEvent :: "http_lib \<Rightarrow> 'a ServerInterfaceWrapper \<Rightarrow> http_request \<Rightarrow> string \<Rightarrow> 'a handler" where
  "siw_UpdateEvent lib siw r = wrapPath lib siw (si_UpdateEvent (siw_Handler siw) r)"

subsection \<open>\<open>openapi/api.gen.go\<close>: routing\<close>

record 'a ChiServerOptions =
  co_BaseURL :: string
  co_BaseRouter :: "registration list option"
  co_Middlewares :: "'a middleware list"
  co_ErrorHandlerFunc :: "(param_error \<Rightarrow> writer_op list) option"

definition no_options :: "'a ChiServerOptions" where
  "no_options = \<lparr>co_BaseURL = [], co_BaseRouter = None, co_Middlewares = [], co_ErrorHandlerFunc = None\<rparr>"

text \<open>\<open>http.Error\<close> with the text of the error.\<close>

definition defaultErrorHandler :: "param_error \<Rightarrow> writer_op list" where
  "defaultErrorHandler err = [SetHeader ''Content-Type'' ''text/plain; charset=utf-8'', SetHeader ''X-Content-Type-Options'' ''nosniff'',
     WriteHeader 400, WriteBody (TextBody (param_Error err))]"

definition api_routes :: "string \<Rightarrow> registration list" where
  "api_routes base = [
     (''POST'', base @ ''/api/v1/events'', RouteCreate),
     (''GET'', base @ ''/api/v1/events/day'', RouteDay),
     (''GET'', base @ ''/api/v1/events/month'', RouteMonth),
     (''GET'', base @ ''/api/v1/events/week'', RouteWeek),
     (''DELETE'', base @ ''/api/v1/events/{eventId}'', RouteDelete),
     (''PUT'', base @ ''/api/v1/events/{eventId}'', RouteUpdate)]"

definition HandlerWithOptions ::
  "'a ServerInterface \<Rightarrow> 'a ChiServerOptions \<Rightarrow> registration list \<times> 'a ServerInterfaceWrapper" where
  "HandlerWithOptions si options =
     (let router = (case co_BaseRouter options of None \<Rightarrow> [] | Some router \<Rightarrow> router);
          handler = (case co_ErrorHandlerFunc options of None \<Rightarrow> defaultErrorHandler | Some f \<Rightarrow> f)
      in (router @ api_routes (co_BaseURL options),
          \<lparr>siw_Handler = si, HandlerMiddlewares = co_Middlewares options, ErrorHandlerFunc = handler\<rparr>))"

definition Handler :: "'a ServerInterface \<Rightarrow> registration list \<times> 'a ServerInterfaceWrapper" where
  "Handler si = HandlerWithOptions si no_options"

definition HandlerFromMux :: "'a ServerInterface \<Rightarrow> registration list \<Rightarrow> registration list \<times> 'a ServerInterfaceWrapper" where
  "HandlerFromMux si router = HandlerWithOptions si (no_options\<lparr>co_BaseRouter := Some router\<rparr>)"

definition HandlerFromMuxWithBaseURL ::
  "'a ServerInterface \<Rightarrow> registration list \<Rightarrow> string \<Rightarrow> registration list \<times> 'a ServerInterfaceWrapper" where
  "HandlerFromMuxWithBaseURL si router base =
     HandlerWithOptions si (no_options\<lparr>co_BaseURL := base, co_BaseRouter := Some router\<rparr>)"

text \<open>The pattern of the registration, which is what chi reports as the matched route.\<close>

fun route_pattern :: "chi_route \<Rightarrow> string" where
  "route_pattern (Matched pattern ep param) = pattern"
| "route_pattern (NoRoute pattern ops) = pattern"

fun handle_endpoint :: "http_lib \<Rightarrow> 'a ServerInterfaceWrapper \<Rightarrow> http_request \<Rightarrow> endpoint \<Rightarrow> string \<Rightarrow> 'a handler" where
  "handle_endpoint lib siw r RouteCreate param = siw_CreateEvent siw r"
| "handle_endpoint lib siw r RouteDay param = siw_ListEventsForDay lib siw r"
| "handle_endpoint lib siw r RouteMonth param = siw_ListEventsForMonth lib siw r"
| "handle_endpoint lib siw r RouteWeek param = siw_ListEventsForWeek lib siw r"
| "handle_endpoint lib siw r RouteDelete param = siw_DeleteEvent lib siw r param"
| "handle_endpoint lib siw r RouteUpdate param = siw_UpdateEvent lib siw r param"
| "handle_endpoint lib siw r RouteHello param = Pair helloHandler"
| "handle_endpoint lib siw r RouteMetrics param = Pair (metrics_page lib r)"

fun handle_route :: "http_lib \<Rightarrow> 'a ServerInterfaceWrapper \<Rightarrow> http_request \<Rightarrow> chi_route \<Rightarrow> 'a handler" where
  "handle_route lib siw r (Matched pattern ep param) = handle_endpoint lib siw r ep param"
| "handle_route lib siw r (NoRoute pattern ops) = Pair ops"

subsection \<open>\<open>handler.go\<close>: the router of the calendar\<close>

definition apiHandler :: "http_lib \<Rightarrow> 'a application option \<Rightarrow> cctx \<Rightarrow> 'a ServerInterface" where
  "apiHandler lib app ctx = \<lparr>
     si_CreateEvent = apiCreateEvent lib app ctx,
     si_ListEventsForDay = (\<lambda>r params. apiListEventsForDay app ctx (lp_UserId params) (lp_Date params)),
     si_ListEventsForMonth = (\<lambda>r params. apiListEventsForMonth app ctx (lp_UserId params) (lp_Date params)),
     si_ListEventsForWeek = (\<lambda>r params. apiListEventsForWeek app ctx (lp_UserId params) (lp_Date params)),
     si_DeleteEvent = (\<lambda>r. apiDeleteEvent app ctx),
     si_UpdateEvent = apiUpdateEvent lib app ctx\<rparr>"

definition errorHandler :: "writer_op list" where
  "errorHandler = writeError 400 ''invalid_request'' ''request parameters are invalid''"

text \<open>\<open>observed\<close> tells whether \<open>firstMetrics\<close> found metrics.\<close>

definition http_firstMetrics :: "'m option list \<Rightarrow> 'm option" where
  "http_firstMetrics values = (case values of [] \<Rightarrow> None | v # _ \<Rightarrow> v)"

definition newHTTPHandler ::
  "http_lib \<Rightarrow> 'a application option \<Rightarrow> cctx \<Rightarrow> bool \<Rightarrow> registration list \<times> 'a ServerInterfaceWrapper" where
  "newHTTPHandler lib app ctx observed =
     HandlerWithOptions (apiHandler lib app ctx) \<lparr>
       co_BaseURL = [],
       co_BaseRouter = Some ((if observed then [(''*'', ''/metrics'', RouteMetrics)] else []) @ [(''GET'', ''/hello'', RouteHello)]),
       co_Middlewares = [],
       co_ErrorHandlerFunc = Some (\<lambda>_. errorHandler)\<rparr>"

subsection \<open>\<open>middleware.go\<close>\<close>

text \<open>
  A \<open>statusWriter\<close> between a handler and a writer: the status it keeps, 0 before the header is written, and the calls
  it passes on.
\<close>

fun sw_op :: "writer_op \<Rightarrow> int \<Rightarrow> writer_op list \<times> int" where
  "sw_op (SetHeader k v) status = ([SetHeader k v], status)"
| "sw_op (WriteHeader s) status = (if status \<noteq> 0 then ([], status) else ([WriteHeader s], s))"
| "sw_op (WriteBody b) status = (if status = 0 then ([WriteHeader 200, WriteBody b], 200) else ([WriteBody b], status))"

fun sw_run :: "writer_op list \<Rightarrow> int \<Rightarrow> writer_op list \<times> int" where
  "sw_run [] status = ([], status)"
| "sw_run (op # ops) status =
     (case sw_op op status of (out, status') \<Rightarrow>
        (case sw_run ops status' of (outs, status'') \<Rightarrow> (out @ outs, status'')))"

definition statusCode :: "int \<Rightarrow> int" where
  "statusCode status = (if status = 0 then 200 else status)"

definition metricsMethod :: "string \<Rightarrow> string" where
  "metricsMethod m = (if m \<in> set [''GET'', ''POST'', ''PUT'', ''DELETE''] then m else ''OTHER'')"

definition eventOperation :: "string \<Rightarrow> string \<Rightarrow> string" where
  "eventOperation m route =
     (if m = ''POST'' \<and> route = ''/api/v1/events'' then ''create''
      else if m = ''PUT'' \<and> route = ''/api/v1/events/{eventId}'' then ''update''
      else if m = ''DELETE'' \<and> route = ''/api/v1/events/{eventId}'' then ''delete''
      else if m = ''GET'' \<and> route = ''/api/v1/events/day'' then ''list_day''
      else if m = ''GET'' \<and> route = ''/api/v1/events/week'' then ''list_week''
      else if m = ''GET'' \<and> route = ''/api/v1/events/month'' then ''list_month''
      else [])"

datatype observation =
    HTTPRequest string string int
  | EventOperation string bool

definition observe :: "string \<Rightarrow> string \<Rightarrow> int \<Rightarrow> observation list" where
  "observe m pattern status =
     (let route = (if pattern = [] then ''unmatched'' else pattern); op = eventOperation m route
      in HTTPRequest (metricsMethod m) route status #
         (if op \<noteq> [] then [EventOperation op (200 \<le> status \<and> status < 300)] else []))"

definition metricsMiddleware ::
  "http_request \<Rightarrow> string \<Rightarrow> writer_op list \<Rightarrow> writer_op list \<times> observation list" where
  "metricsMiddleware r pattern ops =
     (if URLPath r = ''/metrics'' then (ops, [])
      else case sw_run ops 0 of (out, status) \<Rightarrow> (out, observe (Method r) pattern (statusCode status)))"

definition sanitizeLogField :: "string \<Rightarrow> string" where
  "sanitizeLogField value =
     concat (map (\<lambda>c. if c = CHR 0x0D then [CHR 0x5C, CHR ''r''] else if c = CHR 0x0A then [CHR 0x5C, CHR ''n''] else [c]) value)"

definition clientIP :: "string \<Rightarrow> string" where
  "clientIP remoteAddress =
     (if remoteAddress = [] then ''-''
      else case SplitHost remoteAddress of Some host \<Rightarrow> host | None \<Rightarrow> sanitizeLogField remoteAddress)"

text \<open>The access log entry; \<open>started\<close> and \<open>latency\<close> are the texts of the clock readings.\<close>

definition access_entry :: "string \<Rightarrow> string \<Rightarrow> http_request \<Rightarrow> int \<Rightarrow> message" where
  "access_entry started latency r status =
     [Plain (clientIP (RemoteAddr r)), Lit '' ['', Plain started, Lit ''] '', Plain (sanitizeLogField (Method r)), Lit '' '',
      Plain (sanitizeLogField (if RequestURI r = [] then URLRequestURI r else RequestURI r)), Lit '' '',
      Plain (sanitizeLogField (Proto r)), Lit '' '', Num status, Lit '' latency='', Plain latency] @
     (if UserAgent r \<noteq> [] then [Lit '' '', Quoted (UserAgent r)] else [])"

text \<open>\<open>loggingMiddleware\<close>: \<open>logger\<close> tells whether a logger was given, and the entries for it are the second result.\<close>

definition loggingMiddleware ::
  "bool \<Rightarrow> string \<Rightarrow> string \<Rightarrow> http_request \<Rightarrow> writer_op list \<Rightarrow> writer_op list \<times> message list" where
  "loggingMiddleware logger started latency r ops =
     (case sw_run ops 0 of (out, status) \<Rightarrow>
        (out, if \<not> logger then [] else [access_entry started latency r (statusCode status)]))"

subsection \<open>\<open>server.go\<close>\<close>

record 'a server =
  srv_app :: 'a
  srv_access :: "message list"
  srv_metrics :: "observation list"

text \<open>\<open>NewServer\<close>: the settings of the \<open>http.Server\<close>, in nanoseconds, and whether its handler observes metrics.\<close>

record http_Server =
  hs_Addr :: string
  hs_ReadHeaderTimeout :: int
  hs_ReadTimeout :: int
  hs_WriteTimeout :: int
  hs_IdleTimeout :: int

definition NewServer :: "string \<Rightarrow> 'm option list \<Rightarrow> http_Server \<times> bool" where
  "NewServer addr metrics =
     (\<lparr>hs_Addr = addr, hs_ReadHeaderTimeout = 5 * second, hs_ReadTimeout = 10 * second, hs_WriteTimeout = 10 * second,
       hs_IdleTimeout = 60 * second\<rparr>, http_firstMetrics metrics \<noteq> None)"

text \<open>
  One request through the handler that \<open>NewServer\<close> builds: logging outside, then the metrics if there are any, then
  the router. The logger is the one \<open>cmd/calendar\<close> always passes. The result is the state of the writer of \<open>net/http\<close> after the last call.
\<close>

definition ServeHTTP ::
  "http_lib \<Rightarrow> 'a application option \<Rightarrow> bool \<Rightarrow> cctx \<Rightarrow> string \<Rightarrow> string \<Rightarrow> http_request \<Rightarrow> 'a server
     \<Rightarrow> response_writer \<times> 'a server" where
  "ServeHTTP lib app observed ctx started latency r s =
     (case newHTTPHandler lib app ctx observed of (table, siw) \<Rightarrow>
      let route = chi_match lib table r in
      case handle_route lib siw r route (srv_app s) of (ops, a) \<Rightarrow>
      case (if observed then metricsMiddleware r (route_pattern route) ops else (ops, [])) of (ops', obs) \<Rightarrow>
      case loggingMiddleware True started latency r ops' of (ops'', entries) \<Rightarrow>
        (respond ops'', \<lparr>srv_app = a, srv_access = srv_access s @ entries, srv_metrics = srv_metrics s @ obs\<rparr>))"

definition normalizeServerError :: "error option \<Rightarrow> error option" where
  "normalizeServerError err =
     (case err of None \<Rightarrow> None
      | Some e \<Rightarrow> if errors_is e (LibError ''http: Server closed'') then None else Some e)"

definition Stop :: "error option \<Rightarrow> error option" where
  "Stop shutdown = normalizeServerError shutdown"

text \<open>
  \<open>Start\<close>: what happens first, a context already done, the end of \<open>ListenAndServe\<close>, or a cancellation, after which the
  result of \<open>Shutdown\<close> and then that of \<open>ListenAndServe\<close> are awaited.
\<close>

datatype server_event =
    AlreadyDone
  | ServeReturned "error option"
  | CtxDone "error option" "error option"

fun Start :: "server_event \<Rightarrow> error option" where
  "Start AlreadyDone = None"
| "Start (ServeReturned err) = normalizeServerError err"
| "Start (CtxDone shutdown err) =
     (case Stop shutdown of Some e \<Rightarrow> Some e | None \<Rightarrow> normalizeServerError err)"

text \<open>The application of \<open>internal/app\<close> behind the interface.\<close>

definition calendar_application :: "'s storage_ops \<Rightarrow> 's App application" where
  "calendar_application ops = \<lparr>app_CreateEvent = AppCreateEvent ops, app_UpdateEvent = AppUpdateEvent ops,
     app_DeleteEvent = AppDeleteEvent ops, app_ListEventsForDay = ListEventsForDay ops,
     app_ListEventsForWeek = ListEventsForWeek ops, app_ListEventsForMonth = ListEventsForMonth ops\<rparr>"

end
