(* ===== verification/Http_Transport.thy ===== *)
theory Http_Transport
  imports Http_Router
begin

text \<open>
  Lemmas on the HTTP transport that do not depend on the storage: what an answer says, that the middlewares pass it on
  unchanged and report the status that was sent, dates and durations of requests, and what is relied on of the routing of chi.
\<close>

subsection \<open>What the answers say\<close>

lemma fold_writer_append: "fold write_op (xs @ ys) w = fold write_op ys (fold write_op xs w)"
  by simp

definition ops_status :: "writer_op list \<Rightarrow> int" where
  "ops_status ops = final_status (respond ops)"

lemmas respond_defs = ops_status_def respond_def fresh_writer_def final_status_def send_status_def informational_def

lemma status_writeJSON [simp]: "200 \<le> s \<Longrightarrow> ops_status (writeJSON s b) = s"
  by (simp add: respond_defs writeJSON_def)

lemma status_writeError [simp]: "200 \<le> s \<Longrightarrow> ops_status (writeError s c m) = s"
  by (simp add: writeError_def)

lemma status_application_error:
  "ops_status (writeApplicationError e) =
    (if root_cause e = ErrInvalidEvent then 400 else if root_cause e = ErrEventNotFound then 404
     else if root_cause e = ErrEventAlreadyExists \<or> root_cause e = ErrDateBusy then 409 else 500)"
  by (simp add: writeApplicationError_def)

lemma status_application_error_fails [simp]: "300 \<le> ops_status (writeApplicationError e)"
  by (simp add: status_application_error)

lemma respond_writeJSON:
  "200 \<le> s \<Longrightarrow> final_status (respond (writeJSON s b)) = s" "200 \<le> s \<Longrightarrow> rw_body (respond (writeJSON s b)) = [b]"
  by (simp_all add: respond_defs writeJSON_def)

lemma respond_located:
  "200 \<le> s \<Longrightarrow> final_status (respond (SetHeader k v # writeJSON s b)) = s"
  "200 \<le> s \<Longrightarrow> rw_body (respond (SetHeader k v # writeJSON s b)) = [b]"
  by (simp_all add: respond_defs writeJSON_def)

lemma respond_no_content: "final_status (respond [WriteHeader 204]) = 204" "rw_body (respond [WriteHeader 204]) = []"
  by (simp_all add: respond_defs)

lemmas respond_simps = respond_writeJSON respond_located respond_no_content status_application_error [unfolded ops_status_def]

lemma status_decode_error: "decodeRequest lib decode r = Inl ops \<Longrightarrow> ops_status ops = 400 \<or> ops_status ops = 415"
  by (auto simp: decodeRequest_def split: sum.splits decode_error.splits)

subsection \<open>The middlewares\<close>

text \<open>Calls that send final statuses only, as every handler of the server makes them.\<close>

fun proper_op :: "writer_op \<Rightarrow> bool" where
  "proper_op (WriteHeader s) \<longleftrightarrow> s \<noteq> 0 \<and> \<not> informational s"
| "proper_op _ \<longleftrightarrow> True"

abbreviation "proper \<equiv> list_all proper_op"

text \<open>What the libraries write themselves: answers of chi to requests without a route, and the metrics page.\<close>

definition lib_law :: "http_lib \<Rightarrow> bool" where
  "lib_law lib \<longleftrightarrow> (\<forall>table r. (case chi_match lib table r of NoRoute _ ops \<Rightarrow> proper ops | _ \<Rightarrow> True) \<and> proper (metrics_page lib r))"

lemma proper_writeJSON [simp]: "200 \<le> s \<Longrightarrow> proper (writeJSON s b)"
  by (simp add: writeJSON_def informational_def)

lemma proper_writeError [simp]: "200 \<le> s \<Longrightarrow> proper (writeError s c m)"
  by (simp add: writeError_def)

lemma proper_application_error [simp]: "proper (writeApplicationError e)"
  by (simp add: writeApplicationError_def)

lemma proper_decode_error: "decodeRequest lib decode r = Inl ops \<Longrightarrow> proper ops"
  by (auto simp: decodeRequest_def split: sum.splits decode_error.splits)

lemma proper_create: "proper (fst (apiCreateEvent lib app c r a))"
  by (auto simp: apiCreateEvent_def dest: proper_decode_error split: sum.splits option.splits prod.splits)

lemma proper_update: "proper (fst (apiUpdateEvent lib app c r i a))"
  by (auto simp: apiUpdateEvent_def dest: proper_decode_error split: sum.splits option.splits prod.splits)

lemma proper_delete: "proper (fst (apiDeleteEvent app c i a))"
  by (auto simp: apiDeleteEvent_def informational_def split: option.splits prod.splits)

lemma proper_list: "proper (fst (apiListEvents list app c u d a))"
  by (auto simp: apiListEvents_def listEvents_def split: option.splits prod.splits sum.splits)

text \<open>The routes of the calendar, and the handler that a request is given to.\<close>

definition route_table :: "bool \<Rightarrow> registration list" where
  "route_table observed =
     (if observed then [(''*'', ''/metrics'', RouteMetrics)] else []) @ (''GET'', ''/hello'', RouteHello) # api_routes []"

lemma newHTTPHandler_simps [simp]:
  "fst (newHTTPHandler lib app c wm) = route_table wm"
  "siw_Handler (snd (newHTTPHandler lib app c wm)) = apiHandler lib app c"
  "ErrorHandlerFunc (snd (newHTTPHandler lib app c wm)) = (\<lambda>_. errorHandler)"
  "run_handler (snd (newHTTPHandler lib app c wm)) h = h"
  by (simp_all add: newHTTPHandler_def HandlerWithOptions_def route_table_def run_handler_def)

definition answer ::
  "http_lib \<Rightarrow> 'a application option \<Rightarrow> bool \<Rightarrow> cctx \<Rightarrow> http_request \<Rightarrow> chi_route \<Rightarrow> 'a handler" where
  "answer lib app wm c r = handle_route lib (snd (newHTTPHandler lib app c wm)) r"

lemmas siw_defs = siw_CreateEvent_def siw_ListEventsForDay_def siw_ListEventsForMonth_def siw_ListEventsForWeek_def
  siw_DeleteEvent_def siw_UpdateEvent_def

text \<open>A handler for listings behind the checks of its two parameters, and one for an event behind the check of its path.\<close>

definition checked_list ::
  "http_lib \<Rightarrow> (string \<Rightarrow> string \<Rightarrow> 'a handler) \<Rightarrow> http_request \<Rightarrow> 'a handler" where
  "checked_list lib h r =
     (if query_Get (Query r) ''user_id'' = [] then Pair errorHandler
      else case BindQuery lib ''user_id'' (Query r) of Inl _ \<Rightarrow> Pair errorHandler | Inr u \<Rightarrow>
      if query_Get (Query r) ''date'' = [] then Pair errorHandler
      else case BindQuery lib ''date'' (Query r) of Inl _ \<Rightarrow> Pair errorHandler | Inr d \<Rightarrow> h u d)"

definition checked_path :: "http_lib \<Rightarrow> (string \<Rightarrow> 'a handler) \<Rightarrow> string \<Rightarrow> 'a handler" where
  "checked_path lib h p = (case BindPath lib p of Inl _ \<Rightarrow> Pair errorHandler | Inr i \<Rightarrow> h i)"

lemma answer_simps [simp]:
  "answer lib app wm c r (Matched pat RouteCreate p) = apiCreateEvent lib app c r"
  "answer lib app wm c r (Matched pat RouteDay p) = checked_list lib (apiListEvents app_ListEventsForDay app c) r"
  "answer lib app wm c r (Matched pat RouteWeek p) = checked_list lib (apiListEvents app_ListEventsForWeek app c) r"
  "answer lib app wm c r (Matched pat RouteMonth p) = checked_list lib (apiListEvents app_ListEventsForMonth app c) r"
  "answer lib app wm c r (Matched pat RouteDelete p) = checked_path lib (apiDeleteEvent app c) p"
  "answer lib app wm c r (Matched pat RouteUpdate p) = checked_path lib (apiUpdateEvent lib app c r) p"
  "answer lib app wm c r (Matched pat RouteHello p) = Pair helloHandler"
  "answer lib app wm c r (Matched pat RouteMetrics p) = Pair (metrics_page lib r)"
  "answer lib app wm c r (NoRoute pat ops) = Pair ops"
  by (simp_all add: answer_def siw_defs wrapList_def wrapQuery_def wrapPath_def apiHandler_def checked_list_def checked_path_def
      cong: sum.case_cong if_cong)

lemma proper_checked_list: "(\<And>u d a. proper (fst (h u d a))) \<Longrightarrow> proper (fst (checked_list lib h r a))"
  by (auto simp: checked_list_def errorHandler_def split: sum.splits)

lemma proper_checked_path: "(\<And>i a. proper (fst (h i a))) \<Longrightarrow> proper (fst (checked_path lib h p a))"
  by (auto simp: checked_path_def errorHandler_def split: sum.splits)

lemma proper_answer:
  assumes "lib_law lib"
  shows "proper (fst (answer lib app wm c r (chi_match lib table r) a))"
proof (cases "chi_match lib table r")
  case (Matched pat ep p)
  have "proper (metrics_page lib r)" using assms by (simp add: lib_law_def)
  then show ?thesis unfolding Matched
    by (cases ep) (simp_all add: proper_create proper_update proper_delete proper_list proper_checked_list proper_checked_path
        helloHandler_def informational_def)
next
  case (NoRoute pat ops)
  then show ?thesis using assms unfolding lib_law_def by (auto dest!: spec [of _ table] spec [of _ r])
qed

text \<open>A \<open>statusWriter\<close> in front of a writer is transparent and knows the status that was sent.\<close>

definition in_step :: "int \<Rightarrow> response_writer \<Rightarrow> bool" where
  "in_step status w \<longleftrightarrow>
     (case rw_sent w of None \<Rightarrow> status = 0 | Some (s, _) \<Rightarrow> status = s \<and> s \<noteq> 0)"

lemma in_step_fresh [simp]: "in_step 0 fresh_writer"
  by (simp add: in_step_def fresh_writer_def)

lemma in_step_status: "in_step status w \<Longrightarrow> statusCode status = final_status w"
  by (auto simp: in_step_def statusCode_def final_status_def split: option.splits)

lemma sw_op_step:
  assumes "proper_op op" "in_step st w" "sw_op op st = (out, st')"
  shows "fold write_op out w = write_op op w" "in_step st' (write_op op w)" "proper out"
  using assms
  by (cases op; force simp: in_step_def send_status_def informational_def Let_def split: option.splits if_splits)+

lemma sw_run_step:
  assumes "proper ops" "in_step st w" "sw_run ops st = (out, st')"
  shows "fold write_op out w = fold write_op ops w \<and> in_step st' (fold write_op ops w) \<and> proper out"
  using assms
proof (induction ops arbitrary: st w out st')
  case (Cons op ops)
  obtain o1 st1 o2 where o: "sw_op op st = (o1, st1)" "sw_run ops st1 = (o2, st')" "out = o1 @ o2"
    using Cons.prems(3) by (auto split: prod.splits)
  from Cons.prems(1) have p: "proper_op op" "proper ops" by simp_all
  note head = sw_op_step [OF p(1) Cons.prems(2) o(1)]
  show ?case using Cons.IH [OF p(2) head(2) o(2)] head(1,3) by (simp add: o(3))
qed simp

lemma sw_run_respond:
  assumes "proper ops" "sw_run ops 0 = (out, st)"
  shows "respond out = respond ops" "statusCode st = final_status (respond ops)" "proper out"
  using sw_run_step [OF assms(1) in_step_fresh assms(2)] by (auto simp: respond_def in_step_status)

lemma ServeHTTP_answer:
  "ServeHTTP lib app wm c started latency r s =
     (let route = chi_match lib (route_table wm) r in
      case answer lib app wm c r route (srv_app s) of (ops, a) \<Rightarrow>
      case (if wm then metricsMiddleware r (route_pattern route) ops else (ops, [])) of (ops', obs) \<Rightarrow>
      case loggingMiddleware True started latency r ops' of (ops'', entries) \<Rightarrow>
        (respond ops'', \<lparr>srv_app = a, srv_access = srv_access s @ entries, srv_metrics = srv_metrics s @ obs\<rparr>))"
  using newHTTPHandler_simps(1) [of lib app c wm]
  by (cases "newHTTPHandler lib app c wm") (simp add: ServeHTTP_def answer_def)

lemma ServeHTTP_transparent:
  assumes "lib_law lib" "ServeHTTP lib app wm c started latency r s = (w, s')"
  shows "\<exists>ops. answer lib app wm c r (chi_match lib (route_table wm) r) (srv_app s) = (ops, srv_app s') \<and> w = respond ops \<and>
    srv_access s' = srv_access s @ [access_entry started latency r (final_status w)] \<and>
    srv_metrics s' = srv_metrics s @
      (if wm \<and> URLPath r \<noteq> ''/metrics'' then observe (Method r) (route_pattern (chi_match lib (route_table wm) r)) (final_status w) else [])"
proof -
  obtain ops a where h: "answer lib app wm c r (chi_match lib (route_table wm) r) (srv_app s) = (ops, a)" by fastforce
  then have p: "proper ops" using proper_answer [OF assms(1), of app wm c r "route_table wm" "srv_app s"] by simp
  obtain out st where sw: "sw_run ops 0 = (out, st)" by fastforce
  note inner = sw_run_respond [OF p sw]
  obtain out2 st2 where sw2: "sw_run out 0 = (out2, st2)" by fastforce
  note outer = sw_run_respond [OF inner(3) sw2]
  show ?thesis
    using assms(2) inner outer
    by (auto simp: ServeHTTP_answer h sw sw2 metricsMiddleware_def loggingMiddleware_def Let_def split: if_splits)
qed

subsection \<open>Dates and durations of requests\<close>

text \<open>The date format of the listings, as a client writes it.\<close>

definition digit_char :: "nat \<Rightarrow> char" where
  "digit_char n = char_of (48 + n)"

definition two :: "int \<Rightarrow> string" where
  "two n = [digit_char (nat n div 10), digit_char (nat n mod 10)]"

definition FormatDate :: "int \<Rightarrow> int \<Rightarrow> int \<Rightarrow> string" where
  "FormatDate y m d = two (y div 100) @ two (y mod 100) @ ''-'' @ two m @ ''-'' @ two d"

lemma digit_char_digit: "n < 10 \<Longrightarrow> is_ascii_digit (digit_char n) \<and> digit_val (digit_char n) = n"
  by (simp add: digit_char_def is_ascii_digit_def digit_val_def)

lemma two_digits_two:
  "0 \<le> n \<Longrightarrow> n < 100 \<Longrightarrow> \<exists>a b. two n = [a, b] \<and> is_ascii_digit a \<and> is_ascii_digit b \<and> two_digits a b = n"
  using digit_char_digit [of "nat n div 10"] digit_char_digit [of "nat n mod 10"]
  by (simp add: two_def two_digits_def less_mult_imp_div_less zdiv_int zmod_int)

lemma days_in_month_le: "days_in_month leap m \<le> 31" if "1 \<le> m" "m \<le> 12"
  using that by (cases rule: month_cases) (simp_all add: days_in_month_def daysBefore_def)

lemma ParseDate_two:
  assumes "two y1 = [a1, a2]" "two y2 = [a3, a4]" "two m = [b1, b2]" "two d = [c1, c2]"
    and "list_all is_ascii_digit [a1, a2, a3, a4, b1, b2, c1, c2]"
    and "two_digits a1 a2 = y1" "two_digits a3 a4 = y2" "two_digits b1 b2 = m" "two_digits c1 c2 = d"
  shows "ParseDate (two y1 @ two y2 @ ''-'' @ two m @ ''-'' @ two d) =
    (if valid_date (100 * y1 + y2) m d then Some (Date (100 * y1 + y2) m d 0 0 0 0 UTC) else None)"
  using assms(5-) by (simp add: assms(1-4) ParseDate_def Let_def)

lemma ParseDate_UTC: "ParseDate ds = Some date \<Longrightarrow> zone date = UTC \<and> beginningOfDay date = date"
proof -
  assume "ParseDate ds = Some date"
  then obtain y m d where date: "date = Date y m d 0 0 0 0 UTC" and v: "valid_date y m d"
    by (auto simp: ParseDate_def Let_def split: list.splits if_splits)
  have "TimeDate date = (y, m, d)" unfolding date by (rule TimeDate_midnight [OF fixed_zone_UTC v])
  then show ?thesis by (simp add: beginningOfDay_def Year_def Month_def Day_def date)
qed

lemma notificationDuration_ok:
  assumes "notificationDuration n = Inr d"
  shows "d = (case n of None \<Rightarrow> 0 | Some k \<Rightarrow> k) * second" "in_int64 d" "0 \<le> d"
proof -
  have "in_int64 (k * second)" if "0 \<le> k" "k \<le> quot max_int64 second" for k
    using that by (simp add: in_int64_def min_int64_def max_int64_def second_def quot_def)
  with assms show "d = (case n of None \<Rightarrow> 0 | Some k \<Rightarrow> k) * second" "in_int64 d" "0 \<le> d"
    by (auto simp: notificationDuration_def Let_def second_def in_int64_def min_int64_def max_int64_def
        split: option.splits if_splits)
qed

lemma quot_second: "0 \<le> k \<Longrightarrow> quot (k * second) second = k"
  by (simp add: second_def)

lemma newStorageEvent_error:
  "newStorageEvent i t st en d u n = Inl e \<Longrightarrow> root_cause e = ErrInvalidEvent"
  by (auto simp: newStorageEvent_def notificationDuration_def Let_def ValidateEvent_def split: sum.splits option.splits if_splits)

subsection \<open>Routing\<close>

text \<open>
  What chi documents of its routing, for paths that need no unescaping: a registration with a fixed pattern is chosen when the
  path is that pattern, and a registration that ends in \<open>{eventId}\<close> when the path has one more non-empty segment in its
  place and no fixed pattern is equal to the path. What is chosen is one of the registrations.
\<close>

definition static :: "string \<Rightarrow> bool" where
  "static pat \<longleftrightarrow> CHR ''{'' \<notin> set pat \<and> CHR ''*'' \<notin> set pat"

definition takes :: "http_request \<Rightarrow> registration \<Rightarrow> bool" where
  "takes r = (\<lambda>(m, pat, ep). (m = Method r \<or> m = ''*'') \<and> static pat \<and> pat = URLPath r)"

definition param_value :: "http_request \<Rightarrow> registration \<Rightarrow> string option" where
  "param_value r = (\<lambda>(m, pat, ep).
     let pre = take (length pat - 9) pat; v = drop (length pre) (URLPath r)
     in if m = Method r \<and> pat = pre @ ''{eventId}'' \<and> static pre \<and> URLPath r = pre @ v \<and> v \<noteq> [] \<and> CHR ''/'' \<notin> set v
        then Some v else None)"

definition fixed_path :: "registration list \<Rightarrow> http_request \<Rightarrow> bool" where
  "fixed_path table r \<longleftrightarrow> list_ex (\<lambda>(m, pat, ep). static pat \<and> pat = URLPath r) table"

definition chi_law :: "http_lib \<Rightarrow> bool" where
  "chi_law lib \<longleftrightarrow> (\<forall>table r.
     (\<forall>pat ep p. chi_match lib table r = Matched pat ep p \<longrightarrow> (\<exists>m. (m, pat, ep) \<in> set table)) \<and>
     (URLRawPath r = [] \<longrightarrow>
       (\<forall>m pat ep. filter (takes r) table = [(m, pat, ep)] \<longrightarrow> chi_match lib table r = Matched pat ep []) \<and>
       (\<forall>m pat ep v. \<not> fixed_path table r \<longrightarrow> filter (\<lambda>e. param_value r e \<noteq> None) table = [(m, pat, ep)] \<longrightarrow>
          param_value r (m, pat, ep) = Some v \<longrightarrow> chi_match lib table r = Matched pat ep v)))"

text \<open>A router that does just this.\<close>

definition small_chi :: "registration list \<Rightarrow> http_request \<Rightarrow> chi_route" where
  "small_chi table r =
     (case filter (takes r) table of
        (m, pat, ep) # _ \<Rightarrow> Matched pat ep []
      | [] \<Rightarrow>
          (case filter (\<lambda>e. param_value r e \<noteq> None) table of
             (m, pat, ep) # _ \<Rightarrow> Matched pat ep (the (param_value r (m, pat, ep)))
           | [] \<Rightarrow> NoRoute [] [WriteHeader 404]))"

lemma small_chi_registered:
  assumes "small_chi table r = Matched pat ep p"
  shows "\<exists>m. (m, pat, ep) \<in> set table"
proof -
  have mem: "x \<in> set table" if "filter P table = x # xs" for P x xs
  proof -
    have "x \<in> set (filter P table)" by (simp add: that)
    then show ?thesis by simp
  qed
  show ?thesis using assms
    by (auto simp: small_chi_def split: list.splits prod.splits dest: mem)
qed

lemma no_fixed_path: "\<not> fixed_path table r \<Longrightarrow> filter (takes r) table = []"
  by (auto simp: fixed_path_def takes_def list_ex_iff filter_empty_conv)

lemma small_chi_law: "chi_match lib = small_chi \<Longrightarrow> chi_law lib"
  unfolding chi_law_def using small_chi_registered no_fixed_path by (auto simp: small_chi_def)

lemma route_found:
  assumes "chi_law lib" "URLRawPath r = []"
  shows "Method r = ''POST'' \<Longrightarrow> URLPath r = ''/api/v1/events'' \<Longrightarrow>
      chi_match lib (route_table wm) r = Matched ''/api/v1/events'' RouteCreate []"
    and "Method r = ''GET'' \<Longrightarrow> URLPath r = ''/api/v1/events/day'' \<Longrightarrow>
      chi_match lib (route_table wm) r = Matched ''/api/v1/events/day'' RouteDay []"
    and "Method r = ''GET'' \<Longrightarrow> URLPath r = ''/api/v1/events/week'' \<Longrightarrow>
      chi_match lib (route_table wm) r = Matched ''/api/v1/events/week'' RouteWeek []"
    and "Method r = ''GET'' \<Longrightarrow> URLPath r = ''/api/v1/events/month'' \<Longrightarrow>
      chi_match lib (route_table wm) r = Matched ''/api/v1/events/month'' RouteMonth []"
proof -
  have hit: "chi_match lib (route_table wm) r = Matched pat ep []" if "filter (takes r) (route_table wm) = [(m, pat, ep)]" for m pat ep
    using assms that unfolding chi_law_def by blast
  show "Method r = ''POST'' \<Longrightarrow> URLPath r = ''/api/v1/events'' \<Longrightarrow>
      chi_match lib (route_table wm) r = Matched ''/api/v1/events'' RouteCreate []"
    by (rule hit) (simp add: route_table_def api_routes_def takes_def static_def)
  show "Method r = ''GET'' \<Longrightarrow> URLPath r = ''/api/v1/events/day'' \<Longrightarrow>
      chi_match lib (route_table wm) r = Matched ''/api/v1/events/day'' RouteDay []"
    by (rule hit) (simp add: route_table_def api_routes_def takes_def static_def)
  show "Method r = ''GET'' \<Longrightarrow> URLPath r = ''/api/v1/events/week'' \<Longrightarrow>
      chi_match lib (route_table wm) r = Matched ''/api/v1/events/week'' RouteWeek []"
    by (rule hit) (simp add: route_table_def api_routes_def takes_def static_def)
  show "Method r = ''GET'' \<Longrightarrow> URLPath r = ''/api/v1/events/month'' \<Longrightarrow>
      chi_match lib (route_table wm) r = Matched ''/api/v1/events/month'' RouteMonth []"
    by (rule hit) (simp add: route_table_def api_routes_def takes_def static_def)
qed

lemma route_found_event:
  assumes "chi_law lib" "URLRawPath r = []" "URLPath r = ''/api/v1/events/'' @ i"
    and "i \<noteq> []" "CHR ''/'' \<notin> set i" "i \<notin> set [''day'', ''week'', ''month'']"
  shows "Method r = ''PUT'' \<Longrightarrow> chi_match lib (route_table wm) r = Matched ''/api/v1/events/{eventId}'' RouteUpdate i"
    and "Method r = ''DELETE'' \<Longrightarrow> chi_match lib (route_table wm) r = Matched ''/api/v1/events/{eventId}'' RouteDelete i"
proof -
  have hit: "chi_match lib (route_table wm) r = Matched pat ep i"
    if "filter (\<lambda>e. param_value r e \<noteq> None) (route_table wm) = [(m, pat, ep)]" "param_value r (m, pat, ep) = Some i" for m pat ep
  proof -
    have "\<not> fixed_path (route_table wm) r"
      using assms(3,4,6) by (auto simp: fixed_path_def route_table_def api_routes_def static_def)
    with assms(1,2) that show ?thesis unfolding chi_law_def by blast
  qed
  have par: "param_value r (m, ''/api/v1/events/{eventId}'', ep) = (if m = Method r then Some i else None)" for m ep
    using assms(3-5) by (simp add: param_value_def static_def Let_def)
  have fixed: "CHR ''{'' \<notin> set pat \<Longrightarrow> param_value r (m, pat, ep) = None" for m pat ep
    by (auto simp: param_value_def Let_def)
      (metis Un_iff list.set_intros(1) set_append)
  show "Method r = ''PUT'' \<Longrightarrow> chi_match lib (route_table wm) r = Matched ''/api/v1/events/{eventId}'' RouteUpdate i"
    by (rule hit) (simp_all add: par fixed route_table_def api_routes_def)
  show "Method r = ''DELETE'' \<Longrightarrow> chi_match lib (route_table wm) r = Matched ''/api/v1/events/{eventId}'' RouteDelete i"
    by (rule hit) (simp_all add: par fixed route_table_def api_routes_def)
qed

end
