(* ===== verification/Http_Service.thy ===== *)
theory Http_Service
  imports Http_Transport
begin

text \<open>
  What the HTTP transport guarantees: the handlers change the calendar only behind a successful answer, the middlewares
  report the status that was sent, and the answers to the requests are those of the use cases. The locale
  \<open>calendar_service\<close> proves it for the application over any storage that keeps the contracts of \<open>event_storage\<close>.
\<close>

lemma newStorageEvent_fields:
  "newStorageEvent i t st en d u n = Inr ev \<Longrightarrow> ID ev = i \<and> Title ev = t \<and> StartAt ev = st \<and> EndAt ev = en \<and>
     UserID ev = u \<and> valid_event ev"
  by (auto simp: newStorageEvent_def Let_def valid_event_def split: sum.splits option.splits)

subsection \<open>Listings leave the storage alone\<close>

lemma AppListEvents_storage: "AppListEvents ops c u x y a = (res, a') \<Longrightarrow> app_storage a' = app_storage a"
  by (auto simp: AppListEvents_def split: sum.splits)

lemma list_keeps_storage:
  assumes "\<And>c u d a res a'. list (calendar_application ops) c u d a = (res, a') \<Longrightarrow> app_storage a' = app_storage a"
  shows "app_storage (snd (apiListEvents list (Some (calendar_application ops)) c u d a)) = app_storage a"
  using assms by (auto simp: apiListEvents_def listEvents_def split: option.splits prod.splits sum.splits)

lemma checked_list_keeps:
  "(\<And>u d a. app_storage (snd (h u d a)) = app_storage a) \<Longrightarrow> app_storage (snd (checked_list lib h r a)) = app_storage a"
  by (auto simp: checked_list_def split: sum.splits)

lemma listings_keep:
  "app_storage (snd (apiListEvents app_ListEventsForDay (Some (calendar_application ops)) c u d a)) = app_storage a"
  "app_storage (snd (apiListEvents app_ListEventsForWeek (Some (calendar_application ops)) c u d a)) = app_storage a"
  "app_storage (snd (apiListEvents app_ListEventsForMonth (Some (calendar_application ops)) c u d a)) = app_storage a"
  by (rule list_keeps_storage; auto simp: calendar_application_def ListEventsForDay_def ListEventsForWeek_def
      ListEventsForMonth_def Let_def dest: AppListEvents_storage)+

subsection \<open>The service over any storage that keeps the contracts\<close>

text \<open>
  \<open>atomic\<close> tells that a failed call of the storage changes nothing, as in memory; over a database a call can fail after it has
  taken effect.
\<close>

locale calendar_service =
  app_over_storage ops abs invar rnd
  for ops :: "'s storage_ops" and abs :: "'s \<Rightarrow> calendar" and invar :: "'s \<Rightarrow> bool" and rnd :: "Time \<Rightarrow> Time" +
  fixes lib :: http_lib
    and atomic :: bool
  assumes atomic_law: "atomic \<Longrightarrow> atomic_storage (op_create ops) (op_update ops) (op_delete ops) (op_list ops) abs invar rnd"
begin

text \<open>
  A handler keeps the invariant, and changes the calendar only when its answer is a success, or an internal error of a
  storage that is not atomic.
\<close>

definition sound_answer :: "'s App \<Rightarrow> writer_op list \<times> 's App \<Rightarrow> bool" where
  "sound_answer a res \<longleftrightarrow> invar (app_storage (snd res)) \<and>
     (abs (app_storage (snd res)) = abs (app_storage a) \<or> (200 \<le> ops_status (fst res) \<and> ops_status (fst res) < 300) \<or>
      \<not> atomic \<and> ops_status (fst res) = 500)"

lemma sound_same: "invar (app_storage a) \<Longrightarrow> sound_answer a (x, a)"
  by (simp add: sound_answer_def)

text \<open>A failed call: nothing happened, or the answer is an internal error.\<close>

lemma sound_failure:
  assumes "invar (app_storage a')" "abs (app_storage a') = abs (app_storage a) \<or> \<not> states_reason e"
    and "atomic \<Longrightarrow> abs (app_storage a') = abs (app_storage a)"
  shows "sound_answer a (writeApplicationError e, a')"
  using assms by (auto simp: sound_answer_def status_application_error states_reason_def)

lemma create_sound:
  assumes "ctx_law c" "invar (app_storage a)"
  shows "sound_answer a (apiCreateEvent lib (Some (calendar_application ops)) c r a)"
proof (cases "decodeRequest lib (DecodeCreate lib) r")
  case (Inr q)
  note dec = this
  show ?thesis
  proof (cases "newStorageEvent (cr_Id q) (cr_Title q) (cr_StartAt q) (cr_EndAt q) (cr_Description q) (cr_UserId q)
      (cr_NotifyBeforeSeconds q)")
    case (Inr ev)
    obtain res a' where run: "AppCreateEvent ops c ev a = (res, a')" by fastforce
    have post: "create_post rnd (abs (app_storage a)) ev res (abs (app_storage a'))" "invar (app_storage a')"
      using app_create_outcome [OF assms run] by auto
    show ?thesis
    proof (cases res)
      case (Some e)
      have "atomic \<Longrightarrow> abs (app_storage a') = abs (app_storage a)"
        using AppCreateEvent_cases [OF run] atomic_storage.create_atomic [OF atomic_law] by (auto simp: Some)
      then show ?thesis using dec Inr run post
        by (auto simp: apiCreateEvent_def calendar_application_def create_post_def Some intro!: sound_failure)
    qed (use dec Inr run post in \<open>auto simp: apiCreateEvent_def calendar_application_def sound_answer_def respond_defs writeJSON_def\<close>)
  qed (use assms dec in \<open>simp add: apiCreateEvent_def sound_same\<close>)
qed (use assms in \<open>simp add: apiCreateEvent_def sound_same\<close>)

lemma update_sound:
  assumes "ctx_law c" "invar (app_storage a)"
  shows "sound_answer a (apiUpdateEvent lib (Some (calendar_application ops)) c r i a)"
proof (cases "decodeRequest lib (DecodeUpdate lib) r")
  case (Inr q)
  note dec = this
  show ?thesis
  proof (cases "newStorageEvent i (ur_Title q) (ur_StartAt q) (ur_EndAt q) (ur_Description q) (ur_UserId q)
      (ur_NotifyBeforeSeconds q)")
    case (Inr ev)
    obtain res a' where run: "AppUpdateEvent ops c ev a = (res, a')" by fastforce
    have post: "update_post rnd (abs (app_storage a)) ev res (abs (app_storage a'))" "invar (app_storage a')"
      using app_update_outcome [OF assms run] by auto
    show ?thesis
    proof (cases res)
      case (Some e)
      have "atomic \<Longrightarrow> abs (app_storage a') = abs (app_storage a)"
        using AppUpdateEvent_cases [OF run] atomic_storage.update_atomic [OF atomic_law] by (auto simp: Some)
      then show ?thesis using dec Inr run post
        by (auto simp: apiUpdateEvent_def calendar_application_def update_post_def Some intro!: sound_failure)
    qed (use dec Inr run post in \<open>auto simp: apiUpdateEvent_def calendar_application_def sound_answer_def respond_defs writeJSON_def\<close>)
  qed (use assms dec in \<open>simp add: apiUpdateEvent_def sound_same\<close>)
qed (use assms in \<open>simp add: apiUpdateEvent_def sound_same\<close>)

lemma delete_sound:
  assumes "ctx_law c" "invar (app_storage a)"
  shows "sound_answer a (apiDeleteEvent (Some (calendar_application ops)) c i a)"
proof -
  obtain res a' where run: "AppDeleteEvent ops c i a = (res, a')" by fastforce
  have post: "delete_post (abs (app_storage a)) i res (abs (app_storage a'))" "invar (app_storage a')"
    using app_delete_outcome [OF assms run] by auto
  show ?thesis
  proof (cases res)
    case (Some e)
    have "atomic \<Longrightarrow> abs (app_storage a') = abs (app_storage a)"
      using AppDeleteEvent_cases [OF run] atomic_storage.delete_atomic [OF atomic_law] by (auto simp: Some)
    then show ?thesis using run post
      by (auto simp: apiDeleteEvent_def calendar_application_def delete_post_def Some intro!: sound_failure)
  qed (use run post in \<open>auto simp: apiDeleteEvent_def calendar_application_def sound_answer_def respond_defs\<close>)
qed

lemma checked_path_sound:
  "invar (app_storage a) \<Longrightarrow> (\<And>i. sound_answer a (h i a)) \<Longrightarrow> sound_answer a (checked_path lib h p a)"
  by (auto simp: checked_path_def sound_same split: sum.splits)

lemma listing_sound:
  assumes "invar (app_storage a)" "\<And>u d a. app_storage (snd (h u d a)) = app_storage a"
  shows "sound_answer a (checked_list lib h r a)"
  using assms by (simp add: sound_answer_def checked_list_keeps)

lemma route_sound:
  assumes "ctx_law c" "invar (app_storage a)"
  shows "sound_answer a (answer lib (Some (calendar_application ops)) wm c r route a)"
proof (cases route)
  case (Matched pat ep p)
  show ?thesis unfolding Matched
    by (cases ep) (use assms in \<open>simp_all add: create_sound update_sound delete_sound checked_path_sound sound_same
      listing_sound listings_keep\<close>)
qed (use assms in \<open>simp add: sound_same\<close>)

lemma ServeHTTP_sound:
  assumes "lib_law lib" "ctx_law c" "invar (app_storage (srv_app s))"
    and "ServeHTTP lib (Some (calendar_application ops)) wm c started latency r s = (w, s')"
  shows "invar (app_storage (srv_app s'))"
    and "abs (app_storage (srv_app s')) = abs (app_storage (srv_app s)) \<or> (200 \<le> final_status w \<and> final_status w < 300) \<or>
      \<not> atomic \<and> final_status w = 500"
proof -
  obtain x where x: "answer lib (Some (calendar_application ops)) wm c r (chi_match lib (route_table wm) r) (srv_app s) = (x, srv_app s')"
    "w = respond x" using ServeHTTP_transparent [OF assms(1,4)] by blast
  show "invar (app_storage (srv_app s'))"
    and "abs (app_storage (srv_app s')) = abs (app_storage (srv_app s)) \<or> (200 \<le> final_status w \<and> final_status w < 300) \<or>
      \<not> atomic \<and> final_status w = 500"
    using route_sound [OF assms(2,3), of wm r "chi_match lib (route_table wm) r"] x by (auto simp: sound_answer_def ops_status_def)
qed

end

interpretation memory_service: calendar_service memory_ops calendar_of storage_inv "\<lambda>t. t" lib True for lib
  by unfold_locales (auto dest: failed_call_keeps_storage)

subsection \<open>Runs of the server\<close>

text \<open>A request with its context and the two texts of the clock.\<close>

type_synonym arrival = "cctx \<times> string \<times> string \<times> http_request"

definition serve_one ::
  "http_lib \<Rightarrow> 's storage_ops \<Rightarrow> bool \<Rightarrow> arrival \<Rightarrow> 's App server \<Rightarrow> response_writer \<times> 's App server" where
  "serve_one lib ops wm q s =
     (case q of (c, started, latency, r) \<Rightarrow> ServeHTTP lib (Some (calendar_application ops)) wm c started latency r s)"

fun serve_all ::
  "http_lib \<Rightarrow> 's storage_ops \<Rightarrow> bool \<Rightarrow> arrival list \<Rightarrow> 's App server \<Rightarrow> response_writer list \<times> 's App server" where
  "serve_all lib ops wm [] s = ([], s)"
| "serve_all lib ops wm (q # qs) s =
     (case serve_one lib ops wm q s of (w, s1) \<Rightarrow>
        (case serve_all lib ops wm qs s1 of (ws, s2) \<Rightarrow> (w # ws, s2)))"

definition NewCalendarServer :: "'s \<Rightarrow> 's App server" where
  "NewCalendarServer st = \<lparr>srv_app = NewApp [] st, srv_access = [], srv_metrics = []\<rparr>"

context calendar_service
begin

lemma serve_all_invariant:
  assumes "lib_law lib" "list_all (\<lambda>q. ctx_law (fst q)) qs" "invar (app_storage (srv_app s))"
    and "serve_all lib ops wm qs s = (ws, s')"
  shows "invar (app_storage (srv_app s')) \<and> length ws = length qs \<and>
    length (srv_access s') = length (srv_access s) + length qs"
  using assms(2-)
proof (induction qs arbitrary: s ws)
  case (Cons q qs)
  obtain c st lt r where q: "q = (c, st, lt, r)" by (cases q) auto
  obtain w s1 where one: "ServeHTTP lib (Some (calendar_application ops)) wm c st lt r s = (w, s1)" by fastforce
  obtain ws' where rest: "serve_all lib ops wm qs s1 = (ws', s')" "ws = w # ws'"
    using Cons.prems(3) one by (auto simp: q serve_one_def split: prod.splits)
  have c: "ctx_law c" "list_all (\<lambda>q. ctx_law (fst q)) qs" using Cons.prems(1) by (simp_all add: q)
  have inv: "invar (app_storage (srv_app s1))" by (rule ServeHTTP_sound(1) [OF assms(1) c(1) Cons.prems(2) one])
  have "length (srv_access s1) = length (srv_access s) + 1"
    using ServeHTTP_transparent [OF assms(1) one] by auto
  then show ?case using Cons.IH [OF c(2) inv rest(1)] rest(2) by simp
qed simp

end

text \<open>
  The state of the storage changes through the three modifying operations only: a preorder that each of them respects, whatever
  it answers, relates the storage before and after every run of the server.
\<close>

locale storage_steps =
  fixes ops :: "'s storage_ops"
    and rel :: "'s \<Rightarrow> 's \<Rightarrow> bool"
  assumes rel_refl: "rel s s"
    and rel_trans: "rel s s' \<Longrightarrow> rel s' s'' \<Longrightarrow> rel s s''"
    and rel_create: "ctx_law c \<Longrightarrow> op_create ops c ev s = (r, s') \<Longrightarrow> rel s s'"
    and rel_update: "ctx_law c \<Longrightarrow> op_update ops c ev s = (r, s') \<Longrightarrow> rel s s'"
    and rel_delete: "ctx_law c \<Longrightarrow> op_delete ops c i s = (r, s') \<Longrightarrow> rel s s'"
begin

lemma app_rel:
  "ctx_law c \<Longrightarrow> AppCreateEvent ops c ev a = (r, a') \<Longrightarrow> rel (app_storage a) (app_storage a')"
  "ctx_law c \<Longrightarrow> AppUpdateEvent ops c ev a = (r, a') \<Longrightarrow> rel (app_storage a) (app_storage a')"
  "ctx_law c \<Longrightarrow> AppDeleteEvent ops c i a = (r, a') \<Longrightarrow> rel (app_storage a) (app_storage a')"
  using rel_create rel_update rel_delete
  by (fastforce dest: AppCreateEvent_cases AppUpdateEvent_cases AppDeleteEvent_cases)+

lemma handlers_rel:
  assumes "ctx_law c"
  shows "rel (app_storage a) (app_storage (snd (apiCreateEvent lib (Some (calendar_application ops)) c r a)))"
    "rel (app_storage a) (app_storage (snd (apiUpdateEvent lib (Some (calendar_application ops)) c r i a)))"
    "rel (app_storage a) (app_storage (snd (apiDeleteEvent (Some (calendar_application ops)) c i a)))"
  by (auto simp: apiCreateEvent_def apiUpdateEvent_def apiDeleteEvent_def calendar_application_def rel_refl
      split: sum.splits prod.splits option.splits dest: app_rel [OF assms])

lemma answer_rel:
  assumes "ctx_law c"
  shows "rel (app_storage a) (app_storage (snd (answer lib (Some (calendar_application ops)) wm c r route a)))"
proof (cases route)
  case (Matched pat ep p)
  have path: "rel (app_storage a) (app_storage (snd (checked_path lib h p a)))"
    if "\<And>i. rel (app_storage a) (app_storage (snd (h i a)))" for h
    using that by (auto simp: checked_path_def rel_refl split: sum.splits)
  show ?thesis unfolding Matched
    by (cases ep) (simp_all add: handlers_rel [OF assms] path rel_refl checked_list_keeps listings_keep)
qed (simp add: rel_refl)

lemma serve_all_rel:
  assumes "lib_law lib" "list_all (\<lambda>q. ctx_law (fst q)) qs" "serve_all lib ops wm qs s = (ws, s')"
  shows "rel (app_storage (srv_app s)) (app_storage (srv_app s'))"
  using assms(2-)
proof (induction qs arbitrary: s ws)
  case Nil
  then show ?case by (simp add: rel_refl)
next
  case (Cons q qs)
  obtain c st lt r where q: "q = (c, st, lt, r)" by (cases q) auto
  obtain w s1 where one: "ServeHTTP lib (Some (calendar_application ops)) wm c st lt r s = (w, s1)" by fastforce
  obtain ws' where rest: "serve_all lib ops wm qs s1 = (ws', s')"
    using Cons.prems(2) one by (auto simp: q serve_one_def split: prod.splits)
  have "rel (app_storage (srv_app s)) (app_storage (srv_app s1))"
    using ServeHTTP_transparent [OF assms(1) one] answer_rel [of c "srv_app s" lib wm r] Cons.prems(1) by (auto simp: q) (metis snd_conv)
  with Cons.IH [OF _ rest] Cons.prems(1) rel_trans show ?case by auto
qed

end

subsection \<open>A small library and some requests\<close>

definition small_http :: http_lib where
  "small_http = \<lparr>
     ParseMediaType = Some,
     DecodeCreate = (\<lambda>b. if b = ''{lunch}'' then Some (\<lparr>cr_Description = None, cr_EndAt = EndAt lunch, cr_Id = ''m2'',
       cr_NotifyBeforeSeconds = Some 60, cr_StartAt = StartAt lunch, cr_Title = ''lunch'', cr_UserId = ''u''\<rparr>, '' '') else None),
     DecodeUpdate = (\<lambda>b. if b = ''{late}'' then Some (\<lparr>ur_Description = None, ur_EndAt = EndAt lunch, ur_NotifyBeforeSeconds = None,
       ur_StartAt = StartAt lunch, ur_Title = ''late lunch'', ur_UserId = ''u''\<rparr>, []) else None),
     BindPath = Inr,
     BindQuery = (\<lambda>key q. case map_of q key of None \<Rightarrow> Inl (Err (LibError ''unbound'')) | Some v \<Rightarrow> Inr v),
     chi_match = small_chi,
     metrics_page = (\<lambda>_. [WriteHeader 200])\<rparr>"

definition post_lunch :: http_request where
  "post_lunch = \<lparr>Method = ''POST'', URLPath = ''/api/v1/events'', URLRawPath = [], Query = [], ContentType = ''application/json'',
     Body = ''{lunch}'', RequestURI = ''/api/v1/events'', URLRequestURI = [], RemoteAddr = ''10.0.0.1:5000'',
     Proto = ''HTTP/1.1'', UserAgent = []\<rparr>"

definition put_lunch :: http_request where
  "put_lunch = post_lunch\<lparr>Method := ''PUT'', URLPath := ''/api/v1/events/m2'', Body := ''{late}''\<rparr>"

definition delete_lunch :: http_request where
  "delete_lunch = put_lunch\<lparr>Method := ''DELETE'', Body := []\<rparr>"

definition get_day :: http_request where
  "get_day = \<lparr>Method = ''GET'', URLPath = ''/api/v1/events/day'', URLRawPath = [], Query = [(''user_id'', ''u''), (''date'', FormatDate 2025 11 29)],
     ContentType = [], Body = [], RequestURI = [], URLRequestURI = ''/api/v1/events/day?user_id=u'',
     RemoteAddr = ''[::1]:5000'', Proto = ''HTTP/1.1'', UserAgent = ''curl''\<rparr>"

definition sample_server :: "Storage App server" where
  "sample_server = \<lparr>srv_app = two_events_app, srv_access = [], srv_metrics = []\<rparr>"

lemma small_http_law: "lib_law small_http"
  by (auto simp: lib_law_def small_http_def small_chi_def informational_def split: list.splits prod.splits)

lemma small_http_chi: "chi_law small_http"
  by (rule small_chi_law) (simp add: small_http_def)

lemma sample_server_inv: "storage_inv (app_storage (srv_app sample_server))"
  using two_events_app_inv by (simp add: sample_server_def)

subsection \<open>Properties\<close>

text \<open>
  C3: whatever requests reach a server over an empty in-memory storage, well formed or not, the calendar stays
  consistent: every stored event is valid, is stored under its identifier, and no user has two events at the same time.
  Every request is answered once and leaves one access log entry.
\<close>

theorem api_keeps_calendar_consistent:
  assumes "lib_law lib" "list_all (\<lambda>q. ctx_law (fst q)) qs"
    and "serve_all lib memory_ops wm qs (NewCalendarServer New) = (ws, s')"
  shows "calendar_ok (calendar_of (app_storage (srv_app s'))) \<and> length ws = length qs \<and> length (srv_access s') = length qs"
  using memory_service.serve_all_invariant [OF assms(1,2) _ assms(3)]
  by (simp add: NewCalendarServer_def NewApp_def storage_inv_def [of "app_storage _"])

theorem api_keeps_calendar_consistent_witness:
  "length (srv_access (snd (serve_all small_http memory_ops True [(live, [], [], post_lunch), (live, [], [], post_lunch)]
     (NewCalendarServer New)))) = 2"
  using api_keeps_calendar_consistent [OF small_http_law _ prod.collapse [symmetric],
      of "[(live, [], [], post_lunch), (live, [], [], post_lunch)]" True]
  by simp



text \<open>
  C16: the middlewares are transparent. The answer is the one the handler wrote, the access log has one more entry with the
  status that was sent, and the metrics one more observation with that status, unless the metrics page itself was asked for.
\<close>

theorem middlewares_report_sent_status:
  assumes "lib_law lib" "ServeHTTP lib app wm c started latency r s = (w, s')"
  shows "\<exists>ops. answer lib app wm c r (chi_match lib (route_table wm) r) (srv_app s) = (ops, srv_app s') \<and> w = respond ops \<and>
    srv_access s' = srv_access s @ [access_entry started latency r (final_status w)] \<and>
    srv_metrics s' = srv_metrics s @
      (if wm \<and> URLPath r \<noteq> ''/metrics'' then observe (Method r) (route_pattern (chi_match lib (route_table wm) r)) (final_status w) else [])"
  using assms by (rule ServeHTTP_transparent)

theorem middlewares_report_sent_status_witness:
  "srv_metrics (snd (ServeHTTP small_http (Some (calendar_application memory_ops)) True live [] [] post_lunch sample_server)) = [HTTPRequest ''POST'' ''/api/v1/events'' 409, EventOperation ''create'' False]"
proof -
  have st: "final_status (fst (ServeHTTP small_http (Some (calendar_application memory_ops)) True live [] [] post_lunch sample_server)) = 409" by code_simp
  have obs: "observe (Method post_lunch) (route_pattern (chi_match small_http (route_table True) post_lunch)) 409 =
      [HTTPRequest ''POST'' ''/api/v1/events'' 409, EventOperation ''create'' False]" "URLPath post_lunch \<noteq> ''/metrics''"
    by code_simp+
  have none: "srv_metrics sample_server = []" by (simp add: sample_server_def)
  show ?thesis
    using middlewares_report_sent_status [OF small_http_law prod.collapse [symmetric],
        where app = "Some (calendar_application memory_ops)" and wm = True and c = live and started = "[]" and latency = "[]"
          and r = post_lunch and s = sample_server]
    by (auto simp: st obs none)
qed

text \<open>
  C12: the answer to a creation with a readable body tells exactly what happened: 400 for a request that is no valid event,
  409 when the identifier is taken or the user is busy at that time, both with the calendar unchanged, and otherwise 201
  with the event in the calendar and in the body.
\<close>

theorem api_create_exact:
  assumes "lib_law lib" "storage_inv (app_storage (srv_app s))"
    and chi: "chi_law lib" "URLRawPath r = []" and url: "Method r = ''POST''" "URLPath r = ''/api/v1/events''"
    and dec: "decodeJSON lib (DecodeCreate lib) r = Inr q"
    and run: "ServeHTTP lib (Some (calendar_application memory_ops)) wm live started latency r s = (w, s')"
  defines "m \<equiv> calendar_of (app_storage (srv_app s))" and "m' \<equiv> calendar_of (app_storage (srv_app s'))"
  shows "case newStorageEvent (cr_Id q) (cr_Title q) (cr_StartAt q) (cr_EndAt q) (cr_Description q) (cr_UserId q)
           (cr_NotifyBeforeSeconds q) of
      Inl _ \<Rightarrow> final_status w = 400 \<and> m' = m
    | Inr ev \<Rightarrow>
        if ID ev \<in> dom m \<or> busy m ev None then final_status w = 409 \<and> m' = m
        else final_status w = 201 \<and> m' = m(ID ev \<mapsto> ev) \<and> rw_body w = [JsonEvent (eventResponse ev)]"
proof -
  let ?new = "newStorageEvent (cr_Id q) (cr_Title q) (cr_StartAt q) (cr_EndAt q) (cr_Description q) (cr_UserId q)
    (cr_NotifyBeforeSeconds q)"
  obtain ops where h: "apiCreateEvent lib (Some (calendar_application memory_ops)) live r (srv_app s) = (ops, srv_app s')"
    and w: "w = respond ops" using ServeHTTP_transparent [OF assms(1) run] route_found(1) [OF chi url] by auto
  have dr: "decodeRequest lib (DecodeCreate lib) r = Inr q" by (simp add: decodeRequest_def dec)
  show ?thesis
  proof (cases ?new)
    case (Inl e)
    then show ?thesis using h newStorageEvent_error [OF Inl] status_application_error [of e]
      by (auto simp: apiCreateEvent_def dr w m_def m'_def ops_status_def)
  next
    case (Inr ev)
    obtain res st where c: "CreateEvent live ev (app_storage (srv_app s)) = (res, st)" by fastforce
    note exact = CreateEvent_live [OF assms(2) c]
    have v: "valid_event ev" using newStorageEvent_fields [OF Inr] by blast
    have "ops = (case res of
          None \<Rightarrow> SetHeader ''Location'' (''/api/v1/events/'' @ PathEscape (ID ev)) # writeJSON 201 (JsonEvent (eventResponse ev))
        | Some e \<Rightarrow> writeApplicationError e)" "app_storage (srv_app s') = st"
      using h by (auto simp: apiCreateEvent_def dr Inr calendar_application_def AppCreateEvent_def c eq_commute [of _ "srv_app s'"]
          split: option.splits)
    with exact v Inr show ?thesis by (auto simp: w m_def m'_def respond_simps split: if_splits)
  qed
qed

theorem api_create_exact_witness:
  "final_status (fst (ServeHTTP small_http (Some (calendar_application memory_ops)) True live [] [] post_lunch (NewCalendarServer New))) = 201 \<and>
   calendar_of (app_storage (srv_app (snd (ServeHTTP small_http (Some (calendar_application memory_ops)) True live [] [] post_lunch (NewCalendarServer New)))))
     = [''m2'' \<mapsto> lunch\<lparr>NotifyBefore := 60 * second\<rparr>]"
proof -
  define q where "q = \<lparr>cr_Description = None, cr_EndAt = EndAt lunch, cr_Id = ''m2'',
    cr_NotifyBeforeSeconds = Some 60, cr_StartAt = StartAt lunch, cr_Title = ''lunch'', cr_UserId = ''u''\<rparr>"
  have url: "URLRawPath post_lunch = []" "Method post_lunch = ''POST''" "URLPath post_lunch = ''/api/v1/events''"
    by (simp_all add: post_lunch_def)
  have dec: "decodeJSON small_http (DecodeCreate small_http) post_lunch = Inr q"
    unfolding q_def by code_simp
  have new: "newStorageEvent (cr_Id q) (cr_Title q) (cr_StartAt q) (cr_EndAt q) (cr_Description q) (cr_UserId q)
      (cr_NotifyBeforeSeconds q) = Inr (lunch\<lparr>NotifyBefore := 60 * second\<rparr>)"
    unfolding q_def by code_simp
  have empty: "storage_inv (app_storage (srv_app (NewCalendarServer New)))"
    "calendar_of (app_storage (srv_app (NewCalendarServer New))) = Map.empty"
    by (simp_all add: NewCalendarServer_def NewApp_def) (simp add: calendar_of_def stored_def New_def)
  show ?thesis
    using api_create_exact [OF small_http_law empty(1) small_http_chi url dec prod.collapse [symmetric], where wm = True and started = "[]" and latency = "[]"]
    by (simp add: new empty(2) busy_def) (simp add: lunch_def)
qed

text \<open>
  C13: the answer to a \<open>PUT\<close> of an event with a readable body tells exactly what happened: 400 for a request that is no valid
  event, 404 when there is no event with the identifier of the path, 409 when the user has another event at that time, all
  three with the calendar unchanged, and otherwise 200 with the event replaced in the calendar and shown in the body.
\<close>

theorem api_update_exact:
  assumes "lib_law lib" "storage_inv (app_storage (srv_app s))"
    and chi: "chi_law lib" "URLRawPath r = []" and url: "URLPath r = ''/api/v1/events/'' @ i" "i \<noteq> []" "CHR ''/'' \<notin> set i"
      "i \<notin> set [''day'', ''week'', ''month'']" and put: "Method r = ''PUT''"
    and path: "BindPath lib i = Inr i" and dec: "decodeJSON lib (DecodeUpdate lib) r = Inr q"
    and run: "ServeHTTP lib (Some (calendar_application memory_ops)) wm live started latency r s = (w, s')"
  defines "m \<equiv> calendar_of (app_storage (srv_app s))" and "m' \<equiv> calendar_of (app_storage (srv_app s'))"
  shows "case newStorageEvent i (ur_Title q) (ur_StartAt q) (ur_EndAt q) (ur_Description q) (ur_UserId q)
           (ur_NotifyBeforeSeconds q) of
      Inl _ \<Rightarrow> final_status w = 400 \<and> m' = m
    | Inr ev \<Rightarrow>
        if i \<notin> dom m then final_status w = 404 \<and> m' = m
        else if busy m ev (Some i) then final_status w = 409 \<and> m' = m
        else final_status w = 200 \<and> m' = m(i \<mapsto> ev) \<and> rw_body w = [JsonEvent (eventResponse ev)]"
proof -
  let ?new = "newStorageEvent i (ur_Title q) (ur_StartAt q) (ur_EndAt q) (ur_Description q) (ur_UserId q)
    (ur_NotifyBeforeSeconds q)"
  obtain ops where h: "apiUpdateEvent lib (Some (calendar_application memory_ops)) live r i (srv_app s) = (ops, srv_app s')"
    and w: "w = respond ops"
    using ServeHTTP_transparent [OF assms(1) run] route_found_event(1) [OF chi url put] by (auto simp: checked_path_def path)
  have dr: "decodeRequest lib (DecodeUpdate lib) r = Inr q" by (simp add: decodeRequest_def dec)
  show ?thesis
  proof (cases ?new)
    case (Inl e)
    then show ?thesis using h newStorageEvent_error [OF Inl] status_application_error [of e]
      by (auto simp: apiUpdateEvent_def dr w m_def m'_def ops_status_def)
  next
    case (Inr ev)
    obtain res st where c: "UpdateEvent live ev (app_storage (srv_app s)) = (res, st)" by fastforce
    have ev: "valid_event ev" "ID ev = i" using newStorageEvent_fields [OF Inr] by blast+
    note exact = memory_update_behaviour [OF assms(2) c, unfolded ev(2), folded m_def]
    have "ops = (case res of None \<Rightarrow> writeJSON 200 (JsonEvent (eventResponse ev)) | Some e \<Rightarrow> writeApplicationError e)"
      "app_storage (srv_app s') = st"
      using h by (auto simp: apiUpdateEvent_def dr Inr calendar_application_def AppUpdateEvent_def c eq_commute [of _ "srv_app s'"]
          split: option.splits)
    with exact ev(1) Inr show ?thesis
      by (auto simp: w m_def m'_def respond_simps split: if_splits)
  qed
qed

theorem api_update_exact_witness:
  "final_status (fst (ServeHTTP small_http (Some (calendar_application memory_ops)) True live [] [] put_lunch sample_server)) = 200 \<and>
   rw_body (fst (ServeHTTP small_http (Some (calendar_application memory_ops)) True live [] [] put_lunch sample_server)) =
     [JsonEvent (eventResponse (lunch\<lparr>Title := ''late lunch''\<rparr>))]"
proof -
  define q where "q = \<lparr>ur_Description = None, ur_EndAt = EndAt lunch, ur_NotifyBeforeSeconds = None, ur_StartAt = StartAt lunch,
    ur_Title = ''late lunch'', ur_UserId = ''u''\<rparr>"
  have url: "URLRawPath put_lunch = []" "URLPath put_lunch = ''/api/v1/events/'' @ ''m2''" "Method put_lunch = ''PUT''"
    "BindPath small_http ''m2'' = Inr ''m2''"
    by (simp_all add: put_lunch_def post_lunch_def small_http_def)
  have dec: "decodeJSON small_http (DecodeUpdate small_http) put_lunch = Inr q"
    unfolding q_def by code_simp
  have new: "newStorageEvent ''m2'' (ur_Title q) (ur_StartAt q) (ur_EndAt q) (ur_Description q) (ur_UserId q)
      (ur_NotifyBeforeSeconds q) = Inr (lunch\<lparr>Title := ''late lunch''\<rparr>)"
    unfolding q_def by code_simp
  have cal: "calendar_of (app_storage (srv_app sample_server)) = calendar_of two_events"
    by (simp add: sample_server_def two_events_app_def NewApp_def)
  have there: "''m2'' \<in> dom (calendar_of two_events)" by (simp add: calendar_of_def two_events_stored)
  have free: "\<not> busy (calendar_of two_events) (lunch\<lparr>Title := ''late lunch''\<rparr>) (Some ''m2'')"
    by (auto simp: busy_def calendar_of_def two_events_stored clash_def intervalsOverlap_def time_cmp sample_defs split: if_splits)
  show ?thesis
    using api_update_exact [OF small_http_law sample_server_inv small_http_chi url(1,2) _ _ _ url(3,4) dec prod.collapse [symmetric],
        where wm = True and started = "[]" and latency = "[]"]
    by (simp add: new cal there free)
qed

text \<open>
  C14: \<open>DELETE\<close> of an event answers 400 for a blank identifier and 404 for one that is not in the calendar, with the calendar
  unchanged, and otherwise 204 without a body, with exactly that event removed.
\<close>

theorem api_delete_exact:
  assumes "lib_law lib"
    and chi: "chi_law lib" "URLRawPath r = []" and url: "URLPath r = ''/api/v1/events/'' @ i" "i \<noteq> []" "CHR ''/'' \<notin> set i"
      "i \<notin> set [''day'', ''week'', ''month'']" and del: "Method r = ''DELETE''"
    and path: "BindPath lib i = Inr i"
    and run: "ServeHTTP lib (Some (calendar_application memory_ops)) wm live started latency r s = (w, s')"
  defines "m \<equiv> calendar_of (app_storage (srv_app s))" and "m' \<equiv> calendar_of (app_storage (srv_app s'))"
  shows "if blank i then final_status w = 400 \<and> m' = m
    else if i \<notin> dom m then final_status w = 404 \<and> m' = m
    else final_status w = 204 \<and> rw_body w = [] \<and> m' = m(i := None)"
proof -
  obtain ops where h: "apiDeleteEvent (Some (calendar_application memory_ops)) live i (srv_app s) = (ops, srv_app s')"
    and w: "w = respond ops"
    using ServeHTTP_transparent [OF assms(1) run] route_found_event(2) [OF chi url del] by (auto simp: checked_path_def path)
  obtain res st where c: "DeleteEvent live i (app_storage (srv_app s)) = (res, st)" by fastforce
  have "ops = (case res of None \<Rightarrow> [WriteHeader 204] | Some e \<Rightarrow> writeApplicationError e)" "app_storage (srv_app s') = st"
    using h by (auto simp: apiDeleteEvent_def calendar_application_def AppDeleteEvent_def c eq_commute [of _ "srv_app s'"]
        split: option.splits)
  with DeleteEvent_live [OF c] show ?thesis
    by (auto simp: w m_def m'_def respond_simps split: if_splits)
qed

theorem api_delete_exact_witness:
  "final_status (fst (ServeHTTP small_http (Some (calendar_application memory_ops)) True live [] [] delete_lunch sample_server)) = 204 \<and>
   calendar_of (app_storage (srv_app (snd (ServeHTTP small_http (Some (calendar_application memory_ops)) True live [] [] delete_lunch
     sample_server)))) = (calendar_of two_events)(''m2'' := None)"
proof -
  have url: "URLRawPath delete_lunch = []" "URLPath delete_lunch = ''/api/v1/events/'' @ ''m2''" "Method delete_lunch = ''DELETE''"
    "BindPath small_http ''m2'' = Inr ''m2''"
    by (simp_all add: delete_lunch_def put_lunch_def post_lunch_def small_http_def)
  have nb: "\<not> blank ''m2''" by code_simp
  have cal: "calendar_of (app_storage (srv_app sample_server)) = calendar_of two_events"
    by (simp add: sample_server_def two_events_app_def NewApp_def)
  have there: "''m2'' \<in> dom (calendar_of two_events)" by (simp add: calendar_of_def two_events_stored)
  show ?thesis
    using api_delete_exact [OF small_http_law small_http_chi url(1,2) _ _ _ url(3,4) prod.collapse [symmetric],
        where wm = True and started = "[]" and latency = "[]" and s = sample_server]
    by (simp add: nb cal there)
qed

text \<open>
  The three listings: their paths, the range from a date that \<open>ParseDate\<close> gives, and when an instant is in the period.
\<close>

datatype period = ByDay | ByWeek | ByMonth

fun period_path :: "period \<Rightarrow> string" where
  "period_path ByDay = ''/api/v1/events/day''"
| "period_path ByWeek = ''/api/v1/events/week''"
| "period_path ByMonth = ''/api/v1/events/month''"

fun period_range :: "period \<Rightarrow> Time \<Rightarrow> Time \<times> Time" where
  "period_range ByDay date = (date, AddDate date 0 0 1)"
| "period_range ByWeek date = (date, AddDate date 0 0 7)"
| "period_range ByMonth date = (let a = Date (Year date) (Month date) 1 0 0 0 0 (zone date) in (a, AddDate a 0 1 0))"

fun in_period :: "period \<Rightarrow> Time \<Rightarrow> int \<Rightarrow> bool" where
  "in_period ByDay date i \<longleftrightarrow> TimeDate \<lparr>instant = i, zone = UTC\<rparr> = TimeDate date"
| "in_period ByWeek date i \<longleftrightarrow> local_day UTC i - local_day UTC (instant date) \<in> {0..6}"
| "in_period ByMonth date i \<longleftrightarrow> (\<exists>d. TimeDate \<lparr>instant = i, zone = UTC\<rparr> = (Year date, Month date, d))"

lemma period_facts:
  assumes "zone date = UTC" "beginningOfDay date = date"
  shows "covers (fst (period_range p date)) (snd (period_range p date)) i \<longleftrightarrow> in_period p date i"
    and "Before (fst (period_range p date)) (snd (period_range p date))"
proof -
  have z: "fixed_zone (zone date)" using assms(1) by simp
  note days = day_range_iff [OF z, unfolded assms(2)] and before = range_nonempty [OF z, unfolded assms(2)]
  have day: "TimeDate \<lparr>instant = i, zone = UTC\<rparr> = TimeDate date \<longleftrightarrow> local_day UTC i = local_day UTC (instant date)"
    by (simp add: TimeDate_local_day civil_inj assms(1))
  show "covers (fst (period_range p date)) (snd (period_range p date)) i \<longleftrightarrow> in_period p date i"
    using month_range_iff [OF z, of i] day by (cases p) (auto simp: days Let_def assms(1))
  show "Before (fst (period_range p date)) (snd (period_range p date))"
    using month_nonempty [OF z] by (cases p) (simp_all add: before Let_def)
qed

lemma listing_answer:
  assumes "chi_law lib" "URLRawPath r = []" "Method r = ''GET''" "URLPath r = period_path p"
    and "query_Get (Query r) ''user_id'' \<noteq> []" "query_Get (Query r) ''date'' \<noteq> []"
      "BindQuery lib ''user_id'' (Query r) = Inr u" "BindQuery lib ''date'' (Query r) = Inr ds"
    and "\<not> blank u" "ParseDate ds = Some date"
    and "AppListEvents ops live u (fst (period_range p date)) (snd (period_range p date)) a = (Inr es, a')"
  shows "answer lib (Some (calendar_application ops)) wm live r (chi_match lib (route_table wm) r) a =
    (writeJSON 200 (JsonEvents (map eventResponse es)), a')"
  using assms(4-11) ParseDate_UTC [OF assms(10)]
  by (cases p) (simp_all add: route_found(2,3,4) [OF assms(1-3)] checked_list_def apiListEvents_def listEvents_def
      calendar_application_def ListEventsForDay_def ListEventsForWeek_def ListEventsForMonth_def Let_def)

text \<open>
  C18: the listing of a day, of the seven days from a date, or of a month answers 200 with exactly the events of the user that have
  an instant in that period of the UTC calendar, in the order of their start and identifier, and changes nothing.
\<close>

theorem api_listing_exact:
  assumes "lib_law lib" "storage_inv (app_storage (srv_app s))"
    and req: "chi_law lib" "URLRawPath r = []" "Method r = ''GET''" "URLPath r = period_path p"
      "query_Get (Query r) ''user_id'' \<noteq> []" "query_Get (Query r) ''date'' \<noteq> []"
      "BindQuery lib ''user_id'' (Query r) = Inr u" "BindQuery lib ''date'' (Query r) = Inr ds"
      "\<not> blank u" "ParseDate ds = Some date"
    and times: "\<not> IsZero (fst (period_range p date))" "\<not> IsZero (snd (period_range p date))"
    and run: "ServeHTTP lib (Some (calendar_application memory_ops)) wm live started latency r s = (w, s')"
  shows "final_status w = 200 \<and> s'\<lparr>srv_access := srv_access s, srv_metrics := srv_metrics s\<rparr> = s \<and>
    (\<exists>es. rw_body w = [JsonEvents (map eventResponse es)] \<and> distinct es \<and> sorted (map list_key es) \<and>
      set es = {e \<in> ran (calendar_of (app_storage (srv_app s))). UserID e = u \<and>
        (\<exists>i. covers (StartAt e) (EndAt e) i \<and> in_period p date i)})"
proof -
  note facts = period_facts [OF conjunct1 [OF ParseDate_UTC [OF req(10)]] conjunct2 [OF ParseDate_UTC [OF req(10)]]]
  have "valid_query u (fst (period_range p date)) (snd (period_range p date))"
    using req(9) times facts(2) by (simp add: valid_query_def)
  from memory_listing [OF assms(2) this] obtain es where
      es: "AppListEvents memory_ops live u (fst (period_range p date)) (snd (period_range p date)) (srv_app s) = (Inr es, srv_app s)"
        "distinct es \<and> sorted (map list_key es) \<and> set es = {e \<in> ran (calendar_of (app_storage (srv_app s))). UserID e = u \<and>
          (\<exists>i. covers (StartAt e) (EndAt e) i \<and> in_period p date i)}"
    unfolding facts(1) by blast
  have "w = respond (writeJSON 200 (JsonEvents (map eventResponse es)))" "srv_app s' = srv_app s"
    using ServeHTTP_transparent [OF assms(1) run] listing_answer [OF req es(1), of wm] by auto
  then show ?thesis using es(2) by (auto simp: respond_simps)
qed

theorem api_listing_exact_witness:
  "final_status (fst (ServeHTTP small_http (Some (calendar_application memory_ops)) True live [] [] get_day sample_server)) = 200 \<and>
   (\<exists>es. rw_body (fst (ServeHTTP small_http (Some (calendar_application memory_ops)) True live [] [] get_day sample_server)) = [JsonEvents (map eventResponse es)] \<and> distinct es)"
proof -
  have d: "ParseDate (FormatDate 2025 11 29) = Some (Date 2025 11 29 0 0 0 0 UTC)" by code_simp
  have url: "URLRawPath get_day = []" "Method get_day = ''GET''" "URLPath get_day = period_path ByDay"
    by (simp_all add: get_day_def)
  have q: "query_Get (Query get_day) ''user_id'' \<noteq> []" "query_Get (Query get_day) ''date'' \<noteq> []"
    "BindQuery small_http ''user_id'' (Query get_day) = Inr ''u''"
    "BindQuery small_http ''date'' (Query get_day) = Inr (FormatDate 2025 11 29)" "\<not> blank ''u''"
    "\<not> IsZero (fst (period_range ByDay (Date 2025 11 29 0 0 0 0 UTC)))" "\<not> IsZero (snd (period_range ByDay (Date 2025 11 29 0 0 0 0 UTC)))"
    by code_simp+
  show ?thesis
    using api_listing_exact [OF small_http_law sample_server_inv small_http_chi url q(1-5) d q(6,7) prod.collapse [symmetric], where wm = True and started = "[]" and latency = "[]"]
    by blast
qed

text \<open>
  every date of the years 0 to 9999 that a client writes as \<open>YYYY-MM-DD\<close> is read as midnight UTC of that date.
\<close>

theorem date_roundtrip:
  assumes "0 \<le> y" "y \<le> 9999" "valid_date y m d"
  shows "ParseDate (FormatDate y m d) = Some (Date y m d 0 0 0 0 UTC)"
proof -
  have md: "1 \<le> m" "m \<le> 12" "1 \<le> d" "d \<le> 31"
    using assms(3) days_in_month_le [of m "isLeap y"] by (auto simp: valid_date_def)
  have century: "0 \<le> y div 100" "y div 100 < 100" using assms(1,2) by presburger+
  obtain a1 a2 where a: "two (y div 100) = [a1, a2]" "is_ascii_digit a1" "is_ascii_digit a2" "two_digits a1 a2 = y div 100"
    using two_digits_two [of "y div 100"] century by auto
  obtain b1 b2 where b: "two (y mod 100) = [b1, b2]" "is_ascii_digit b1" "is_ascii_digit b2" "two_digits b1 b2 = y mod 100"
    using two_digits_two [of "y mod 100"] by auto
  obtain c1 c2 where c: "two m = [c1, c2]" "is_ascii_digit c1" "is_ascii_digit c2" "two_digits c1 c2 = m"
    using two_digits_two [of m] md by auto
  obtain d1 d2 where d: "two d = [d1, d2]" "is_ascii_digit d1" "is_ascii_digit d2" "two_digits d1 d2 = d"
    using two_digits_two [of d] md by auto
  show ?thesis
    using ParseDate_two [OF a(1) b(1) c(1) d(1) _ a(4) b(4) c(4) d(4)] a b c d assms(3) by (simp add: FormatDate_def)
qed

theorem date_roundtrip_witness: "ParseDate (FormatDate 2024 2 29) = Some (Date 2024 2 29 0 0 0 0 UTC)"
  by (rule date_roundtrip) code_simp+

text \<open>
  C38: an accepted request comes back unchanged in the answer: an absent description is empty, an absent notification
  time is 0, and the conversion to nanoseconds and back loses nothing because the product fits into 64 bits.
\<close>

theorem api_event_echo:
  assumes "newStorageEvent i t st en d u n = Inr ev"
  shows "in_int64 (NotifyBefore ev) \<and> eventResponse ev =
    \<lparr>ae_Description = (case d of None \<Rightarrow> [] | Some x \<Rightarrow> x), ae_EndAt = en, ae_Id = i,
     ae_NotifyBeforeSeconds = (case n of None \<Rightarrow> 0 | Some k \<Rightarrow> k), ae_StartAt = st, ae_Title = t, ae_UserId = u\<rparr>"
proof -
  obtain nb where nb: "notificationDuration n = Inr nb" using assms by (auto simp: newStorageEvent_def split: sum.splits)
  have ev: "ev = \<lparr>ID = i, Title = t, StartAt = st, EndAt = en, Description = (case d of None \<Rightarrow> [] | Some x \<Rightarrow> x),
      UserID = u, NotifyBefore = nb\<rparr>"
    using assms nb by (auto simp: newStorageEvent_def Let_def split: option.splits)
  note ok = notificationDuration_ok [OF nb]
  have "quot nb second = (case n of None \<Rightarrow> 0 | Some k \<Rightarrow> k)"
    using ok(1,3) quot_second by (auto simp: second_def split: option.splits)
  with ok(2) show ?thesis by (simp add: ev eventResponse_def)
qed

theorem api_event_echo_witness:
  "ae_NotifyBeforeSeconds (eventResponse (lunch\<lparr>NotifyBefore := 60 * second\<rparr>)) = 60"
proof -
  have "newStorageEvent ''m2'' ''lunch'' (StartAt lunch) (EndAt lunch) None ''u'' (Some 60) =
      Inr (lunch\<lparr>NotifyBefore := 60 * second\<rparr>)" by code_simp
  from api_event_echo [OF this] show ?thesis by simp
qed

end
