(* ===== verification/Struct_Validator.thy ===== *)
theory Struct_Validator
  imports Unpack_String
begin

text \<open>
  The struct validator of \<open>hw09_struct_validator/validator.go\<close>. What reflection shows of a value is the datatype
  \<open>gvalue\<close>; a field carries its name, whether it is exported, the name of its type and the text of its \<open>validate\<close> tag. The
  regular expressions of the library are the parameter \<open>compile\<close>: what \<open>regexp.Compile\<close> gives for a pattern, a matcher or an error.
\<close>

subsection \<open>What reflection shows\<close>

datatype kind = KInt | KString | KOther

datatype gvalue =
    VInt int
  | VString string
  | VSlice kind "gvalue list"
  | VOther

record struct_field =
  sf_Name :: string
  sf_Type :: string
  sf_Exported :: bool
  sf_Validate :: "string option"

datatype input = Struct "(struct_field \<times> gvalue) list" | NoStruct

fun Kind :: "gvalue \<Rightarrow> kind" where
  "Kind (VInt _) = KInt"
| "Kind (VString _) = KString"
| "Kind _ = KOther"

fun ValueInt :: "gvalue \<Rightarrow> int" where
  "ValueInt (VInt i) = i"
| "ValueInt _ = 0"

fun ValueString :: "gvalue \<Rightarrow> string" where
  "ValueString (VString s) = s"
| "ValueString _ = []"

text \<open>The elements of a slice have its element kind, so \<open>ValueInt\<close> and \<open>ValueString\<close> are only called where they are defined.\<close>

fun well_typed :: "gvalue \<Rightarrow> bool" where
  "well_typed (VSlice k vs) \<longleftrightarrow> list_all (\<lambda>v. Kind v = k) vs"
| "well_typed _ \<longleftrightarrow> True"

subsection \<open>Errors\<close>

datatype val_error =
    ErrNotStruct | ErrInvalidTag | ErrUnsupportedType | ErrUnsupportedValidator
  | ErrLen | ErrRegexp | ErrIn | ErrMin | ErrMax

type_synonym verr = "val_error err"

type_synonym ValidationErrors = "(string \<times> verr) list"

text \<open>\<open>Error\<close>: the texts of the failures, separated by semicolons; the text of a cause stands for itself.\<close>

datatype error_piece = Piece message | Cause verr

fun ValidationErrors_Error :: "ValidationErrors \<Rightarrow> error_piece list" where
  "ValidationErrors_Error [] = []"
| "ValidationErrors_Error [(field, e)] = [Piece [Plain field, Lit '': ''], Cause e]"
| "ValidationErrors_Error ((field, e) # es) =
     [Piece [Plain field, Lit '': ''], Cause e, Piece [Lit ''; '']] @ ValidationErrors_Error es"

definition ValidationErrors_Is :: "ValidationErrors \<Rightarrow> val_error \<Rightarrow> bool" where
  "ValidationErrors_Is es target \<longleftrightarrow> list_ex (\<lambda>(_, e). errors_is e target) es"

type_synonym rule = "gvalue \<Rightarrow> verr option"

type_synonym regexps = "string \<Rightarrow> (string \<Rightarrow> bool) option"

subsection \<open>The rules\<close>

definition newStringLengthRule :: "string \<Rightarrow> verr + rule" where
  "newStringLengthRule argument =
     (case ParseInt argument of
        None \<Rightarrow> Inl (Wrap [Lit '': len argument '', Quoted argument, Lit '' is not a non-negative integer''] (Err ErrInvalidTag))
      | Some want \<Rightarrow>
          if want < 0
          then Inl (Wrap [Lit '': len argument '', Quoted argument, Lit '' is not a non-negative integer''] (Err ErrInvalidTag))
          else Inr (\<lambda>value.
            let actual = int (length (to_runes (ValueString value)))
            in if actual = want then None
               else Some (Wrap [Lit '': got '', Num actual, Lit '' characters, want '', Num want] (Err ErrLen))))"

definition regexp_pattern :: "string \<Rightarrow> string" where
  "regexp_pattern argument = [CHR 0x5C, CHR ''A'', CHR ''(''] @ argument @ [CHR '')'', CHR 0x5C, CHR ''z'']"

definition newStringRegexpRule :: "regexps \<Rightarrow> string \<Rightarrow> verr + rule" where
  "newStringRegexpRule compile argument =
     (case compile (regexp_pattern argument) of
        None \<Rightarrow> Inl (Wrap [Lit '': cannot compile regexp '', Quoted argument] (Err ErrInvalidTag))
      | Some expression \<Rightarrow> Inr (\<lambda>value.
          if expression (ValueString value) then None
          else Some (Wrap [Lit '': value does not match '', Quoted argument] (Err ErrRegexp))))"

definition newStringInRule :: "string \<Rightarrow> rule" where
  "newStringInRule argument =
     (let allowed = go_split (CHR '','') argument
      in (\<lambda>value. if ValueString value \<in> set allowed then None
           else Some (Wrap [Lit '': '', Quoted (ValueString value), Lit '' is not in '', Quoted argument] (Err ErrIn))))"

definition parseIntArgument :: "string \<Rightarrow> string \<Rightarrow> verr + int" where
  "parseIntArgument validator argument =
     (case ParseInt argument of
        None \<Rightarrow> Inl (Wrap [Lit '': '', Plain validator, Lit '' argument '', Quoted argument, Lit '' is not an integer'']
          (Err ErrInvalidTag))
      | Some n \<Rightarrow> Inr n)"

definition newIntMinRule :: "string \<Rightarrow> verr + rule" where
  "newIntMinRule argument =
     (case parseIntArgument ''min'' argument of
        Inl err \<Rightarrow> Inl err
      | Inr minimum \<Rightarrow> Inr (\<lambda>value. if ValueInt value \<ge> minimum then None
          else Some (Wrap [Lit '': got '', Num (ValueInt value), Lit '', minimum is '', Num minimum] (Err ErrMin))))"

definition newIntMaxRule :: "string \<Rightarrow> verr + rule" where
  "newIntMaxRule argument =
     (case parseIntArgument ''max'' argument of
        Inl err \<Rightarrow> Inl err
      | Inr maximum \<Rightarrow> Inr (\<lambda>value. if ValueInt value \<le> maximum then None
          else Some (Wrap [Lit '': got '', Num (ValueInt value), Lit '', maximum is '', Num maximum] (Err ErrMax))))"

fun parse_items :: "string list \<Rightarrow> verr + int list" where
  "parse_items [] = Inr []"
| "parse_items (item # items) =
     (case parseIntArgument ''in'' item of
        Inl err \<Rightarrow> Inl err
      | Inr number \<Rightarrow> (case parse_items items of Inl err \<Rightarrow> Inl err | Inr numbers \<Rightarrow> Inr (number # numbers)))"

definition newIntInRule :: "string \<Rightarrow> verr + rule" where
  "newIntInRule argument =
     (case parse_items (go_split (CHR '','') argument) of
        Inl err \<Rightarrow> Inl err
      | Inr allowed \<Rightarrow> Inr (\<lambda>value. if ValueInt value \<in> set allowed then None
          else Some (Wrap [Lit '': '', Num (ValueInt value), Lit '' is not in '', Quoted argument] (Err ErrIn))))"

definition cannot_be_used :: "string \<Rightarrow> kind \<Rightarrow> verr + rule" where
  "cannot_be_used name k =
     Inl (Wrap [Lit '': validator '', Quoted name, Lit '' cannot be used with '',
       Plain (case k of KInt \<Rightarrow> ''int'' | KString \<Rightarrow> ''string'' | KOther \<Rightarrow> ''invalid'')] (Err ErrInvalidTag))"

definition parseValidationRule :: "regexps \<Rightarrow> string \<Rightarrow> string \<Rightarrow> kind \<Rightarrow> verr + rule" where
  "parseValidationRule compile name argument k =
     (if name = ''len'' then (if k = KString then newStringLengthRule argument else cannot_be_used name k)
      else if name = ''regexp'' then (if k = KString then newStringRegexpRule compile argument else cannot_be_used name k)
      else if name = ''in'' then
        (if k = KString then Inr (newStringInRule argument)
         else if k = KInt then newIntInRule argument else cannot_be_used name k)
      else if name = ''min'' then (if k = KInt then newIntMinRule argument else cannot_be_used name k)
      else if name = ''max'' then (if k = KInt then newIntMaxRule argument else cannot_be_used name k)
      else Inl (Wrap [Lit '': '', Quoted name] (Err ErrUnsupportedValidator)))"

definition parse_raw_rule :: "regexps \<Rightarrow> kind \<Rightarrow> string \<Rightarrow> verr + rule" where
  "parse_raw_rule compile k rawRule =
     (case go_cut (CHR '':'') rawRule of (name, argument, found) \<Rightarrow>
        if \<not> found \<or> name = [] \<or> argument = []
        then Inl (Wrap [Lit '': malformed rule '', Quoted rawRule] (Err ErrInvalidTag))
        else parseValidationRule compile name argument k)"

fun parse_raw_rules :: "regexps \<Rightarrow> kind \<Rightarrow> string list \<Rightarrow> verr + rule list" where
  "parse_raw_rules compile k [] = Inr []"
| "parse_raw_rules compile k (rawRule # rawRules) =
     (case parse_raw_rule compile k rawRule of
        Inl err \<Rightarrow> Inl err
      | Inr rule \<Rightarrow>
          (case parse_raw_rules compile k rawRules of Inl err \<Rightarrow> Inl err | Inr rules \<Rightarrow> Inr (rule # rules)))"

definition parseValidationRules :: "regexps \<Rightarrow> string \<Rightarrow> kind \<Rightarrow> verr + rule list" where
  "parseValidationRules compile tag k = parse_raw_rules compile k (go_split (CHR ''|'') tag)"

subsection \<open>Fields and structs\<close>

definition validatedKind :: "string \<Rightarrow> gvalue \<Rightarrow> verr + kind" where
  "validatedKind ty field =
     (let k = (case field of VSlice e _ \<Rightarrow> e | _ \<Rightarrow> Kind field)
      in if k \<noteq> KInt \<and> k \<noteq> KString then Inl (Wrap [Lit '': '', Plain ty] (Err ErrUnsupportedType)) else Inr k)"

fun validateValue :: "string \<Rightarrow> gvalue \<Rightarrow> int \<Rightarrow> rule list \<Rightarrow> ValidationErrors" where
  "validateValue fieldName value index [] = []"
| "validateValue fieldName value index (rule # rules) =
     (case rule value of
        None \<Rightarrow> validateValue fieldName value index rules
      | Some err \<Rightarrow>
          (fieldName, if index \<ge> 0 then Wrap [Lit ''element '', Num index, Lit '': ''] err else err)
          # validateValue fieldName value index rules)"

fun validate_elements :: "string \<Rightarrow> gvalue list \<Rightarrow> int \<Rightarrow> rule list \<Rightarrow> ValidationErrors" where
  "validate_elements fieldName [] index rules = []"
| "validate_elements fieldName (v # vs) index rules =
     validateValue fieldName v index rules @ validate_elements fieldName vs (index + 1) rules"

definition validateField :: "string \<Rightarrow> gvalue \<Rightarrow> rule list \<Rightarrow> ValidationErrors" where
  "validateField fieldName field rules =
     (case field of VSlice _ vs \<Rightarrow> validate_elements fieldName vs 0 rules | _ \<Rightarrow> validateValue fieldName field (-1) rules)"

datatype validate_result = Valid | Failed verr | Invalid ValidationErrors

fun validate_fields ::
  "regexps \<Rightarrow> (struct_field \<times> gvalue) list \<Rightarrow> ValidationErrors \<Rightarrow> verr + ValidationErrors" where
  "validate_fields compile [] validationErrors = Inr validationErrors"
| "validate_fields compile ((structField, field) # rest) validationErrors =
     (if \<not> sf_Exported structField then validate_fields compile rest validationErrors
      else case sf_Validate structField of
             None \<Rightarrow> validate_fields compile rest validationErrors
           | Some tag \<Rightarrow>
               if tag = [] then validate_fields compile rest validationErrors
               else (case validatedKind (sf_Type structField) field of
                       Inl err \<Rightarrow> Inl (Wrap [Lit ''field '', Quoted (sf_Name structField), Lit '': ''] err)
                     | Inr k \<Rightarrow>
                         (case parseValidationRules compile tag k of
                            Inl err \<Rightarrow> Inl (Wrap [Lit ''field '', Quoted (sf_Name structField), Lit '': ''] err)
                          | Inr rules \<Rightarrow> validate_fields compile rest
                              (validationErrors @ validateField (sf_Name structField) field rules))))"

definition Validate :: "regexps \<Rightarrow> input \<Rightarrow> validate_result" where
  "Validate compile v =
     (case v of
        NoStruct \<Rightarrow> Failed (Err ErrNotStruct)
      | Struct rest \<Rightarrow>
          (case validate_fields compile rest [] of
             Inl err \<Rightarrow> Failed err
           | Inr validationErrors \<Rightarrow> if validationErrors = [] then Valid else Invalid validationErrors))"

subsection \<open>What a tag demands\<close>

text \<open>A rule of a tag that can be applied to values of a kind, what it demands of a value, and the error it reports.\<close>

definition rule_ok :: "regexps \<Rightarrow> kind \<Rightarrow> string \<Rightarrow> bool" where
  "rule_ok compile k raw \<longleftrightarrow>
     (case go_cut (CHR '':'') raw of (name, arg, found) \<Rightarrow>
        found \<and> name \<noteq> [] \<and> arg \<noteq> [] \<and>
        (case k of
           KString \<Rightarrow> (name = ''len'' \<and> (case ParseInt arg of None \<Rightarrow> False | Some n \<Rightarrow> 0 \<le> n))
             \<or> (name = ''regexp'' \<and> compile (regexp_pattern arg) \<noteq> None) \<or> name = ''in''
         | KInt \<Rightarrow> (name = ''in'' \<and> list_all (\<lambda>item. ParseInt item \<noteq> None) (go_split (CHR '','') arg))
             \<or> (name = ''min'' \<and> ParseInt arg \<noteq> None) \<or> (name = ''max'' \<and> ParseInt arg \<noteq> None)
         | KOther \<Rightarrow> False))"

fun satisfies :: "regexps \<Rightarrow> string \<Rightarrow> string \<Rightarrow> gvalue \<Rightarrow> bool" where
  "satisfies compile name arg (VString s) \<longleftrightarrow>
     (if name = ''len'' then ParseInt arg = Some (int (length (to_runes s)))
      else if name = ''regexp'' then (case compile (regexp_pattern arg) of None \<Rightarrow> False | Some m \<Rightarrow> m s)
      else s \<in> set (go_split (CHR '','') arg))"
| "satisfies compile name arg (VInt i) \<longleftrightarrow>
     (if name = ''in'' then Some i \<in> ParseInt ` set (go_split (CHR '','') arg)
      else case ParseInt arg of None \<Rightarrow> False | Some n \<Rightarrow> if name = ''min'' then n \<le> i else i \<le> n)"
| "satisfies compile name arg _ \<longleftrightarrow> False"

definition rule_error :: "string \<Rightarrow> val_error" where
  "rule_error name =
     (if name = ''len'' then ErrLen else if name = ''regexp'' then ErrRegexp else if name = ''in'' then ErrIn
      else if name = ''min'' then ErrMin else ErrMax)"

text \<open>The failures of a value, of a field and of a struct, in the order of the fields, elements and rules.\<close>

definition rule_failures :: "regexps \<Rightarrow> gvalue \<Rightarrow> string \<Rightarrow> val_error list" where
  "rule_failures compile v raw =
     (case go_cut (CHR '':'') raw of (name, arg, _) \<Rightarrow> if satisfies compile name arg v then [] else [rule_error name])"

fun elements :: "gvalue \<Rightarrow> gvalue list" where
  "elements (VSlice _ vs) = vs"
| "elements v = [v]"

fun element_kind :: "gvalue \<Rightarrow> kind" where
  "element_kind (VSlice k _) = k"
| "element_kind v = Kind v"

definition tag_of :: "struct_field \<Rightarrow> string list" where
  "tag_of f = (if sf_Exported f then (case sf_Validate f of None \<Rightarrow> [] | Some tag \<Rightarrow>
     if tag = [] then [] else go_split (CHR ''|'') tag) else [])"

definition field_ok :: "regexps \<Rightarrow> struct_field \<times> gvalue \<Rightarrow> bool" where
  "field_ok compile f \<longleftrightarrow> list_all (rule_ok compile (element_kind (snd f))) (tag_of (fst f))"

definition field_failures :: "regexps \<Rightarrow> struct_field \<times> gvalue \<Rightarrow> (string \<times> val_error) list" where
  "field_failures compile f =
     concat (map (\<lambda>v. concat (map (\<lambda>raw. map (Pair (sf_Name (fst f))) (rule_failures compile v raw)) (tag_of (fst f))))
       (elements (snd f)))"

definition failures :: "regexps \<Rightarrow> (struct_field \<times> gvalue) list \<Rightarrow> (string \<times> val_error) list" where
  "failures compile fs = concat (map (field_failures compile) fs)"

abbreviation "sentinel_of \<equiv> map (\<lambda>(f, e). (f, root_cause e)) :: ValidationErrors \<Rightarrow> (string \<times> val_error) list"

subsection \<open>Rules\<close>

lemma parse_items_ok:
  "(case parse_items items of
      Inl e \<Rightarrow> \<not> list_all (\<lambda>item. ParseInt item \<noteq> None) items \<and> root_cause e = ErrInvalidTag
    | Inr ns \<Rightarrow> list_all (\<lambda>item. ParseInt item \<noteq> None) items \<and> Some ` set ns = ParseInt ` set items)"
  by (induction items) (auto simp: parseIntArgument_def split: sum.splits option.splits)

lemma parse_raw_rule_error:
  assumes "parse_raw_rule compile k raw = Inl e"
  shows "\<not> rule_ok compile k raw \<and> root_cause e \<in> {ErrInvalidTag, ErrUnsupportedValidator}"
proof -
  obtain name arg found where c: "go_cut (CHR '':'') raw = (name, arg, found)" by (metis prod_cases3)
  show ?thesis
    using assms parse_items_ok [of "go_split (CHR '','') arg"]
    by (cases k) (auto simp: c rule_ok_def parse_raw_rule_def parseValidationRule_def cannot_be_used_def
        newStringLengthRule_def newStringRegexpRule_def newIntInRule_def newIntMinRule_def newIntMaxRule_def
        parseIntArgument_def split: if_splits option.splits sum.splits)
qed

lemma parse_raw_rule_value:
  assumes "parse_raw_rule compile k raw = Inr rule"
  shows "rule_ok compile k raw"
    and "Kind v = k \<Longrightarrow> (case rule v of None \<Rightarrow> [] | Some e \<Rightarrow> [root_cause e]) = rule_failures compile v raw"
proof -
  obtain name arg found where c: "go_cut (CHR '':'') raw = (name, arg, found)" by (metis prod_cases3)
  have item: "Some i \<in> ParseInt ` set (go_split (CHR '','') arg) \<longleftrightarrow> i \<in> set ns"
    if "parse_items (go_split (CHR '','') arg) = Inr ns" for i ns
  proof -
    have "Some ` set ns = ParseInt ` set (go_split (CHR '','') arg)"
      using parse_items_ok [of "go_split (CHR '','') arg"] that by simp
    then show ?thesis by (metis image_iff option.inject)
  qed
  show "rule_ok compile k raw"
    using assms parse_items_ok [of "go_split (CHR '','') arg"]
    by (cases k) (auto simp: c rule_ok_def parse_raw_rule_def parseValidationRule_def cannot_be_used_def
        newStringLengthRule_def newStringRegexpRule_def newIntInRule_def newIntMinRule_def newIntMaxRule_def
        parseIntArgument_def split: if_splits option.splits sum.splits)
  show "(case rule v of None \<Rightarrow> [] | Some e \<Rightarrow> [root_cause e]) = rule_failures compile v raw" if "Kind v = k"
    using assms that
    by (cases v) (auto simp: c rule_failures_def parse_raw_rule_def parseValidationRule_def cannot_be_used_def
        newStringLengthRule_def newStringRegexpRule_def newStringInRule_def newIntInRule_def newIntMinRule_def
        newIntMaxRule_def parseIntArgument_def rule_error_def Let_def item split: if_splits option.splits sum.splits)
qed

lemma parse_raw_rules_error:
  "parse_raw_rules compile k raws = Inl e \<Longrightarrow>
    \<not> list_all (rule_ok compile k) raws \<and> root_cause e \<in> {ErrInvalidTag, ErrUnsupportedValidator}"
  by (induction raws) (auto dest: parse_raw_rule_error split: sum.splits)

lemma parse_raw_rules_ok: "parse_raw_rules compile k raws = Inr rules \<Longrightarrow> list_all (rule_ok compile k) raws"
  by (induction raws arbitrary: rules) (auto dest: parse_raw_rule_value(1) split: sum.splits)

lemma validateValue_failures:
  assumes "Kind v = k"
  shows "parse_raw_rules compile k raws = Inr rules \<Longrightarrow>
    sentinel_of (validateValue n v i rules) = concat (map (\<lambda>raw. map (Pair n) (rule_failures compile v raw)) raws)"
proof (induction raws arbitrary: rules)
  case (Cons raw raws)
  obtain r rs where r: "parse_raw_rule compile k raw = Inr r" "parse_raw_rules compile k raws = Inr rs" "rules = r # rs"
    using Cons.prems by (auto split: sum.splits)
  have "rule_failures compile v raw = (case r v of None \<Rightarrow> [] | Some e \<Rightarrow> [root_cause e])"
    by (rule parse_raw_rule_value(2) [OF r(1) assms, symmetric])
  then show ?case using Cons.IH [OF r(2)] by (cases "r v") (auto simp: r(3))
qed simp

lemma validate_elements_failures:
  assumes "parse_raw_rules compile k raws = Inr rules"
  shows "list_all (\<lambda>v. Kind v = k) vs \<Longrightarrow> sentinel_of (validate_elements n vs i rules) =
    concat (map (\<lambda>v. concat (map (\<lambda>raw. map (Pair n) (rule_failures compile v raw)) raws)) vs)"
proof (induction vs arbitrary: i)
  case (Cons v vs)
  then show ?case using validateValue_failures [OF _ assms, of v n i] by simp
qed simp

lemma validateField_failures:
  assumes "parse_raw_rules compile (element_kind v) raws = Inr rules" "well_typed v"
  shows "sentinel_of (validateField n v rules) =
    concat (map (\<lambda>v. concat (map (\<lambda>raw. map (Pair n) (rule_failures compile v raw)) raws)) (elements v))"
  using assms validateValue_failures [of v "element_kind v" compile raws rules n "-1"]
  by (cases v) (simp_all add: validateField_def validate_elements_failures)

lemma element_kind_cases: "validatedKind ty v =
  (if element_kind v = KOther then Inl (Wrap [Lit '': '', Plain ty] (Err ErrUnsupportedType)) else Inr (element_kind v))"
  by (cases v; cases "element_kind v") (auto simp: Let_def validatedKind_def)

lemma not_rule_ok_other [simp]: "\<not> rule_ok compile KOther raw"
  by (simp add: rule_ok_def split: prod.splits)

lemma not_all_rules_other: "\<not> list_all (rule_ok compile KOther) (go_split c s)"
  using go_split_nonempty [of c s] by (cases "go_split c s") simp_all

text \<open>One field: skipped, refused, or its failures appended.\<close>

lemma field_step:
  assumes "well_typed v"
  shows "(\<exists>es. (\<forall>acc rest. validate_fields compile ((f, v) # rest) acc = validate_fields compile rest (acc @ es)) \<and>
      field_ok compile (f, v) \<and> sentinel_of es = field_failures compile (f, v)) \<or>
    (\<exists>e. (\<forall>acc rest. validate_fields compile ((f, v) # rest) acc = Inl e) \<and> \<not> field_ok compile (f, v) \<and>
      root_cause e \<in> {ErrInvalidTag, ErrUnsupportedType, ErrUnsupportedValidator})"
proof (cases "tag_of f = []")
  case True
  then have "\<not> sf_Exported f \<or> sf_Validate f = None \<or> sf_Validate f = Some []"
    by (auto simp: tag_of_def split: option.splits if_splits)
  then have "validate_fields compile ((f, v) # rest) acc = validate_fields compile rest (acc @ [])" for rest acc by auto
  moreover have "field_ok compile (f, v)" "sentinel_of [] = field_failures compile (f, v)"
    by (simp_all add: field_ok_def field_failures_def True)
  ultimately show ?thesis by blast
next
  case False
  then obtain tag where f: "sf_Exported f" "sf_Validate f = Some tag" "tag \<noteq> []" "tag_of f = go_split (CHR ''|'') tag"
    by (auto simp: tag_of_def split: option.splits if_splits)
  show ?thesis
  proof (cases "element_kind v = KOther")
    case True
    then show ?thesis using f not_all_rules_other by (simp add: element_kind_cases field_ok_def)
  next
    case False
    show ?thesis
    proof (cases "parseValidationRules compile tag (element_kind v)")
      case (Inl e)
      then show ?thesis
        using f False parse_raw_rules_error [of compile "element_kind v" "tag_of f" e]
        by (auto simp: element_kind_cases field_ok_def parseValidationRules_def)
    next
      case (Inr rules)
      then have p: "parse_raw_rules compile (element_kind v) (tag_of f) = Inr rules" by (simp add: f parseValidationRules_def)
      have "validate_fields compile ((f, v) # rest) acc = validate_fields compile rest (acc @ validateField (sf_Name f) v rules)"
        for rest acc using f False Inr by (simp add: element_kind_cases)
      moreover have "field_ok compile (f, v)" using parse_raw_rules_ok [OF p] by (simp add: field_ok_def)
      moreover have "sentinel_of (validateField (sf_Name f) v rules) = field_failures compile (f, v)"
        using validateField_failures [OF p assms] by (simp add: field_failures_def)
      ultimately show ?thesis by blast
    qed
  qed
qed

lemma validate_fields_exact:
  assumes "list_all (\<lambda>f. well_typed (snd f)) fs"
  shows "case validate_fields compile fs acc of
      Inl e \<Rightarrow> \<not> list_all (field_ok compile) fs \<and> root_cause e \<in> {ErrInvalidTag, ErrUnsupportedType, ErrUnsupportedValidator}
    | Inr es \<Rightarrow> list_all (field_ok compile) fs \<and> sentinel_of es = sentinel_of acc @ failures compile fs"
  using assms
proof (induction fs arbitrary: acc)
  case Nil
  then show ?case by (simp add: failures_def)
next
  case (Cons f fs)
  obtain sf v where f: "f = (sf, v)" by fastforce
  have wt: "well_typed v" "list_all (\<lambda>f. well_typed (snd f)) fs" using Cons.prems by (simp_all add: f)
  from field_step [OF wt(1), of compile sf] show ?case
  proof (elim disjE exE conjE)
    fix es
    assume es: "\<forall>acc rest. validate_fields compile ((sf, v) # rest) acc = validate_fields compile rest (acc @ es)"
      "field_ok compile (sf, v)" "sentinel_of es = field_failures compile (sf, v)"
    then show ?thesis using Cons.IH [OF wt(2), of "acc @ es"]
      by (auto simp: f failures_def split: sum.splits simp del: validate_fields.simps)
  next
    fix e
    assume "\<forall>acc rest. validate_fields compile ((sf, v) # rest) acc = Inl e" "\<not> field_ok compile (sf, v)"
      "root_cause e \<in> {ErrInvalidTag, ErrUnsupportedType, ErrUnsupportedValidator}"
    then show ?thesis by (simp add: f del: validate_fields.simps)
  qed
qed

subsection \<open>Properties\<close>

text \<open>
  C29: \<open>Validate\<close> reports exactly the failures of a struct. When every tagged field has a supported type and well-formed
  rules, it returns no error if every value satisfies every rule, and otherwise one error per failed rule, in the order of
  the fields, their elements and their rules, each with the sentinel of its rule; otherwise it returns the error of a field
  that cannot be validated, whatever the earlier fields hold.
\<close>

theorem validate_reports_exactly:
  assumes "list_all (\<lambda>f. well_typed (snd f)) fs"
  shows "case Validate compile (Struct fs) of
      Failed e \<Rightarrow> \<not> list_all (field_ok compile) fs \<and>
        root_cause e \<in> {ErrInvalidTag, ErrUnsupportedType, ErrUnsupportedValidator}
    | Valid \<Rightarrow> list_all (field_ok compile) fs \<and> failures compile fs = []
    | Invalid es \<Rightarrow> list_all (field_ok compile) fs \<and> failures compile fs \<noteq> [] \<and> sentinel_of es = failures compile fs"
  using validate_fields_exact [OF assms, of compile "[]"]
  by (auto simp: Validate_def split: sum.splits)

definition sample_struct :: "(struct_field \<times> gvalue) list" where
  "sample_struct = [
     (\<lparr>sf_Name = ''Age'', sf_Type = ''int'', sf_Exported = True, sf_Validate = Some ''min:18|max:50''\<rparr>, VInt 17),
     (\<lparr>sf_Name = ''Phones'', sf_Type = ''[]string'', sf_Exported = True, sf_Validate = Some ''len:2''\<rparr>,
      VSlice KString [VString ''ab'', VString ''abc'']),
     (\<lparr>sf_Name = ''meta'', sf_Type = ''bool'', sf_Exported = False, sf_Validate = Some ''bad''\<rparr>, VOther)]"

theorem validate_reports_exactly_witness:
  "\<exists>es. Validate (\<lambda>_. None) (Struct sample_struct) = Invalid es \<and> sentinel_of es = [(''Age'', ErrMin), (''Phones'', ErrLen)]"
proof -
  have wt: "list_all (\<lambda>f. well_typed (snd f)) sample_struct" by code_simp
  have f: "failures (\<lambda>_. None) sample_struct = [(''Age'', ErrMin), (''Phones'', ErrLen)]" by code_simp
  have ok: "list_all (field_ok (\<lambda>_. None)) sample_struct" by code_simp
  show ?thesis
    using validate_reports_exactly [OF wt, of "\<lambda>_. None"] ok
    by (cases "Validate (\<lambda>_. None) (Struct sample_struct)") (simp_all add: f)
qed

end
