(* ===== verification/File_Copy.thy ===== *)
theory File_Copy
  imports Go_Prelude
begin

text \<open>
  The file copier of \<open>hw07_file_copying\<close>. A file system maps paths to inodes and inodes to nodes, so that two paths may name
  the same file; the operations of \<open>os\<close> that the program uses are functions on it. Failures of the operating system that
  the file system does not explain (permissions, a full disk, an I/O error) come from the record \<open>faults\<close>. Arguments:
  \<open>reads\<close>, how many bytes each read returns (any number from one on), and \<open>percent\<close>, the floating point percentage.
\<close>

subsection \<open>The file system\<close>

datatype node = Regular string | Directory | Device

type_synonym inode = nat

record fs =
  names :: "(string, inode) gomap"
  nodes :: "inode \<Rightarrow> node"
  next_inode :: inode

record faults =
  open_source :: bool
  stat_source :: bool
  seek_source :: bool
  open_destination :: bool
  stat_destination :: bool
  truncate_destination :: bool
  read_after :: "nat option"
  write_after :: "nat option"
  close_destination :: bool

datatype copy_error =
    NegativeOffset | NegativeLimit
  | OpenSource | StatSource | ErrUnsupportedFile | ErrOffsetExceedsFileSize | SeekSource
  | OpenDestination | StatDestination | SameFile | TruncateDestination
  | CopyContents | CloseDestination

definition content :: "fs \<Rightarrow> inode \<Rightarrow> string" where
  "content s i = (case nodes s i of Regular c \<Rightarrow> c | _ \<Rightarrow> [])"

definition set_content :: "inode \<Rightarrow> string \<Rightarrow> fs \<Rightarrow> fs" where
  "set_content i c s = s\<lparr>nodes := (nodes s)(i := Regular c)\<rparr>"

text \<open>\<open>os.OpenFile(toPath, os.O_CREATE|os.O_WRONLY, 0o666)\<close>: the inode, created when the path is new.\<close>

definition open_create :: "string \<Rightarrow> fs \<Rightarrow> (inode \<times> fs) option" where
  "open_create path s =
     (case map_of (names s) path of
        Some i \<Rightarrow> if nodes s i = Directory then None else Some (i, s)
      | None \<Rightarrow> Some (next_inode s, s\<lparr>names := AList.update path (next_inode s) (names s),
          nodes := (nodes s)(next_inode s := Regular []), next_inode := next_inode s + 1\<rparr>))"

subsection \<open>\<open>progressWriter\<close>\<close>

record progressWriter =
  pw_total :: int
  pw_written :: int
  pw_lastPercent :: int
  pw_output :: "int list"

definition report :: "int \<Rightarrow> progressWriter \<Rightarrow> progressWriter" where
  "report percentage w =
     (if percentage = pw_lastPercent w then w
      else w\<lparr>pw_output := pw_output w @ [percentage], pw_lastPercent := percentage\<rparr>)"

text \<open>Writing to the end of the destination; a failing write leaves a prefix of the data.\<close>

definition file_write :: "faults \<Rightarrow> inode \<Rightarrow> string \<Rightarrow> fs \<Rightarrow> nat \<times> bool \<times> fs" where
  "file_write f i data s =
     (case write_after f of
        None \<Rightarrow> (length data, True, set_content i (content s i @ data) s)
      | Some k \<Rightarrow>
          (let n = min (length data) (k - length (content s i))
           in (n, n = length data, set_content i (content s i @ take n data) s)))"

definition pw_Write ::
  "(int \<Rightarrow> int \<Rightarrow> int) \<Rightarrow> faults \<Rightarrow> inode \<Rightarrow> string \<Rightarrow> progressWriter \<times> fs \<Rightarrow> bool \<times> progressWriter \<times> fs" where
  "pw_Write percent f i data ws =
     (case ws of (w, s) \<Rightarrow>
      case file_write f i data s of (written, ok, s') \<Rightarrow>
        (let w' = w\<lparr>pw_written := pw_written w + int written\<rparr>
         in (ok, if ok then report (if pw_total w' > 0 then percent (pw_written w') (pw_total w') else 100) w' else w', s')))"

subsection \<open>\<open>io.CopyN\<close>\<close>

text \<open>
  The loop of \<open>io.Copy\<close> over the limited reader: \<open>pos\<close> is the position in the source, \<open>n\<close> what is left of the limit, \<open>k\<close> the number
  of the read. A read returns at least one byte and at most the buffer, the limit and the rest of the file; no byte at all is the
  end of the file, which is an error while something is left of the limit.
\<close>

definition read_size :: "(nat \<Rightarrow> nat) \<Rightarrow> nat \<Rightarrow> nat \<Rightarrow> nat" where
  "read_size reads k n = min n (min 32768 (max 1 (reads k)))"

function copy_loop ::
  "(nat \<Rightarrow> nat) \<Rightarrow> (int \<Rightarrow> int \<Rightarrow> int) \<Rightarrow> faults \<Rightarrow> inode \<Rightarrow> inode \<Rightarrow> nat \<Rightarrow> nat \<Rightarrow> nat \<Rightarrow> progressWriter \<times> fs
     \<Rightarrow> bool \<times> progressWriter \<times> fs" where
  "copy_loop reads percent f src dst pos n k ws =
     (if n = 0 then (True, ws)
      else if read_after f \<noteq> None \<and> the (read_after f) \<le> pos then (False, ws)
      else let data = take (read_size reads k n) (drop pos (content (snd ws) src))
           in if data = [] then (False, ws)
              else case pw_Write percent f dst data ws of (ok, ws') \<Rightarrow>
                     if \<not> ok then (False, ws')
                     else copy_loop reads percent f src dst (pos + length data) (n - length data) (k + 1) ws')"
  by pat_completeness auto
termination by (relation "measure (\<lambda>(_, _, _, _, _, _, n, _, _). n)") (auto simp: read_size_def neq_Nil_conv)

declare copy_loop.simps [simp del]

subsection \<open>\<open>copyFile\<close>\<close>

text \<open>The result, the file system and the percentages that were printed.\<close>

definition bytes_to_copy :: "int \<Rightarrow> int \<Rightarrow> int \<Rightarrow> int" where
  "bytes_to_copy fileSize offset limit =
     (let rest = fileSize - offset in if limit > 0 \<and> limit < rest then limit else rest)"

definition copy_into ::
  "(nat \<Rightarrow> nat) \<Rightarrow> (int \<Rightarrow> int \<Rightarrow> int) \<Rightarrow> faults \<Rightarrow> inode \<Rightarrow> inode \<Rightarrow> int \<Rightarrow> int \<Rightarrow> fs
     \<Rightarrow> copy_error option \<times> fs \<times> int list" where
  "copy_into reads percent f src dst offset bytesToCopy s =
     (let progress = report 0 \<lparr>pw_total = bytesToCopy, pw_written = 0, pw_lastPercent = -1, pw_output = []\<rparr>
      in case copy_loop reads percent f src dst (nat offset) (nat bytesToCopy) 0 (progress, s) of
           (ok, w, s') \<Rightarrow>
             if \<not> ok then (Some CopyContents, s', pw_output w)
             else (if close_destination f then Some CloseDestination else None, s', pw_output (report 100 w)))"

definition copyFile ::
  "(nat \<Rightarrow> nat) \<Rightarrow> (int \<Rightarrow> int \<Rightarrow> int) \<Rightarrow> faults \<Rightarrow> string \<Rightarrow> string \<Rightarrow> int \<Rightarrow> int \<Rightarrow> fs
     \<Rightarrow> copy_error option \<times> fs \<times> int list" where
  "copyFile reads percent f fromPath toPath offset limit s =
     (if offset < 0 then (Some NegativeOffset, s, [])
      else if limit < 0 then (Some NegativeLimit, s, [])
      else case map_of (names s) fromPath of
        None \<Rightarrow> (Some OpenSource, s, [])
      | Some src \<Rightarrow>
          if open_source f then (Some OpenSource, s, [])
          else if stat_source f then (Some StatSource, s, [])
          else case nodes s src of
            Regular c \<Rightarrow>
              (let fileSize = int (length c)
               in if offset > fileSize then (Some ErrOffsetExceedsFileSize, s, [])
                  else if seek_source f then (Some SeekSource, s, [])
                  else if open_destination f then (Some OpenDestination, s, [])
                  else case open_create toPath s of
                    None \<Rightarrow> (Some OpenDestination, s, [])
                  | Some (dst, s1) \<Rightarrow>
                      if stat_destination f then (Some StatDestination, s1, [])
                      else if src = dst then (Some SameFile, s1, [])
                      else if truncate_destination f \<or> nodes s1 dst = Device then (Some TruncateDestination, s1, [])
                      else copy_into reads percent f src dst offset (bytes_to_copy fileSize offset limit)
                             (set_content dst [] s1))
          | _ \<Rightarrow> (Some ErrUnsupportedFile, s, []))"

subsection \<open>\<open>main.go\<close>\<close>

text \<open>\<open>run\<close> after the flags are parsed; \<open>None\<close> is an error of \<open>flag.Parse\<close>.\<close>

definition copy_run ::
  "(nat \<Rightarrow> nat) \<Rightarrow> (int \<Rightarrow> int \<Rightarrow> int) \<Rightarrow> faults \<Rightarrow> (string \<times> string \<times> int \<times> int) option \<Rightarrow> fs \<Rightarrow> int \<times> fs" where
  "copy_run reads percent f flags s =
     (case flags of
        None \<Rightarrow> (2, s)
      | Some (fromPath, toPath, offset, limit) \<Rightarrow>
          if fromPath = [] then (2, s)
          else if toPath = [] then (2, s)
          else (case copyFile reads percent f fromPath toPath offset limit s of
                  (Some err, s', _) \<Rightarrow> (1, s')
                | (None, s', _) \<Rightarrow> (0, s')))"

subsection \<open>The loop\<close>

lemma content_set [simp]: "content (set_content i c s) j = (if j = i then c else content s j)"
  by (simp add: content_def set_content_def)

lemma nodes_set [simp]: "nodes (set_content i c s) j = (if j = i then Regular c else nodes s j)"
  "names (set_content i c s) = names s"
  by (simp_all add: set_content_def)

text \<open>What a file system looks like after a prefix of some data was appended to one file.\<close>

definition appended :: "inode \<Rightarrow> string \<Rightarrow> fs \<Rightarrow> fs \<Rightarrow> bool" where
  "appended i d s s' \<longleftrightarrow> content s' i = content s i @ d \<and>
     (nodes s i = Regular (content s i) \<longrightarrow> nodes s' i = Regular (content s' i)) \<and> (\<forall>j. j \<noteq> i \<longrightarrow> nodes s' j = nodes s j) \<and> names s' = names s"

lemma appended_other: "appended i d s s' \<Longrightarrow> j \<noteq> i \<Longrightarrow> content s' j = content s j"
  by (simp add: appended_def content_def)

lemma appended_refl: "appended i [] s s"
  by (simp add: appended_def)

lemma appended_trans: "appended i d s s1 \<Longrightarrow> appended i e s1 s2 \<Longrightarrow> appended i (d @ e) s s2"
  by (simp add: appended_def)

lemma pw_Write_appends:
  assumes "pw_Write percent f i data (w, s) = (ok, w', s')"
  shows "\<exists>m. appended i (take m data) s s' \<and> (ok \<longrightarrow> take m data = data) \<and> (write_after f = None \<longrightarrow> ok)"
  using assms
  by (auto simp: pw_Write_def file_write_def appended_def Let_def split: option.splits if_splits prod.splits
      intro: exI [of _ "length data"])

lemma take_drop_split: "take a (drop p c) @ take (n - a) (drop (p + a) c) = take n (drop p c)" if "a \<le> n"
  using that by (metis add.commute drop_drop le_add_diff_inverse take_add)

lemma copy_loop_appends:
  assumes "src \<noteq> dst" "copy_loop reads percent f src dst pos n k (w, s) = (ok, w', s')"
  shows "\<exists>m. m \<le> n \<and> appended dst (take m (drop pos (content s src))) s s' \<and>
    (ok \<longrightarrow> appended dst (take n (drop pos (content s src))) s s')"
  using assms(2)
proof (induction n arbitrary: pos k w s ok w' s' rule: less_induct)
  case (less n)
  let ?data = "take (read_size reads k n) (drop pos (content s src))"
  show ?case
  proof (cases "n = 0 \<or> (read_after f \<noteq> None \<and> the (read_after f) \<le> pos) \<or> ?data = []")
    case True
    then have "s' = s" "ok \<longrightarrow> n = 0"
      using less.prems by (subst (asm) copy_loop.simps, auto simp: Let_def split: if_splits)+
    then show ?thesis using appended_refl by (intro exI [of _ 0]) auto
  next
    case False
    obtain ok1 w1 s1 where wr: "pw_Write percent f dst ?data (w, s) = (ok1, w1, s1)" by (metis prod_cases3)
    obtain m where m: "appended dst (take m ?data) s s1" "ok1 \<longrightarrow> take m ?data = ?data"
      using pw_Write_appends [OF wr] by blast
    have len: "length ?data \<le> n" "0 < length ?data" using False by (auto simp: read_size_def)
    show ?thesis
    proof (cases ok1)
      case False
      with \<open>\<not> (n = 0 \<or> _)\<close> less.prems wr have "s' = s1" "\<not> ok"
        by (subst (asm) copy_loop.simps, auto simp: Let_def split: if_splits)+
      moreover have "take m ?data = take (min m (length ?data)) (drop pos (content s src))"
        by (simp add: min_def read_size_def)
      ultimately show ?thesis using m(1) len(1) by (intro exI [of _ "min m (length ?data)"]) auto
    next
      case True
      have rest: "copy_loop reads percent f src dst (pos + length ?data) (n - length ?data) (k + 1) (w1, s1) = (ok, w', s')"
        using \<open>\<not> (n = 0 \<or> _)\<close> less.prems wr True by (subst (asm) copy_loop.simps) (auto simp: Let_def)
      have one: "appended dst ?data s s1" using m True by simp
      have src: "content s1 src = content s src" using appended_other [OF one assms(1)] .
      obtain j where j: "j \<le> n - length ?data" "appended dst (take j (drop (pos + length ?data) (content s src))) s1 s'"
        "ok \<longrightarrow> appended dst (take (n - length ?data) (drop (pos + length ?data) (content s src))) s1 s'"
        using less.IH [OF _ rest] len False src by auto
      have data: "?data = take (length ?data) (drop pos (content s src))" by (simp add: min_def)
      have glue: "?data @ take (i - length ?data) (drop (pos + length ?data) (content s src)) = take i (drop pos (content s src))"
        if "length ?data \<le> i" for i using take_drop_split [OF that] data by metis
      have "appended dst (take (length ?data + j) (drop pos (content s src))) s s'"
        using appended_trans [OF one j(2)] glue [of "length ?data + j"] by simp
      moreover have "ok \<longrightarrow> appended dst (take n (drop pos (content s src))) s s'"
        using appended_trans [OF one] j(3) glue [OF len(1)] by metis
      ultimately show ?thesis using j(1) len(1) by (intro exI [of _ "length ?data + j"]) auto
    qed
  qed
qed

lemma copy_loop_succeeds:
  assumes "src \<noteq> dst" "read_after f = None" "write_after f = None"
  shows "pos + n \<le> length (content s src) \<Longrightarrow> fst (copy_loop reads percent f src dst pos n k (w, s))"
proof (induction n arbitrary: pos k w s rule: less_induct)
  case (less n)
  let ?data = "take (read_size reads k n) (drop pos (content s src))"
  show ?case
  proof (cases "n = 0")
    case False
    then have data: "?data \<noteq> []" "length ?data \<le> n" using less.prems by (auto simp: read_size_def)
    obtain ok1 w1 s1 where wr: "pw_Write percent f dst ?data (w, s) = (ok1, w1, s1)" by (metis prod_cases3)
    obtain m where m: "appended dst (take m ?data) s s1" "ok1" using pw_Write_appends [OF wr] assms(3) by blast
    have "content s1 src = content s src" by (rule appended_other [OF m(1) assms(1)])
    then have "fst (copy_loop reads percent f src dst (pos + length ?data) (n - length ?data) (k + 1) (w1, s1))"
      using less.IH [of "n - length ?data" "pos + length ?data" s1 "k + 1" w1] data less.prems False by auto
    then show ?thesis using False data wr m(2) assms(2) by (subst copy_loop.simps) (simp add: Let_def)
  qed (simp add: copy_loop.simps)
qed

text \<open>The progress line: it starts at 0, and no percentage is printed twice in a row.\<close>

definition progress_ok :: "progressWriter \<Rightarrow> bool" where
  "progress_ok w \<longleftrightarrow> pw_output w \<noteq> [] \<and> hd (pw_output w) = 0 \<and> last (pw_output w) = pw_lastPercent w \<and> distinct_adj (pw_output w)"

lemma progress_ok_report: "progress_ok w \<Longrightarrow> progress_ok (report p w)"
  by (auto simp: progress_ok_def report_def distinct_adj_append_iff)

lemma last_report: "progress_ok w \<Longrightarrow> last (pw_output (report p w)) = p"
  by (simp add: progress_ok_def report_def)

lemma progress_ok_Write: "progress_ok w \<Longrightarrow> pw_Write percent f i data (w, s) = (ok, w', s') \<Longrightarrow> progress_ok w'"
proof -
  assume w: "progress_ok w" "pw_Write percent f i data (w, s) = (ok, w', s')"
  have "progress_ok (w\<lparr>pw_written := n\<rparr>)" for n using w(1) by (simp add: progress_ok_def)
  then show ?thesis using w(2) by (auto simp: pw_Write_def Let_def progress_ok_report split: prod.splits)
qed

lemma progress_ok_loop:
  "progress_ok w \<Longrightarrow> copy_loop reads percent f src dst pos n k (w, s) = (ok, w', s') \<Longrightarrow> progress_ok w'"
proof (induction n arbitrary: pos k w s rule: less_induct)
  case (less n)
  let ?data = "take (read_size reads k n) (drop pos (content s src))"
  obtain ok1 w1 s1 where wr: "pw_Write percent f dst ?data (w, s) = (ok1, w1, s1)" by (metis prod_cases3)
  have w1: "progress_ok w1" by (rule progress_ok_Write [OF less.prems(1) wr])
  show ?case
  proof (cases "w' = w \<or> w' = w1")
    case True
    then show ?thesis using w1 less.prems(1) by auto
  next
    case False
    then have "n \<noteq> 0" "?data \<noteq> []"
      "copy_loop reads percent f src dst (pos + length ?data) (n - length ?data) (k + 1) (w1, s1) = (ok, w', s')"
      using less.prems(2) wr by (subst (asm) copy_loop.simps, auto simp: Let_def split: if_splits)+
    then have "n - length ?data < n" by (cases ?data) auto
    from less.IH [OF this w1] show ?thesis using \<open>copy_loop _ _ _ _ _ _ _ _ (w1, s1) = _\<close> by blast
  qed
qed

subsection \<open>Properties\<close>

lemma open_create_frame:
  assumes "open_create path s = Some (i, s1)"
  shows "map_of (names s1) path = Some i" "\<And>p. p \<noteq> path \<Longrightarrow> map_of (names s1) p = map_of (names s) p"
    "\<And>j. j \<noteq> next_inode s \<Longrightarrow> nodes s1 j = nodes s j" "\<And>j. j \<noteq> i \<Longrightarrow> nodes s1 j = nodes s j"
  using assms by (auto simp: open_create_def update_conv split: option.splits if_splits)

definition no_faults :: "faults \<Rightarrow> bool" where
  "no_faults f \<longleftrightarrow> \<not> open_source f \<and> \<not> stat_source f \<and> \<not> seek_source f \<and> \<not> open_destination f \<and> \<not> stat_destination f \<and>
     \<not> truncate_destination f \<and> read_after f = None \<and> write_after f = None \<and> \<not> close_destination f"

text \<open>
  C30: when the operating system does not fail, a copy of a regular file to another file succeeds, however the reads are
  split: the destination holds exactly the requested range, cut at the end of the source, no other file and no other name
  changes, and the progress runs from 0 to 100 without repeating a line.
\<close>

theorem copy_exact:
  assumes "no_faults f" "0 \<le> offset" "0 \<le> limit"
    and src: "map_of (names s) fromPath = Some src" "nodes s src = Regular c" "offset \<le> int (length c)"
    and dst: "open_create toPath s = Some (dst, s1)" "dst \<noteq> src" "nodes s1 dst \<noteq> Device"
  shows "\<exists>s' out. copyFile reads percent f fromPath toPath offset limit s = (None, s', out) \<and>
    map_of (names s') toPath = Some dst \<and>
    nodes s' dst = Regular (take (if 0 < limit then nat limit else length c) (drop (nat offset) c)) \<and>
    (\<forall>i. i \<noteq> dst \<longrightarrow> nodes s' i = nodes s i) \<and> (\<forall>p. p \<noteq> toPath \<longrightarrow> map_of (names s') p = map_of (names s) p) \<and>
    hd out = 0 \<and> last out = 100 \<and> distinct_adj out"
proof -
  let ?n = "bytes_to_copy (int (length c)) offset limit"
  let ?s2 = "set_content dst [] s1"
  let ?w = "report 0 \<lparr>pw_total = ?n, pw_written = 0, pw_lastPercent = -1, pw_output = []\<rparr>"
  obtain ok w' s' where loop: "copy_loop reads percent f src dst (nat offset) (nat ?n) 0 (?w, ?s2) = (ok, w', s')"
    by (metis prod_cases3)
  note frame = open_create_frame [OF dst(1)]
  have cs: "content ?s2 src = c" using frame(4) dst(2) src(2) by (simp add: content_def)
  have fit: "nat offset + nat ?n \<le> length c" using assms(2,3) src(3) by (auto simp: bytes_to_copy_def Let_def)
  have ok: "ok" using copy_loop_succeeds [of src dst f "nat offset" "nat ?n" ?s2 reads percent 0 ?w] loop cs fit dst(2) assms(1)
    by (simp add: no_faults_def)
  then have app: "appended dst (take (nat ?n) (drop (nat offset) c)) ?s2 s'"
    using copy_loop_appends [OF dst(2) [symmetric] loop] cs by auto
  have reg: "nodes s' dst = Regular (content s' dst)"
    using app by (simp add: appended_def)
  have range: "take (nat ?n) (drop (nat offset) c) = take (if 0 < limit then nat limit else length c) (drop (nat offset) c)"
    using assms(2,3) src(3) by (auto simp: bytes_to_copy_def Let_def)
  have w: "progress_ok w'" by (rule progress_ok_loop [OF _ loop]) (simp add: progress_ok_def report_def)
  have "copyFile reads percent f fromPath toPath offset limit s = (None, s', pw_output (report 100 w'))"
    using assms ok loop by (simp add: copyFile_def copy_into_def no_faults_def Let_def)
  moreover have "nodes s' dst = Regular (take (if 0 < limit then nat limit else length c) (drop (nat offset) c))"
    using app reg range by (simp add: appended_def)
  moreover have "\<forall>i. i \<noteq> dst \<longrightarrow> nodes s' i = nodes s i" using app frame(4) by (simp add: appended_def)
  moreover have "names s' = names s1" using app by (simp add: appended_def)
  ultimately show ?thesis
    using frame(1,2) last_report [OF w] progress_ok_report [OF w] by (auto simp: progress_ok_def)
qed

text \<open>A disk with a file under two names, and another file.\<close>

definition sample_fs :: fs where
  "sample_fs = \<lparr>names = [(''a'', 0), (''link'', 0), (''b'', 1)],
     nodes = (\<lambda>i. if i = 0 then Regular ''hello'' else if i = 1 then Regular ''old text'' else Device), next_inode = 2\<rparr>"

definition healthy :: faults where
  "healthy = \<lparr>open_source = False, stat_source = False, seek_source = False, open_destination = False,
     stat_destination = False, truncate_destination = False, read_after = None, write_after = None, close_destination = False\<rparr>"

theorem copy_exact_witness:
  "\<exists>s' out. copyFile (\<lambda>_. 2) (\<lambda>w t. w * 100 div t) healthy ''a'' ''b'' 1 3 sample_fs = (None, s', out) \<and>
     nodes s' 1 = Regular ''ell'' \<and> hd out = 0 \<and> last out = 100"
proof -
  have "no_faults healthy" by (simp add: no_faults_def healthy_def)
  moreover have "map_of (names sample_fs) ''a'' = Some 0" "nodes sample_fs 0 = Regular ''hello''"
    "open_create ''b'' sample_fs = Some (1, sample_fs)" "nodes sample_fs 1 \<noteq> Device"
    by (simp_all add: sample_fs_def open_create_def)
  ultimately show ?thesis
    using copy_exact [of healthy 1 3 sample_fs "''a''" 0 "''hello''" "''b''" 1 sample_fs "\<lambda>_. 2" "\<lambda>w t. w * 100 div t"] by auto
qed

lemma copy_into_frame:
  assumes "src \<noteq> dst" "copy_into reads percent f src dst offset n s = (Some e, s', out)"
  shows "e = CopyContents \<or> e = CloseDestination" "\<And>i. i \<noteq> dst \<Longrightarrow> nodes s' i = nodes s i" "names s' = names s"
    "nodes s dst = Regular [] \<Longrightarrow>
      \<exists>m \<le> nat n. (e = CloseDestination \<longrightarrow> m = nat n) \<and> nodes s' dst = Regular (take m (drop (nat offset) (content s src)))"
proof -
  let ?w = "report 0 \<lparr>pw_total = n, pw_written = 0, pw_lastPercent = -1, pw_output = []\<rparr>"
  obtain ok w' s2 where loop: "copy_loop reads percent f src dst (nat offset) (nat n) 0 (?w, s) = (ok, w', s2)"
    by (metis prod_cases3)
  then have s2: "s' = s2" "e = CopyContents \<or> e = CloseDestination"
    using assms(2) by (auto simp: copy_into_def Let_def split: if_splits)
  then show "e = CopyContents \<or> e = CloseDestination" by simp
  show "nodes s' i = nodes s i" if "i \<noteq> dst" for i
    using copy_loop_appends [OF assms(1) loop] s2(1) that by (auto simp: appended_def)
  show "names s' = names s" using copy_loop_appends [OF assms(1) loop] s2(1) by (auto simp: appended_def)
  have close: "e = CloseDestination \<Longrightarrow> ok" using assms(2) loop by (auto simp: copy_into_def Let_def split: if_splits)
  assume empty: "nodes s dst = Regular []"
  obtain m where "m \<le> nat n" "appended dst (take m (drop (nat offset) (content s src))) s s'" "ok \<longrightarrow> m = nat n"
    using copy_loop_appends [OF assms(1) loop] s2(1) by (cases ok) auto
  then show "\<exists>m \<le> nat n. (e = CloseDestination \<longrightarrow> m = nat n) \<and> nodes s' dst = Regular (take m (drop (nat offset) (content s src)))"
    using close empty by (intro exI [of _ m]) (auto simp: appended_def content_def)
qed

text \<open>
  C31: what a copy that fails leaves behind. Every name keeps its file, and the source is never damaged, not even when the two paths
  name one file. The one existing file that can differ afterwards is the destination, when copying its contents or
  closing it failed: it was truncated and holds a prefix of the requested range, all of it if only the close failed. With
  every other error, those of the arguments, the source and the checks of the destination, all files are as before.
\<close>

theorem copy_failure_confined:
  assumes wf: "list_all (\<lambda>(p, i). i < next_inode s) (names s)"
    and run: "copyFile reads percent f fromPath toPath offset limit s = (Some e, s', out)"
    and p: "map_of (names s) p = Some i"
  shows "map_of (names s') p = Some i \<and>
    (nodes s' i = nodes s i \<or>
      e \<in> {CopyContents, CloseDestination} \<and> map_of (names s) toPath = Some i \<and>
      (\<exists>src c m. map_of (names s) fromPath = Some src \<and> src \<noteq> i \<and> nodes s src = Regular c \<and>
        m \<le> nat (bytes_to_copy (int (length c)) offset limit) \<and>
        (e = CloseDestination \<longrightarrow> m = nat (bytes_to_copy (int (length c)) offset limit)) \<and>
        nodes s' i = Regular (take m (drop (nat offset) c))))"
proof (cases "s' = s")
  case True
  then show ?thesis using p by simp
next
  case False
  then obtain src c dst s1 where src: "map_of (names s) fromPath = Some src" "nodes s src = Regular c"
    and dst: "open_create toPath s = Some (dst, s1)"
    and rest: "s' = s1 \<or> (src \<noteq> dst \<and> copy_into reads percent f src dst offset
      (bytes_to_copy (int (length c)) offset limit) (set_content dst [] s1) = (Some e, s', out))"
    using run by (auto simp: copyFile_def Let_def split: if_splits option.splits node.splits prod.splits)
  have i: "i \<noteq> next_inode s" using wf map_of_SomeD [OF p] by (auto simp: list_all_iff)
  have named: "map_of (names s1) p = Some i" using p dst open_create_frame [OF dst]
    by (cases "p = toPath") (auto simp: open_create_def split: option.splits if_splits)
  from rest show ?thesis
  proof
    assume "s' = s1"
    then show ?thesis using named open_create_frame(3) [OF dst i] by simp
  next
    assume c: "src \<noteq> dst \<and> copy_into reads percent f src dst offset (bytes_to_copy (int (length c)) offset limit)
      (set_content dst [] s1) = (Some e, s', out)"
    note frame = copy_into_frame [OF conjunct1 [OF c] conjunct2 [OF c]]
    have other: "nodes s' i = nodes s i" if "i \<noteq> dst"
      using frame(2) [OF that] open_create_frame(3) [OF dst i] that by simp
    have to: "map_of (names s) toPath = Some i" if "i = dst"
      using dst i that by (auto simp: open_create_def split: option.splits if_splits)
    have "content (set_content dst [] s1) src = c"
      using open_create_frame(4) [OF dst, of src] c src(2) by (simp add: content_def)
    then obtain m where m: "m \<le> nat (bytes_to_copy (int (length c)) offset limit)"
        "e = CloseDestination \<longrightarrow> m = nat (bytes_to_copy (int (length c)) offset limit)"
        "nodes s' dst = Regular (take m (drop (nat offset) c))"
      using frame(4) by auto
    show ?thesis
    proof (cases "i = dst")
      case True
      with to frame(1,3) named m src c show ?thesis
        by (intro conjI disjI2 exI [of _ src] exI [of _ c] exI [of _ m]) auto
    qed (use other frame(3) named in simp)
  qed
qed

theorem copy_failure_confined_witness:
  "nodes (fst (snd (copyFile (\<lambda>_. 2) (\<lambda>w t. w * 100 div t) healthy ''a'' ''link'' 0 0 sample_fs))) 0 = Regular ''hello''"
proof -
  obtain s' out where run: "copyFile (\<lambda>_. 2) (\<lambda>w t. w * 100 div t) healthy ''a'' ''link'' 0 0 sample_fs = (Some SameFile, s', out)"
    by (simp add: copyFile_def sample_fs_def healthy_def open_create_def)
  have "list_all (\<lambda>(p, i). i < next_inode sample_fs) (names sample_fs)" "map_of (names sample_fs) ''a'' = Some 0"
    "nodes sample_fs 0 = Regular ''hello''" by (simp_all add: sample_fs_def)
  then show ?thesis using copy_failure_confined [OF _ run, of "''a''" 0] run by simp
qed

end
