(* ===== verification/Telnet_Client.thy ===== *)
theory Telnet_Client
  imports Go_Duration
begin

text \<open>
  The session of \<open>hw11_telnet_client\<close>: two goroutines copy from the input to the connection (\<open>Send\<close>) and from the connection to
  the output (\<open>Receive\<close>), and \<open>runSession\<close> selects between their ends, an interrupt and the grace period. The model is
  a guarded transition function: an action is what one goroutine or the environment does next, \<open>None\<close> means that it cannot
  happen now, and an execution is any list of actions that can happen. The user and the peer produce chunks and end their streams
  when they like; until then a read blocks. \<open>io.Copy\<close> reads a chunk into its buffer and writes it in a second step. An error of
  a stream is a string, and may occur at any time.
\<close>

subsection \<open>State and actions\<close>

datatype session_result =
    Failure string string
  | Ended string

datatype phase =
    Waiting
  | Grace
  | Closing "string option" string string
  | Returned session_result

text \<open>
  Of each stream: what its producer has still to write, what can be read, whether its end can be read, and what the goroutine
  has read and not yet written.
\<close>

record session =
  input_left :: "string list"
  input_ready :: "string list"
  input_eof :: bool
  send_buf :: "string option"
  peer_left :: "string list"
  peer_ready :: "string list"
  peer_closed :: bool
  receive_buf :: "string option"
  connection_in :: string
  output_out :: string
  sendDone :: "string option option"
  receiveDone :: "string option option"
  interrupted :: bool
  phase :: phase
  closes :: nat
  logged :: "string list"

definition runSession_start :: "string list \<Rightarrow> string list \<Rightarrow> session" where
  "runSession_start input peer = \<lparr>input_left = input, input_ready = [], input_eof = False, send_buf = None, peer_left = peer,
     peer_ready = [], peer_closed = False, receive_buf = None, connection_in = [], output_out = [], sendDone = None,
     receiveDone = None, interrupted = False, phase = Waiting, closes = 0, logged = []\<rparr>"

datatype action =
    TypeChunk | TypeEOF | PeerChunk | PeerClose | Interrupt
  | SendRead | SendWrite | SendEOF | SendError nat string
  | ReceiveRead | ReceiveWrite | ReceiveEOF | ReceiveError nat string
  | SelectDone | SelectSend | SelectReceive | GraceOver
  | Close "string option"

text \<open>The user at the keyboard, the peer, and the signal.\<close>

definition outside_action :: "action \<Rightarrow> session \<Rightarrow> session option" where
  "outside_action a s =
     (case a of
        TypeChunk \<Rightarrow> (case input_left s of [] \<Rightarrow> None
          | c # cs \<Rightarrow> Some (s\<lparr>input_left := cs, input_ready := input_ready s @ [c]\<rparr>))
      | TypeEOF \<Rightarrow> if input_left s = [] \<and> \<not> input_eof s then Some (s\<lparr>input_eof := True\<rparr>) else None
      | PeerChunk \<Rightarrow> (case peer_left s of [] \<Rightarrow> None
          | c # cs \<Rightarrow> Some (s\<lparr>peer_left := cs, peer_ready := peer_ready s @ [c]\<rparr>))
      | PeerClose \<Rightarrow> if peer_left s = [] \<and> \<not> peer_closed s then Some (s\<lparr>peer_closed := True\<rparr>) else None
      | Interrupt \<Rightarrow> if interrupted s then None else Some (s\<lparr>interrupted := True\<rparr>)
      | _ \<Rightarrow> None)"

subsection \<open>\<open>Send\<close> and \<open>Receive\<close>\<close>

text \<open>
  Each is one \<open>io.Copy\<close>. Closing the client closes the input and the connection, so no read succeeds afterwards and no write to
  the connection; a chunk that was read before may still be written to the output. An error may come after a part of the
  buffer was written.
\<close>

definition send_action :: "action \<Rightarrow> session \<Rightarrow> session option" where
  "send_action a s =
     (if sendDone s \<noteq> None then None
      else case a of
        SendRead \<Rightarrow>
          (case (send_buf s, input_ready s) of
             (None, c # cs) \<Rightarrow> if closes s > 0 then None else Some (s\<lparr>input_ready := cs, send_buf := Some c\<rparr>)
           | _ \<Rightarrow> None)
      | SendWrite \<Rightarrow>
          (case send_buf s of
             None \<Rightarrow> None
           | Some c \<Rightarrow> if closes s > 0 then None else Some (s\<lparr>send_buf := None, connection_in := connection_in s @ c\<rparr>))
      | SendEOF \<Rightarrow>
          if send_buf s = None \<and> input_ready s = [] \<and> input_eof s \<and> closes s = 0 then Some (s\<lparr>sendDone := Some None\<rparr>) else None
      | SendError n e \<Rightarrow>
          (let k = (if closes s > 0 then 0 else n); buf = (case send_buf s of None \<Rightarrow> [] | Some c \<Rightarrow> c)
           in Some (s\<lparr>connection_in := connection_in s @ take k buf, send_buf := map_option (drop k) (send_buf s),
                sendDone := Some (Some e)\<rparr>))
      | _ \<Rightarrow> None)"

definition receive_action :: "action \<Rightarrow> session \<Rightarrow> session option" where
  "receive_action a s =
     (if receiveDone s \<noteq> None then None
      else case a of
        ReceiveRead \<Rightarrow>
          (case (receive_buf s, peer_ready s) of
             (None, c # cs) \<Rightarrow> if closes s > 0 then None else Some (s\<lparr>peer_ready := cs, receive_buf := Some c\<rparr>)
           | _ \<Rightarrow> None)
      | ReceiveWrite \<Rightarrow>
          (case receive_buf s of
             None \<Rightarrow> None
           | Some c \<Rightarrow> Some (s\<lparr>receive_buf := None, output_out := output_out s @ c\<rparr>))
      | ReceiveEOF \<Rightarrow>
          if receive_buf s = None \<and> peer_ready s = [] \<and> peer_closed s \<and> closes s = 0 then Some (s\<lparr>receiveDone := Some None\<rparr>) else None
      | ReceiveError n e \<Rightarrow>
          (let buf = (case receive_buf s of None \<Rightarrow> [] | Some c \<Rightarrow> c)
           in Some (s\<lparr>output_out := output_out s @ take n buf, receive_buf := map_option (drop n) (receive_buf s),
                receiveDone := Some (Some e)\<rparr>))
      | _ \<Rightarrow> None)"

subsection \<open>\<open>runSession\<close>\<close>

definition session_action :: "action \<Rightarrow> session \<Rightarrow> session option" where
  "session_action a s =
     (case (phase s, a) of
        (Waiting, SelectDone) \<Rightarrow>
          if interrupted s then Some (s\<lparr>phase := Closing None [] ''...Interrupted''\<rparr>) else None
      | (Waiting, SelectSend) \<Rightarrow>
          (case sendDone s of
             None \<Rightarrow> None
           | Some None \<Rightarrow> Some (s\<lparr>phase := Grace\<rparr>)
           | Some (Some e) \<Rightarrow> Some (s\<lparr>phase := Closing (Some e) ''send'' ''...EOF''\<rparr>))
      | (Waiting, SelectReceive) \<Rightarrow>
          (case receiveDone s of
             None \<Rightarrow> None
           | Some r \<Rightarrow> Some (s\<lparr>phase := Closing r ''receive'' ''...Connection was closed by peer''\<rparr>))
      | (Grace, SelectDone) \<Rightarrow>
          if interrupted s then Some (s\<lparr>phase := Closing None ''send'' ''...Interrupted''\<rparr>) else None
      | (Grace, SelectReceive) \<Rightarrow>
          (case receiveDone s of
             None \<Rightarrow> None
           | Some None \<Rightarrow> Some (s\<lparr>phase := Closing None ''send'' ''...EOF''\<rparr>)
           | Some (Some e) \<Rightarrow> Some (s\<lparr>phase := Closing (Some e) ''receive'' ''...EOF''\<rparr>))
      | (Grace, GraceOver) \<Rightarrow> Some (s\<lparr>phase := Closing None ''send'' ''...EOF''\<rparr>)
      | (Closing err operation message, Close closeErr) \<Rightarrow>
          (let s = s\<lparr>closes := closes s + 1,
                 logged := logged s @ (case closeErr of None \<Rightarrow> [] | Some e \<Rightarrow> [''...Close error: '' @ e])\<rparr>
           in case err of
                Some e \<Rightarrow> Some (s\<lparr>phase := Returned (Failure operation e)\<rparr>)
              | None \<Rightarrow> Some (s\<lparr>phase := Returned (Ended message), logged := logged s @ [message]\<rparr>))
      | _ \<Rightarrow> None)"

definition telnet_action :: "action \<Rightarrow> session \<Rightarrow> session option" where
  "telnet_action a s =
     (case a of
        TypeChunk \<Rightarrow> outside_action a s
      | TypeEOF \<Rightarrow> outside_action a s
      | PeerChunk \<Rightarrow> outside_action a s
      | PeerClose \<Rightarrow> outside_action a s
      | Interrupt \<Rightarrow> outside_action a s
      | SendRead \<Rightarrow> send_action a s
      | SendWrite \<Rightarrow> send_action a s
      | SendEOF \<Rightarrow> send_action a s
      | SendError _ _ \<Rightarrow> send_action a s
      | ReceiveRead \<Rightarrow> receive_action a s
      | ReceiveWrite \<Rightarrow> receive_action a s
      | ReceiveEOF \<Rightarrow> receive_action a s
      | ReceiveError _ _ \<Rightarrow> receive_action a s
      | _ \<Rightarrow> session_action a s)"

fun telnet_run :: "action list \<Rightarrow> session \<Rightarrow> session option" where
  "telnet_run [] s = Some s"
| "telnet_run (a # as) s = (case telnet_action a s of None \<Rightarrow> None | Some s' \<Rightarrow> telnet_run as s')"

subsection \<open>Before and after the session\<close>

record telnetClient =
  address :: string
  timeout :: int
  connection :: "nat option"

definition NewTelnetClient :: "string \<Rightarrow> int \<Rightarrow> telnetClient" where
  "NewTelnetClient addr tmo = \<lparr>address = addr, timeout = tmo, connection = None\<rparr>"

text \<open>\<open>Connect\<close>; \<open>net.DialTimeout\<close> is an argument, a connection is its number.\<close>

definition client_Connect ::
  "(string \<Rightarrow> int \<Rightarrow> string + nat) \<Rightarrow> telnetClient \<Rightarrow> string option \<times> telnetClient" where
  "client_Connect dial c =
     (case dial (address c) (timeout c) of Inl err \<Rightarrow> (Some err, c) | Inr conn \<Rightarrow> (None, c\<lparr>connection := Some conn\<rparr>))"

text \<open>\<open>Close\<close> of the client: both ends are closed, and the error of the input comes first.\<close>

definition client_Close :: "string option \<Rightarrow> string option \<Rightarrow> string option" where
  "client_Close inputErr connectionErr = (case inputErr of Some e \<Rightarrow> Some e | None \<Rightarrow> connectionErr)"

text \<open>
  \<open>run\<close> up to the session: what \<open>flag.Parse\<close> says (an error, a request for help, or the timeout and the remaining arguments),
  and what dialling the address gives. \<open>Inr\<close> is the connected client whose session starts.
\<close>

datatype flags_result = FlagError string | FlagHelp | FlagArgs int "string list"

definition telnet_setup :: "flags_result \<Rightarrow> (string \<Rightarrow> int \<Rightarrow> string + nat) \<Rightarrow> message option + telnetClient" where
  "telnet_setup flags dial =
     (case flags of
        FlagHelp \<Rightarrow> Inl None
      | FlagError e \<Rightarrow> Inl (Some [Lit ''parse arguments: '', Plain e])
      | FlagArgs tmo [host, port] \<Rightarrow>
          (let addr = JoinHostPort host port
           in case client_Connect dial (NewTelnetClient addr tmo) of
                (Some e, _) \<Rightarrow> Inl (Some [Lit ''connect to '', Plain addr, Lit '': '', Plain e])
              | (None, client) \<Rightarrow> Inr client)
      | FlagArgs _ _ \<Rightarrow> Inl (Some [Lit ''usage: go-telnet [--timeout=duration] host port'']))"

subsection \<open>Invariant\<close>

definition buffered :: "string option \<Rightarrow> string" where
  "buffered b = (case b of None \<Rightarrow> [] | Some c \<Rightarrow> c)"

lemma buffered_simps [simp]: "buffered None = []" "buffered (Some c) = c"
  by (simp_all add: buffered_def)

lemma buffered_split [simp]: "take n (buffered b) @ buffered (map_option (drop n) b) = buffered b"
  by (cases b) simp_all

text \<open>No byte is lost, doubled or reordered: each stream is what was written, what is in the buffer, and what is still to come.\<close>

definition copied :: "string list \<Rightarrow> string list \<Rightarrow> session \<Rightarrow> bool" where
  "copied input peer s \<longleftrightarrow>
     connection_in s @ buffered (send_buf s) @ concat (input_ready s) @ concat (input_left s) = concat input \<and>
     output_out s @ buffered (receive_buf s) @ concat (peer_ready s) @ concat (peer_left s) = concat peer"

definition done_ok :: "session \<Rightarrow> bool" where
  "done_ok s \<longleftrightarrow> (input_eof s \<longrightarrow> input_left s = []) \<and> (peer_closed s \<longrightarrow> peer_left s = []) \<and>
     (sendDone s = Some None \<longrightarrow> send_buf s = None \<and> input_ready s = [] \<and> input_left s = []) \<and>
     (receiveDone s = Some None \<longrightarrow> receive_buf s = None \<and> peer_ready s = [] \<and> peer_left s = [])"

text \<open>What the message of a session that ended without an error says, and what made the session end.\<close>

definition truthful :: "string \<Rightarrow> session \<Rightarrow> bool" where
  "truthful msg s \<longleftrightarrow>
     (msg = ''...Interrupted'' \<and> interrupted s) \<or> (msg = ''...EOF'' \<and> sendDone s = Some None) \<or>
     (msg = ''...Connection was closed by peer'' \<and> receiveDone s = Some None)"

definition caused :: "session \<Rightarrow> bool" where
  "caused s \<longleftrightarrow> interrupted s \<or> sendDone s \<noteq> None \<or> receiveDone s \<noteq> None"

definition phase_ok :: "session \<Rightarrow> bool" where
  "phase_ok s \<longleftrightarrow> (phase s = Waiting \<or> caused s) \<and>
     (case phase s of
        Waiting \<Rightarrow> closes s = 0
      | Grace \<Rightarrow> closes s = 0 \<and> sendDone s = Some None
      | Closing err op msg \<Rightarrow> closes s = 0 \<and> (err = None \<longrightarrow> truthful msg s)
      | Returned (Failure op e) \<Rightarrow> closes s = 1
      | Returned (Ended msg) \<Rightarrow> closes s = 1 \<and> truthful msg s)"

definition session_inv :: "string list \<Rightarrow> string list \<Rightarrow> session \<Rightarrow> bool" where
  "session_inv input peer s \<longleftrightarrow> copied input peer s \<and> phase_ok s \<and> done_ok s"

text \<open>The four kinds of actions.\<close>

lemma telnet_action_cases:
  assumes "telnet_action a s = Some s'"
  obtains "outside_action a s = Some s'" | "send_action a s = Some s'" | "receive_action a s = Some s'" | "session_action a s = Some s'"
  using assms by (cases a) (auto simp: telnet_action_def)

lemma session_action_frame:
  assumes "session_action a s = Some s'"
  shows "s'\<lparr>phase := phase s, closes := closes s, logged := logged s\<rparr> = s"
  using assms by (cases a; cases "phase s") (auto simp: session_action_def Let_def split: if_splits option.splits)

lemma session_action_keeps:
  assumes "session_action a s = Some s'"
  shows "input_left s' = input_left s" "input_ready s' = input_ready s" "input_eof s' = input_eof s" "send_buf s' = send_buf s"
    "peer_left s' = peer_left s" "peer_ready s' = peer_ready s" "peer_closed s' = peer_closed s" "receive_buf s' = receive_buf s"
    "connection_in s' = connection_in s" "output_out s' = output_out s" "sendDone s' = sendDone s" "receiveDone s' = receiveDone s"
    "interrupted s' = interrupted s"
  using arg_cong [OF session_action_frame [OF assms], of input_left] arg_cong [OF session_action_frame [OF assms], of input_ready]
    arg_cong [OF session_action_frame [OF assms], of input_eof] arg_cong [OF session_action_frame [OF assms], of send_buf]
    arg_cong [OF session_action_frame [OF assms], of peer_left] arg_cong [OF session_action_frame [OF assms], of peer_ready]
    arg_cong [OF session_action_frame [OF assms], of peer_closed] arg_cong [OF session_action_frame [OF assms], of receive_buf]
    arg_cong [OF session_action_frame [OF assms], of connection_in] arg_cong [OF session_action_frame [OF assms], of output_out]
    arg_cong [OF session_action_frame [OF assms], of sendDone] arg_cong [OF session_action_frame [OF assms], of receiveDone]
    arg_cong [OF session_action_frame [OF assms], of interrupted]
  by simp_all

lemma stream_actions_keep:
  assumes "outside_action a s = Some s' \<or> send_action a s = Some s' \<or> receive_action a s = Some s'"
  shows "phase s' = phase s" "closes s' = closes s" "interrupted s \<longrightarrow> interrupted s'"
    "sendDone s \<noteq> None \<longrightarrow> sendDone s' = sendDone s" "receiveDone s \<noteq> None \<longrightarrow> receiveDone s' = receiveDone s"
    "input_eof s \<longrightarrow> input_eof s'" "peer_closed s \<longrightarrow> peer_closed s'"
  using assms by (auto simp: outside_action_def send_action_def receive_action_def Let_def
      split: action.splits list.splits option.splits if_splits)

lemma copied_step:
  assumes "telnet_action a s = Some s'" "copied input peer s"
  shows "copied input peer s'"
  using assms(1)
proof (cases rule: telnet_action_cases)
  case 1
  then show ?thesis using assms(2)
    by (auto simp: outside_action_def copied_def split: action.splits list.splits if_splits)
next
  case 2
  have b: "(case x of None \<Rightarrow> [] | Some c \<Rightarrow> c) = buffered x" for x by (simp add: buffered_def)
  have "connection_in s' @ buffered (send_buf s') @ concat (input_ready s') =
      connection_in s @ buffered (send_buf s) @ concat (input_ready s)"
    using 2 by (auto simp: send_action_def Let_def b split: action.splits list.splits option.splits if_splits)
  moreover have "input_left s' = input_left s" "output_out s' = output_out s" "receive_buf s' = receive_buf s"
    "peer_ready s' = peer_ready s" "peer_left s' = peer_left s"
    using 2 by (auto simp: send_action_def Let_def split: action.splits list.splits option.splits if_splits)
  ultimately show ?thesis using assms(2) unfolding copied_def by (metis append.assoc)
next
  case 3
  have b: "(case x of None \<Rightarrow> [] | Some c \<Rightarrow> c) = buffered x" for x by (simp add: buffered_def)
  have "output_out s' @ buffered (receive_buf s') @ concat (peer_ready s') =
      output_out s @ buffered (receive_buf s) @ concat (peer_ready s)"
    using 3 by (auto simp: receive_action_def Let_def b split: action.splits list.splits option.splits if_splits)
  moreover have "peer_left s' = peer_left s" "connection_in s' = connection_in s" "send_buf s' = send_buf s"
    "input_ready s' = input_ready s" "input_left s' = input_left s"
    using 3 by (auto simp: receive_action_def Let_def split: action.splits list.splits option.splits if_splits)
  ultimately show ?thesis using assms(2) unfolding copied_def by (metis append.assoc)
next
  case 4
  then show ?thesis using assms(2) by (simp add: copied_def session_action_keeps)
qed

lemma outside_done: "outside_action a s = Some s' \<Longrightarrow> done_ok s \<Longrightarrow> done_ok s'"
  by (cases a) (auto simp: outside_action_def split: list.splits if_splits, auto simp: done_ok_def)

lemma send_done: "send_action a s = Some s' \<Longrightarrow> done_ok s \<Longrightarrow> done_ok s'"
  by (cases a) (auto simp: send_action_def Let_def split: list.splits option.splits if_splits, auto simp: done_ok_def)

lemma receive_done: "receive_action a s = Some s' \<Longrightarrow> done_ok s \<Longrightarrow> done_ok s'"
  by (cases a) (auto simp: receive_action_def Let_def split: list.splits option.splits if_splits, auto simp: done_ok_def)

lemma done_step:
  assumes "telnet_action a s = Some s'" "done_ok s"
  shows "done_ok s'"
  using assms(1)
proof (cases rule: telnet_action_cases)
  case 4
  then show ?thesis using assms(2) by (simp add: done_ok_def session_action_keeps)
qed (simp_all add: outside_done [OF _ assms(2)] send_done [OF _ assms(2)] receive_done [OF _ assms(2)])

lemma reasons_mono:
  assumes "interrupted s \<longrightarrow> interrupted s'" "sendDone s \<noteq> None \<longrightarrow> sendDone s' = sendDone s"
    "receiveDone s \<noteq> None \<longrightarrow> receiveDone s' = receiveDone s"
  shows "truthful msg s \<longrightarrow> truthful msg s'" "caused s \<longrightarrow> caused s'" "sendDone s = Some None \<longrightarrow> sendDone s' = Some None"
  using assms by (auto simp: truthful_def caused_def)

lemma phase_ok_mono:
  assumes "phase s' = phase s" "closes s' = closes s" "\<And>msg. truthful msg s \<longrightarrow> truthful msg s'" "caused s \<longrightarrow> caused s'"
    "sendDone s = Some None \<longrightarrow> sendDone s' = Some None"
  shows "phase_ok s \<Longrightarrow> phase_ok s'"
  using assms(3-5) by (simp add: phase_ok_def assms(1,2) split: phase.splits session_result.splits)

lemma session_action_ok:
  assumes "session_action a s = Some s'" "phase_ok s"
  shows "phase_ok s'"
proof (cases "phase s")
  case Waiting
  then show ?thesis using assms
    by (cases a) (auto simp: session_action_def phase_ok_def truthful_def caused_def split: if_splits option.splits)
next
  case Grace
  then show ?thesis using assms
    by (cases a) (auto simp: session_action_def phase_ok_def truthful_def caused_def split: if_splits option.splits)
next
  case (Closing err op msg)
  then show ?thesis using assms
    by (cases a; cases err) (auto simp: session_action_def phase_ok_def truthful_def caused_def Let_def)
next
  case (Returned r)
  then show ?thesis using assms by (cases a) (auto simp: session_action_def)
qed

lemma phase_step:
  assumes "telnet_action a s = Some s'" "phase_ok s"
  shows "phase_ok s'"
proof -
  have stream: "phase_ok s'" if "outside_action a s = Some s' \<or> send_action a s = Some s' \<or> receive_action a s = Some s'"
    by (rule phase_ok_mono [OF stream_actions_keep(1,2) [OF that] reasons_mono [OF stream_actions_keep(3-5) [OF that]] assms(2)])
  show ?thesis
    using assms(1) by (cases rule: telnet_action_cases) (simp_all add: stream session_action_ok [OF _ assms(2)])
qed

lemma session_inv_run:
  "telnet_run as s = Some s' \<Longrightarrow> session_inv input peer s \<Longrightarrow> session_inv input peer s'"
  by (induction as arbitrary: s) (auto simp: session_inv_def split: option.splits intro: copied_step done_step phase_step)

lemma session_inv_start: "session_inv input peer (runSession_start input peer)"
  by (simp add: session_inv_def copied_def phase_ok_def done_ok_def runSession_start_def)

subsection \<open>Progress\<close>

text \<open>Every action uses something up.\<close>

definition phase_rank :: "phase \<Rightarrow> nat" where
  "phase_rank p = (case p of Waiting \<Rightarrow> 3 | Grace \<Rightarrow> 2 | Closing _ _ _ \<Rightarrow> 1 | Returned _ \<Rightarrow> 0)"

definition open_flag :: "bool \<Rightarrow> nat" where
  "open_flag b = (if b then 0 else 1)"

definition session_fuel :: "session \<Rightarrow> nat" where
  "session_fuel s =
     3 * length (input_left s) + 2 * length (input_ready s) + open_flag (send_buf s = None) + open_flag (input_eof s) +
     3 * length (peer_left s) + 2 * length (peer_ready s) + open_flag (receive_buf s = None) + open_flag (peer_closed s) +
     open_flag (sendDone s \<noteq> None) + open_flag (receiveDone s \<noteq> None) + open_flag (interrupted s) + phase_rank (phase s)"

lemma open_flag_simps [simp]: "open_flag True = 0" "open_flag False = 1"
  by (simp_all add: open_flag_def)

lemma send_fuel: "send_action a s = Some s' \<Longrightarrow> session_fuel s' < session_fuel s"
  by (cases a) (auto simp: send_action_def session_fuel_def Let_def split: list.splits if_splits option.splits)

lemma receive_fuel: "receive_action a s = Some s' \<Longrightarrow> session_fuel s' < session_fuel s"
  by (cases a) (auto simp: receive_action_def session_fuel_def Let_def split: list.splits if_splits option.splits)

lemma outside_fuel: "outside_action a s = Some s' \<Longrightarrow> session_fuel s' < session_fuel s"
  by (cases a) (auto simp: outside_action_def session_fuel_def split: list.splits if_splits)

lemma session_action_rank:
  assumes "session_action a s = Some s'"
  shows "phase_rank (phase s') < phase_rank (phase s)"
proof (cases "phase s")
  case Waiting
  then show ?thesis using assms
    by (cases a) (auto simp: session_action_def phase_rank_def split: if_splits option.splits)
next
  case Grace
  then show ?thesis using assms
    by (cases a) (auto simp: session_action_def phase_rank_def split: if_splits option.splits)
next
  case (Closing err op msg)
  then show ?thesis using assms
    by (cases a; cases err) (auto simp: session_action_def phase_rank_def Let_def)
next
  case (Returned r)
  then show ?thesis using assms by (cases a) (auto simp: session_action_def)
qed

lemma main_fuel: "session_action a s = Some s' \<Longrightarrow> session_fuel s' < session_fuel s"
  using session_action_rank [of a s s'] by (simp add: session_fuel_def session_action_keeps)

lemma telnet_fuel: "telnet_action a s = Some s' \<Longrightarrow> session_fuel s' < session_fuel s"
  by (erule telnet_action_cases) (rule outside_fuel send_fuel receive_fuel main_fuel; assumption)+

lemma telnet_run_bounded: "telnet_run as s = Some s' \<Longrightarrow> length as + session_fuel s' \<le> session_fuel s"
  by (induction as arbitrary: s) (fastforce split: option.splits dest: telnet_fuel)+

lemma telnet_run_append: "telnet_run (as @ bs) s = (case telnet_run as s of None \<Rightarrow> None | Some s' \<Rightarrow> telnet_run bs s')"
  by (induction as arbitrary: s) (auto split: option.splits)

text \<open>
  What \<open>runSession\<close> itself does, and what the two goroutines do when the ends of their streams and the writes do not make them
  wait. The user, the peer, the signal and errors are not among them.
\<close>

definition main_action :: "action \<Rightarrow> bool" where
  "main_action a \<longleftrightarrow> a \<in> {SelectDone, SelectSend, SelectReceive, GraceOver, Close None}"

definition sender_action :: "action \<Rightarrow> bool" where
  "sender_action a \<longleftrightarrow> main_action a \<or> a \<in> {SendRead, SendWrite, SendEOF}"

definition receiver_action :: "action \<Rightarrow> bool" where
  "receiver_action a \<longleftrightarrow> main_action a \<or> a \<in> {ReceiveRead, ReceiveWrite, ReceiveEOF}"

text \<open>Three reasons to end, each with the actions it enables until the return.\<close>

definition input_over :: "session \<Rightarrow> bool" where
  "input_over s \<longleftrightarrow> input_eof s \<or> sendDone s \<noteq> None"

definition peer_over :: "session \<Rightarrow> bool" where
  "peer_over s \<longleftrightarrow> peer_closed s \<or> receiveDone s \<noteq> None"

lemma ending_enabled:
  assumes "phase_ok s" "phase s = Grace \<or> phase s = Closing err op msg"
  shows "\<exists>a s'. main_action a \<and> telnet_action a s = Some s'"
proof (cases "phase s = Grace")
  case True
  then have "\<exists>s'. telnet_action GraceOver s = Some s'" by (simp add: telnet_action_def session_action_def)
  then show ?thesis by (auto simp: main_action_def)
next
  case False
  then have "\<exists>s'. telnet_action (Close None) s = Some s'"
    using assms(2) by (cases err) (auto simp: telnet_action_def session_action_def Let_def)
  then show ?thesis by (auto simp: main_action_def)
qed

lemma interrupted_enabled:
  assumes "phase_ok s" "\<forall>r. phase s \<noteq> Returned r" "interrupted s"
  shows "\<exists>a s'. main_action a \<and> telnet_action a s = Some s'"
proof (cases "phase s")
  case Waiting
  then have "\<exists>s'. telnet_action SelectDone s = Some s'" using assms(3) by (simp add: telnet_action_def session_action_def)
  then show ?thesis by (auto simp: main_action_def)
qed (use ending_enabled [OF assms(1)] assms(2) in auto)

lemma sender_enabled:
  assumes "phase_ok s" "\<forall>r. phase s \<noteq> Returned r" "input_over s"
  shows "\<exists>a s'. sender_action a \<and> telnet_action a s = Some s'"
proof (cases "phase s")
  case Waiting
  then have open_: "closes s = 0" using assms(1) by (simp add: phase_ok_def)
  show ?thesis
  proof (cases "sendDone s")
    case None
    then have "\<exists>a \<in> {SendRead, SendWrite, SendEOF}. \<exists>s'. send_action a s = Some s'"
      using open_ assms(3) by (cases "send_buf s"; cases "input_ready s") (auto simp: send_action_def input_over_def)
    then show ?thesis by (auto simp: sender_action_def telnet_action_def)
  next
    case (Some r)
    then have "\<exists>s'. telnet_action SelectSend s = Some s'"
      using Waiting by (cases r) (auto simp: telnet_action_def session_action_def)
    then show ?thesis by (auto simp: sender_action_def main_action_def)
  qed
qed (use ending_enabled [OF assms(1)] assms(2) in \<open>auto simp: sender_action_def\<close>)

lemma receiver_enabled:
  assumes "phase_ok s" "\<forall>r. phase s \<noteq> Returned r" "peer_over s"
  shows "\<exists>a s'. receiver_action a \<and> telnet_action a s = Some s'"
proof (cases "phase s")
  case Waiting
  then have open_: "closes s = 0" using assms(1) by (simp add: phase_ok_def)
  show ?thesis
  proof (cases "receiveDone s")
    case None
    then have "\<exists>a \<in> {ReceiveRead, ReceiveWrite, ReceiveEOF}. \<exists>s'. receive_action a s = Some s'"
      using open_ assms(3) by (cases "receive_buf s"; cases "peer_ready s") (auto simp: receive_action_def peer_over_def)
    then show ?thesis by (auto simp: receiver_action_def telnet_action_def)
  next
    case (Some r)
    then have "\<exists>s'. telnet_action SelectReceive s = Some s'"
      using Waiting by (auto simp: telnet_action_def session_action_def)
    then show ?thesis by (auto simp: receiver_action_def main_action_def)
  qed
qed (use ending_enabled [OF assms(1)] assms(2) in \<open>auto simp: receiver_action_def\<close>)

lemma reasons_stay:
  assumes "telnet_action a s = Some s'"
  shows "interrupted s \<Longrightarrow> interrupted s'" "input_over s \<Longrightarrow> input_over s'" "peer_over s \<Longrightarrow> peer_over s'"
proof -
  have "(interrupted s \<longrightarrow> interrupted s') \<and> (input_over s \<longrightarrow> input_over s') \<and> (peer_over s \<longrightarrow> peer_over s')"
    using assms
  proof (cases rule: telnet_action_cases)
    case 4
    then show ?thesis by (simp add: input_over_def peer_over_def session_action_keeps)
  qed (use stream_actions_keep [of a s s'] in \<open>auto simp: input_over_def peer_over_def\<close>)
  then show "interrupted s \<Longrightarrow> interrupted s'" "input_over s \<Longrightarrow> input_over s'" "peer_over s \<Longrightarrow> peer_over s'" by blast+
qed

text \<open>A reason that stays and keeps enabling actions of one kind brings the session to its return by these actions alone.\<close>

lemma completes:
  assumes enabled: "\<And>s. phase_ok s \<Longrightarrow> \<forall>r. phase s \<noteq> Returned r \<Longrightarrow> why s \<Longrightarrow> \<exists>a s'. kind a \<and> telnet_action a s = Some s'"
    and stays: "\<And>a s s'. telnet_action a s = Some s' \<Longrightarrow> why s \<Longrightarrow> why s'"
  shows "phase_ok s \<Longrightarrow> why s \<Longrightarrow> \<exists>bs s' r. list_all kind bs \<and> telnet_run bs s = Some s' \<and> phase s' = Returned r"
proof (induction "session_fuel s" arbitrary: s rule: less_induct)
  case less
  show ?case
  proof (cases "\<exists>r. phase s = Returned r")
    case True
    then have "\<exists>r. list_all kind [] \<and> telnet_run [] s = Some s \<and> phase s = Returned r" by simp
    then show ?thesis by blast
  next
    case False
    then obtain a s1 where a: "kind a" "telnet_action a s = Some s1" using enabled less.prems by blast
    then obtain as s' r where "list_all kind as" "telnet_run as s1 = Some s'" "phase s' = Returned r"
      using less.hyps [OF telnet_fuel [OF a(2)]] phase_step [OF a(2)] stays [OF a(2)] less.prems by blast
    then have "list_all kind (a # as)" "telnet_run (a # as) s = Some s'" "phase s' = Returned r" using a by simp_all
    then show ?thesis by blast
  qed
qed

subsection \<open>Properties\<close>

text \<open>
  C32: in every interleaving, what was sent is a prefix of the input and what was printed a prefix of what the peer sent, byte
  for byte. When the session has returned, the client was closed exactly once, and the message is the truth: at
  \<open>...EOF\<close> the whole input was sent, at \<open>...Connection was closed by peer\<close> everything the peer sent was printed, and
  \<open>...Interrupted\<close> is only said after an interrupt.
\<close>

theorem session_faithful:
  assumes "telnet_run as (runSession_start input peer) = Some s"
  shows "prefix (connection_in s) (concat input) \<and> prefix (output_out s) (concat peer) \<and>
    (case phase s of
       Returned (Failure _ _) \<Rightarrow> closes s = 1
     | Returned (Ended msg) \<Rightarrow> closes s = 1 \<and>
         ((msg = ''...Interrupted'' \<and> interrupted s) \<or> (msg = ''...EOF'' \<and> connection_in s = concat input) \<or>
          (msg = ''...Connection was closed by peer'' \<and> output_out s = concat peer))
     | _ \<Rightarrow> closes s = 0)"
proof -
  have inv: "copied input peer s" "phase_ok s" "done_ok s"
    using session_inv_run [OF assms session_inv_start] by (auto simp: session_inv_def)
  then have "concat input = connection_in s @ buffered (send_buf s) @ concat (input_ready s) @ concat (input_left s)"
    "concat peer = output_out s @ buffered (receive_buf s) @ concat (peer_ready s) @ concat (peer_left s)"
    by (simp_all add: copied_def)
  then have "prefix (connection_in s) (concat input)" "prefix (output_out s) (concat peer)"
    "sendDone s = Some None \<longrightarrow> connection_in s = concat input" "receiveDone s = Some None \<longrightarrow> output_out s = concat peer"
    using inv(3) by (auto simp: done_ok_def)
  then show ?thesis using inv(2)
    by (auto simp: phase_ok_def truthful_def split: phase.splits session_result.splits)
qed

definition short_session :: "action list" where
  "short_session = [TypeChunk, PeerChunk, SendRead, ReceiveRead, SendWrite, TypeEOF, SendEOF, SelectSend, GraceOver, Close None, ReceiveWrite]"

theorem session_faithful_witness:
  "\<exists>s. telnet_run short_session (runSession_start [''hi''] [''yo'', ''!'']) = Some s \<and> prefix (output_out s) ''yo!''"
proof -
  define s where "s = the (telnet_run short_session (runSession_start [''hi''] [''yo'', ''!'']))"
  have run: "telnet_run short_session (runSession_start [''hi''] [''yo'', ''!'']) = Some s"
    unfolding s_def by code_simp
  have "concat [''yo'', ''!''] = ''yo!''" by simp
  then show ?thesis using session_faithful [OF run] run by metis
qed

text \<open>
  C33: when and how a session ends. Every execution has a bounded number of actions. As long as there was no interrupt and neither
  copy has ended or failed, the session waits. After an interrupt \<open>runSession\<close> returns by its own actions, even when both
  goroutines are blocked. Once the input has ended, the sending goroutine and \<open>runSession\<close> can bring the session to its return with no other
  goroutine and no further input, if the peer takes what is written, and once the peer has closed the connection the receiving goroutine
  and \<open>runSession\<close> can, whatever had happened before.
\<close>

theorem session_terminates:
  assumes "telnet_run as (runSession_start input peer) = Some s"
  shows "length as \<le> 3 * length input + 3 * length peer + 8 \<and>
    (\<not> interrupted s \<and> sendDone s = None \<and> receiveDone s = None \<longrightarrow> phase s = Waiting) \<and>
    (interrupted s \<longrightarrow> (\<exists>bs s' r. list_all main_action bs \<and> telnet_run bs s = Some s' \<and> phase s' = Returned r)) \<and>
    (input_over s \<longrightarrow> (\<exists>bs s' r. list_all sender_action bs \<and> telnet_run bs s = Some s' \<and> phase s' = Returned r)) \<and>
    (peer_over s \<longrightarrow> (\<exists>bs s' r. list_all receiver_action bs \<and> telnet_run bs s = Some s' \<and> phase s' = Returned r))"
proof (intro conjI impI)
  have "session_fuel (runSession_start input peer) = 3 * length input + 3 * length peer + 8"
    by (simp add: session_fuel_def phase_rank_def runSession_start_def)
  then show "length as \<le> 3 * length input + 3 * length peer + 8" using telnet_run_bounded [OF assms] by simp
  have ok: "phase_ok s" using session_inv_run [OF assms session_inv_start] by (simp add: session_inv_def)
  then show "phase s = Waiting" if "\<not> interrupted s \<and> sendDone s = None \<and> receiveDone s = None"
    using that by (simp add: phase_ok_def caused_def)
  show "\<exists>bs s' r. list_all main_action bs \<and> telnet_run bs s = Some s' \<and> phase s' = Returned r" if "interrupted s"
    by (rule completes [where why = interrupted, OF _ _ ok that]) (fact interrupted_enabled reasons_stay(1))+
  show "\<exists>bs s' r. list_all sender_action bs \<and> telnet_run bs s = Some s' \<and> phase s' = Returned r" if "input_over s"
    by (rule completes [where why = input_over, OF _ _ ok that]) (fact sender_enabled reasons_stay(2))+
  show "\<exists>bs s' r. list_all receiver_action bs \<and> telnet_run bs s = Some s' \<and> phase s' = Returned r" if "peer_over s"
    by (rule completes [where why = peer_over, OF _ _ ok that]) (fact receiver_enabled reasons_stay(3))+
qed

theorem session_terminates_witness:
  "\<exists>bs s' r. list_all main_action bs \<and> telnet_run ([TypeChunk, SendRead, Interrupt] @ bs) (runSession_start [''hi'', ''ho''] [''yo'']) = Some s' \<and>
     phase s' = Returned r"
proof -
  have "map_option interrupted (telnet_run [TypeChunk, SendRead, Interrupt] (runSession_start [''hi'', ''ho''] [''yo''])) = Some True"
    by code_simp
  then obtain s where s: "telnet_run [TypeChunk, SendRead, Interrupt] (runSession_start [''hi'', ''ho''] [''yo'']) = Some s" "interrupted s"
    by auto
  then obtain bs s' r where "list_all main_action bs" "telnet_run bs s = Some s'" "phase s' = Returned r"
    using session_terminates [OF s(1)] by blast
  with s(1) show ?thesis unfolding telnet_run_append by (intro exI [of _ bs] exI [of _ s'] exI [of _ r]) simp
qed

end
