(* ===== verification/Pipeline.thy ===== *)
theory Pipeline
  imports "HOL-Library.Sublist"
begin

text \<open>
  The pipeline of \<open>hw06_pipeline_execution/pipeline.go\<close>: \<open>ExecutePipeline\<close> starts one \<open>forward\<close> goroutine in front of the first stage
  and one behind every stage, connected by unbuffered channels. The model is a guarded transition function over all
  interleavings. Segment 0 is the forwarder of the input, segment \<open>i + 1\<close> is stage \<open>i\<close> with the forwarder behind it.

  A stage is code of the caller. What the pipeline relies on is that it is a function of the values it received: it sends
  the values of \<open>g xs\<close> in order when it has received \<open>xs\<close>, what it sent stays right when more arrives (\<open>g\<close> is monotone for
  prefixes), and it closes its output when its input is closed and everything was sent. So a stage never returns a nil channel, and
  the test for one in front of the draining loop has no branch of its own; a nil input of the pipeline is an input that
  delivers nothing and is not closed. The channel \<open>done\<close> is closed to cancel, as a context closes it, and no value is sent on it.
\<close>

subsection \<open>State\<close>

datatype 'v control =
    Polling
  | Receiving
  | Sending 'v
  | Draining
  | Stopped

record 'v segment =
  ctl :: "'v control"
  seg_got :: "'v list"
  seg_sent :: "'v list"
  drained :: "'v list"
  out_closed :: bool
  stage_in_closed :: bool
  stage_out_closed :: bool

record 'v pipe =
  input_rest :: "'v list"
  input_closes :: bool
  cancelled :: bool
  segments :: "'v segment list"

type_synonym 'v stage = "'v list \<Rightarrow> 'v list"

definition new_segment :: "'v segment" where
  "new_segment = \<lparr>ctl = Polling, seg_got = [], seg_sent = [], drained = [], out_closed = False, stage_in_closed = False,
     stage_out_closed = False\<rparr>"

text \<open>\<open>ExecutePipeline\<close> with the given stages, and an input that delivers some values and is closed after them or not.\<close>

definition ExecutePipeline :: "'v stage list \<Rightarrow> 'v list \<Rightarrow> bool \<Rightarrow> 'v pipe" where
  "ExecutePipeline stages input closes_input =
     \<lparr>input_rest = input, input_closes = closes_input, cancelled = False,
      segments = replicate (length stages + 1) new_segment\<rparr>"

subsection \<open>The two ends of a segment\<close>

text \<open>What the stage in front of a forwarder would send next, and whether the channel it reads from is closed.\<close>

definition stage_next :: "'v stage \<Rightarrow> 'v list \<Rightarrow> 'v segment \<Rightarrow> 'v option" where
  "stage_next g received seg =
     (let emitted = seg_got seg @ drained seg
      in if stage_out_closed seg \<or> length emitted \<ge> length (g received) then None
         else Some (g received ! length emitted))"

definition source_next :: "'v stage list \<Rightarrow> nat \<Rightarrow> 'v pipe \<Rightarrow> 'v option" where
  "source_next stages i p =
     (case i of
        0 \<Rightarrow> (case input_rest p of [] \<Rightarrow> None | v # _ \<Rightarrow> Some v)
      | Suc j \<Rightarrow> stage_next (stages ! j) (seg_sent (segments p ! j)) (segments p ! i))"

definition source_closed :: "nat \<Rightarrow> 'v pipe \<Rightarrow> bool" where
  "source_closed i p =
     (case i of 0 \<Rightarrow> input_rest p = [] \<and> input_closes p | Suc j \<Rightarrow> stage_out_closed (segments p ! i))"

definition upd_seg :: "nat \<Rightarrow> ('v segment \<Rightarrow> 'v segment) \<Rightarrow> 'v pipe \<Rightarrow> 'v pipe" where
  "upd_seg i f p = p\<lparr>segments := (segments p)[i := f (segments p ! i)]\<rparr>"

text \<open>Taking the value out of the channel; the input of the pipeline gets shorter, a stage has one value less to send.\<close>

definition take_input :: "nat \<Rightarrow> 'v pipe \<Rightarrow> 'v pipe" where
  "take_input i p = (if i = 0 then p\<lparr>input_rest := tl (input_rest p)\<rparr> else p)"

subsection \<open>\<open>forward\<close>\<close>

datatype fwd_action =
    Poll
  | SeeDone
  | Receive
  | SeeClosed
  | Send
  | Drain
  | DrainEnd

text \<open>\<open>stop\<close>: close the output; the forwarders behind a stage go on to drain it, the one of the input does not.\<close>

definition stop :: "nat \<Rightarrow> 'v segment \<Rightarrow> 'v segment" where
  "stop i seg = seg\<lparr>out_closed := True, ctl := (if i = 0 then Stopped else Draining)\<rparr>"

definition forward_action :: "'v stage list \<Rightarrow> nat \<Rightarrow> fwd_action \<Rightarrow> 'v pipe \<Rightarrow> 'v pipe option" where
  "forward_action stages i a p =
     (let seg = segments p ! i in
      case (ctl seg, a) of
        (Polling, Poll) \<Rightarrow>
          Some (upd_seg i (if cancelled p then stop i else (\<lambda>seg. seg\<lparr>ctl := Receiving\<rparr>)) p)
      | (Receiving, SeeDone) \<Rightarrow> if cancelled p then Some (upd_seg i (stop i) p) else None
      | (Receiving, Receive) \<Rightarrow>
          (case source_next stages i p of
             None \<Rightarrow> None
           | Some v \<Rightarrow> Some (upd_seg i (\<lambda>seg. seg\<lparr>ctl := Sending v, seg_got := seg_got seg @ [v]\<rparr>) (take_input i p)))
      | (Receiving, SeeClosed) \<Rightarrow>
          if source_closed i p then Some (upd_seg i (\<lambda>seg. seg\<lparr>ctl := Stopped, out_closed := True\<rparr>) p) else None
      | (Sending v, SeeDone) \<Rightarrow> if cancelled p then Some (upd_seg i (stop i) p) else None
      | (Sending v, Send) \<Rightarrow> Some (upd_seg i (\<lambda>seg. seg\<lparr>ctl := Polling, seg_sent := seg_sent seg @ [v]\<rparr>) p)
      | (Draining, Drain) \<Rightarrow>
          (case source_next stages i p of
             None \<Rightarrow> None
           | Some v \<Rightarrow> Some (upd_seg i (\<lambda>seg. seg\<lparr>drained := drained seg @ [v]\<rparr>) p))
      | (Draining, DrainEnd) \<Rightarrow>
          if source_closed i p then Some (upd_seg i (\<lambda>seg. seg\<lparr>ctl := Stopped\<rparr>) p) else None
      | _ \<Rightarrow> None)"

subsection \<open>The whole pipeline\<close>

text \<open>
  Forwarders, the stages noticing that their input is closed and closing their output, and the caller closing \<open>done\<close>. A
  receiver that is not ready only delays a \<open>Send\<close>.
\<close>

datatype pipe_action =
    Fwd nat fwd_action
  | StageSeesClosed nat
  | StageCloses nat
  | CloseDone

definition pipe_step :: "'v stage list \<Rightarrow> pipe_action \<Rightarrow> 'v pipe \<Rightarrow> 'v pipe option" where
  "pipe_step stages a p =
     (case a of
        Fwd i f \<Rightarrow> if i \<le> length stages then forward_action stages i f p else None
      | StageSeesClosed j \<Rightarrow>
          if j < length stages \<and> out_closed (segments p ! j) \<and> \<not> stage_in_closed (segments p ! Suc j)
          then Some (upd_seg (Suc j) (\<lambda>seg. seg\<lparr>stage_in_closed := True\<rparr>) p) else None
      | StageCloses j \<Rightarrow>
          if j < length stages \<and> stage_in_closed (segments p ! Suc j) \<and> \<not> stage_out_closed (segments p ! Suc j) \<and>
             seg_got (segments p ! Suc j) @ drained (segments p ! Suc j) = (stages ! j) (seg_sent (segments p ! j))
          then Some (upd_seg (Suc j) (\<lambda>seg. seg\<lparr>stage_out_closed := True\<rparr>) p) else None
      | CloseDone \<Rightarrow> if cancelled p then None else Some (p\<lparr>cancelled := True\<rparr>))"

fun pipe_run :: "'v stage list \<Rightarrow> pipe_action list \<Rightarrow> 'v pipe \<Rightarrow> 'v pipe option" where
  "pipe_run stages [] p = Some p"
| "pipe_run stages (a # as) p = (case pipe_step stages a p of None \<Rightarrow> None | Some p' \<Rightarrow> pipe_run stages as p')"

text \<open>The channel \<open>ExecutePipeline\<close> returns: what was received from it, and whether it is closed.\<close>

definition output_of :: "'v pipe \<Rightarrow> 'v list" where
  "output_of p = seg_sent (last (segments p))"

definition output_closed :: "'v pipe \<Rightarrow> bool" where
  "output_closed p \<longleftrightarrow> out_closed (last (segments p))"

subsection \<open>Invariant\<close>

text \<open>A forwarder passes on what it gets, one value at a time, and closes its output when it stops.\<close>

definition own_ok :: "bool \<Rightarrow> 'v segment \<Rightarrow> bool" where
  "own_ok c seg \<longleftrightarrow>
     (case ctl seg of
        Polling \<Rightarrow> seg_got seg = seg_sent seg \<and> drained seg = [] \<and> \<not> out_closed seg
      | Receiving \<Rightarrow> seg_got seg = seg_sent seg \<and> drained seg = [] \<and> \<not> out_closed seg
      | Sending v \<Rightarrow> seg_got seg = seg_sent seg @ [v] \<and> drained seg = [] \<and> \<not> out_closed seg
      | _ \<Rightarrow> prefix (seg_sent seg) (seg_got seg) \<and> out_closed seg \<and> (\<not> c \<longrightarrow> seg_got seg = seg_sent seg \<and> drained seg = []))"

text \<open>A stage has sent the right values so far, and all of them once its output is closed.\<close>

definition link_ok :: "'v stage \<Rightarrow> 'v segment \<Rightarrow> 'v segment \<Rightarrow> bool" where
  "link_ok g prev seg \<longleftrightarrow>
     prefix (seg_got seg @ drained seg) (g (seg_sent prev)) \<and>
     (stage_in_closed seg \<longrightarrow> out_closed prev) \<and>
     (stage_out_closed seg \<longrightarrow> seg_got seg @ drained seg = g (seg_sent prev) \<and> out_closed prev)"

definition head_ok :: "'v list \<Rightarrow> 'v pipe \<Rightarrow> bool" where
  "head_ok input p \<longleftrightarrow> seg_got (segments p ! 0) @ input_rest p = input \<and> drained (segments p ! 0) = []"

definition closed_ok :: "nat \<Rightarrow> 'v pipe \<Rightarrow> bool" where
  "closed_ok i p \<longleftrightarrow> (\<not> cancelled p \<and> out_closed (segments p ! i) \<longrightarrow> source_closed i p)"

definition pipe_inv :: "'v stage list \<Rightarrow> 'v list \<Rightarrow> 'v pipe \<Rightarrow> bool" where
  "pipe_inv stages input p \<longleftrightarrow>
     length (segments p) = length stages + 1 \<and> head_ok input p \<and>
     (\<forall>i \<le> length stages. own_ok (cancelled p) (segments p ! i) \<and> closed_ok i p) \<and>
     (\<forall>j < length stages. link_ok (stages ! j) (segments p ! j) (segments p ! Suc j))"

definition stages_ok :: "'v stage list \<Rightarrow> bool" where
  "stages_ok stages \<longleftrightarrow> (\<forall>g \<in> set stages. \<forall>xs ys. prefix xs ys \<longrightarrow> prefix (g xs) (g ys))"

lemma pipe_inv_start: "pipe_inv stages input (ExecutePipeline stages input cl)"
  by (auto simp: pipe_inv_def ExecutePipeline_def head_ok_def own_ok_def closed_ok_def link_ok_def new_segment_def
      nth_append simp del: replicate_Suc)

text \<open>How a segment may change from the point of view of the stage behind it.\<close>

definition grows :: "'v segment \<Rightarrow> 'v segment \<Rightarrow> bool" where
  "grows old new \<longleftrightarrow> prefix (seg_sent old) (seg_sent new) \<and> (out_closed old \<longrightarrow> out_closed new \<and> seg_sent new = seg_sent old)"

lemma link_ok_grows:
  assumes "\<And>xs ys. prefix xs ys \<Longrightarrow> prefix (g xs) (g ys)" "grows prev prev'" "link_ok g prev seg"
  shows "link_ok g prev' seg"
  using assms prefix_order.trans by (fastforce simp: link_ok_def grows_def)

lemma segments_upd:
  "i < length (segments p) \<Longrightarrow> segments (upd_seg i f p) ! j = (if j = i then f (segments p ! i) else segments p ! j)"
  "length (segments (upd_seg i f p)) = length (segments p)"
  "cancelled (upd_seg i f p) = cancelled p" "input_rest (upd_seg i f p) = input_rest p" "input_closes (upd_seg i f p) = input_closes p"
  by (auto simp: upd_seg_def)

lemma take_input_simps [simp]:
  "segments (take_input i p) = segments p" "cancelled (take_input i p) = cancelled p"
  "input_closes (take_input i p) = input_closes p"
  "input_rest (take_input i p) = (if i = 0 then tl (input_rest p) else input_rest p)"
  by (simp_all add: take_input_def)

lemma pipe_inv_update:
  assumes inv: "pipe_inv stages input p" and st: "stages_ok stages" and i: "i \<le> length stages"
    and own: "own_ok (cancelled p) (f (segments p ! i))"
    and gr: "grows (segments p ! i) (f (segments p ! i))"
    and link: "\<And>j. i = Suc j \<Longrightarrow> link_ok (stages ! j) (segments p ! j) (f (segments p ! i))"
    and head: "i = 0 \<Longrightarrow> seg_got (f (segments p ! 0)) @ input_rest q = input \<and> drained (f (segments p ! 0)) = []"
    and q: "segments q = segments p" "cancelled q = cancelled p" "input_closes q = input_closes p"
      "i \<noteq> 0 \<Longrightarrow> input_rest q = input_rest p" "input_rest p = [] \<Longrightarrow> input_rest q = []"
    and closed: "\<not> cancelled p \<Longrightarrow> out_closed (f (segments p ! i)) \<Longrightarrow> source_closed i (upd_seg i f q)"
    and keep: "stage_out_closed (segments p ! i) \<Longrightarrow> stage_out_closed (f (segments p ! i))"
  shows "pipe_inv stages input (upd_seg i f q)"
proof -
  have len: "i < length (segments q)" using inv i q(1) by (simp add: pipe_inv_def)
  note up = segments_upd(1) [OF len, of f] segments_upd(2-)
  have mono: "prefix ((stages ! j) xs) ((stages ! j) ys)" if "j < length stages" "prefix xs ys" for j xs ys
    using st that by (auto simp: stages_ok_def)
  have links: "link_ok (stages ! j) (segments (upd_seg i f q) ! j) (segments (upd_seg i f q) ! Suc j)"
    if j: "j < length stages" for j
  proof -
    have old: "link_ok (stages ! j) (segments p ! j) (segments p ! Suc j)" using inv j by (simp add: pipe_inv_def)
    consider "i = j" | "i = Suc j" | "i \<noteq> j" "i \<noteq> Suc j" by blast
    then show ?thesis
    proof cases
      case 1
      have "segments (upd_seg i f q) ! j = f (segments p ! i)" "segments (upd_seg i f q) ! Suc j = segments p ! Suc j"
        using 1 up(1) [of j] up(1) [of "Suc j"] by (simp_all add: q)
      then show ?thesis using link_ok_grows [OF mono [OF j] _ old] gr 1 by simp
    next
      case 2
      have "segments (upd_seg i f q) ! j = segments p ! j" "segments (upd_seg i f q) ! Suc j = f (segments p ! i)"
        using 2 up(1) [of j] up(1) [of "Suc j"] by (simp_all add: q)
      then show ?thesis using link 2 by simp
    qed (use old in \<open>simp add: up q\<close>)
  qed
  have own': "own_ok (cancelled (upd_seg i f q)) (segments (upd_seg i f q) ! k)" if "k \<le> length stages" for k
    using inv own that by (simp add: up q pipe_inv_def)
  have closed': "closed_ok k (upd_seg i f q)" if "k \<le> length stages" for k
  proof (cases "k = i")
    case True
    then show ?thesis using closed by (simp add: closed_ok_def up q)
  next
    case False
    then have "closed_ok k p" using inv that by (simp add: pipe_inv_def)
    then show ?thesis using False q(4,5) by (cases k) (auto simp: closed_ok_def source_closed_def up q)
  qed
  have "head_ok input (upd_seg i f q)"
    using inv head q(4) up(1) [of 0] by (cases "i = 0") (simp_all add: head_ok_def up q pipe_inv_def)
  then show ?thesis using links own' closed' inv by (simp add: pipe_inv_def up q)
qed

text \<open>Every action keeps the invariant.\<close>

lemma pipe_inv_at:
  assumes "pipe_inv stages input p" "i \<le> length stages"
  shows "own_ok (cancelled p) (segments p ! i)" "closed_ok i p" "i < length (segments p)"
    "i = Suc j \<Longrightarrow> link_ok (stages ! j) (segments p ! j) (segments p ! i)"
    "seg_got (segments p ! 0) @ input_rest p = input" "drained (segments p ! 0) = []"
  using assms by (auto simp: pipe_inv_def head_ok_def)

lemma stop_ok:
  assumes inv: "pipe_inv stages input p" and st: "stages_ok stages" and i: "i \<le> length stages"
    and c: "cancelled p" and live: "\<not> out_closed (segments p ! i)"
  shows "pipe_inv stages input (upd_seg i (stop i) p)"
proof (rule pipe_inv_update [OF inv st i])
  note at = pipe_inv_at [OF inv i]
  show "own_ok (cancelled p) (stop i (segments p ! i))"
    using at(1) live c by (auto simp: own_ok_def stop_def split: control.splits)
  show "grows (segments p ! i) (stop i (segments p ! i))" by (simp add: grows_def stop_def live)
  show "link_ok (stages ! j) (segments p ! j) (stop i (segments p ! i))" if "i = Suc j" for j
    using at(4) [OF that] by (simp add: link_ok_def stop_def)
  show "seg_got (stop i (segments p ! 0)) @ input_rest p = input \<and> drained (stop i (segments p ! 0)) = []" if "i = 0"
    using at(5,6) by (simp add: stop_def)
qed (use c in \<open>simp_all add: stop_def\<close>)

lemma source_next_link:
  assumes inv: "pipe_inv stages input p" and i: "i \<le> length stages" and nxt: "source_next stages i p = Some v"
  shows "i = 0 \<Longrightarrow> input_rest p = v # tl (input_rest p)"
    and "i = Suc j \<Longrightarrow> prefix (seg_got (segments p ! i) @ drained (segments p ! i) @ [v]) ((stages ! j) (seg_sent (segments p ! j)))
      \<and> \<not> stage_out_closed (segments p ! i)"
proof -
  show "input_rest p = v # tl (input_rest p)" if "i = 0" using nxt that by (auto simp: source_next_def split: list.splits)
  show "prefix (seg_got (segments p ! i) @ drained (segments p ! i) @ [v]) ((stages ! j) (seg_sent (segments p ! j)))
      \<and> \<not> stage_out_closed (segments p ! i)" if j: "i = Suc j"
  proof -
    have "prefix (seg_got (segments p ! i) @ drained (segments p ! i)) ((stages ! j) (seg_sent (segments p ! j)))"
      using pipe_inv_at(4) [OF inv i j] by (simp add: link_ok_def)
    then obtain zs where zs: "(stages ! j) (seg_sent (segments p ! j)) = (seg_got (segments p ! i) @ drained (segments p ! i)) @ zs"
      by (rule prefixE)
    then have "zs = v # tl zs" "\<not> stage_out_closed (segments p ! i)"
      using nxt j by (cases zs; auto simp: source_next_def stage_next_def Let_def nth_append split: if_splits)+
    then show ?thesis using zs by (metis append.assoc append_Cons append_Nil prefixI)
  qed
qed

lemma receive_ok:
  assumes inv: "pipe_inv stages input p" and st: "stages_ok stages" and i: "i \<le> length stages"
    and ctl: "ctl (segments p ! i) = Receiving" and nxt: "source_next stages i p = Some v"
  shows "pipe_inv stages input (upd_seg i (\<lambda>seg. seg\<lparr>ctl := Sending v, seg_got := seg_got seg @ [v]\<rparr>) (take_input i p))"
proof (rule pipe_inv_update [OF inv st i])
  note at = pipe_inv_at [OF inv i] and nx = source_next_link [OF inv i nxt]
  have own: "seg_got (segments p ! i) = seg_sent (segments p ! i)" "drained (segments p ! i) = []" "\<not> out_closed (segments p ! i)"
    using at(1) ctl by (simp_all add: own_ok_def)
  then show "own_ok (cancelled p) ((segments p ! i)\<lparr>ctl := Sending v, seg_got := seg_got (segments p ! i) @ [v]\<rparr>)"
    by (simp add: own_ok_def)
  show "link_ok (stages ! j) (segments p ! j) ((segments p ! i)\<lparr>ctl := Sending v, seg_got := seg_got (segments p ! i) @ [v]\<rparr>)"
    if "i = Suc j" for j using at(4) [OF that] nx(2) [OF that] own(2) by (simp add: link_ok_def)
  show "seg_got ((segments p ! 0)\<lparr>ctl := Sending v, seg_got := seg_got (segments p ! 0) @ [v]\<rparr>) @ input_rest (take_input i p) = input \<and>
      drained ((segments p ! 0)\<lparr>ctl := Sending v, seg_got := seg_got (segments p ! 0) @ [v]\<rparr>) = []" if "i = 0"
    using at(5,6) nx(1) [OF that] that by (cases "input_rest p") auto
qed (use pipe_inv_at(1) [OF inv i] ctl in \<open>simp_all add: own_ok_def grows_def\<close>)

lemma send_ok:
  assumes inv: "pipe_inv stages input p" and st: "stages_ok stages" and i: "i \<le> length stages"
    and ctl: "ctl (segments p ! i) = Sending v"
  shows "pipe_inv stages input (upd_seg i (\<lambda>seg. seg\<lparr>ctl := Polling, seg_sent := seg_sent seg @ [v]\<rparr>) p)"
  by (rule pipe_inv_update [OF inv st i])
    (use pipe_inv_at [OF inv i] ctl in \<open>auto simp: own_ok_def grows_def link_ok_def\<close>)

lemma drain_ok:
  assumes inv: "pipe_inv stages input p" and st: "stages_ok stages" and i: "i \<le> length stages" "i \<noteq> 0"
    and ctl: "ctl (segments p ! i) = Draining" and nxt: "source_next stages i p = Some v"
  shows "pipe_inv stages input (upd_seg i (\<lambda>seg. seg\<lparr>drained := drained seg @ [v]\<rparr>) p)"
proof (rule pipe_inv_update [OF inv st i(1)])
  note at = pipe_inv_at [OF inv i(1)] and nx = source_next_link [OF inv i(1) nxt]
  obtain j where j: "i = Suc j" using i(2) by (cases i) auto
  have c: "cancelled p"
  proof (rule ccontr)
    assume "\<not> cancelled p"
    then have "source_closed i p" using at(1,2) ctl by (simp add: closed_ok_def own_ok_def)
    then show False using nx(2) [OF j] by (simp add: source_closed_def j)
  qed
  show "own_ok (cancelled p) ((segments p ! i)\<lparr>drained := drained (segments p ! i) @ [v]\<rparr>)"
    using at(1) ctl c by (simp add: own_ok_def)
  show "link_ok (stages ! k) (segments p ! k) ((segments p ! i)\<lparr>drained := drained (segments p ! i) @ [v]\<rparr>)"
    if "i = Suc k" for k using at(4) [OF that] nx(2) [OF that] by (simp add: link_ok_def)
  show "source_closed i (upd_seg i (\<lambda>seg. seg\<lparr>drained := drained seg @ [v]\<rparr>) p)" if "\<not> cancelled p" using that c by simp
qed (use i in \<open>simp_all add: grows_def\<close>)

lemma source_closed_upd:
  assumes "i < length (segments p)" "stage_out_closed (f (segments p ! i)) = stage_out_closed (segments p ! i)"
  shows "source_closed i (upd_seg i f p) = source_closed i p"
  using assms by (cases i) (simp_all add: source_closed_def segments_upd)

lemma finish_ok:
  assumes inv: "pipe_inv stages input p" and st: "stages_ok stages" and i: "i \<le> length stages"
    and cl: "source_closed i p" and ctl: "ctl (segments p ! i) = Receiving"
  shows "pipe_inv stages input (upd_seg i (\<lambda>seg. seg\<lparr>ctl := Stopped, out_closed := True\<rparr>) p)"
  by (rule pipe_inv_update [OF inv st i])
    (use pipe_inv_at [OF inv i] ctl cl in \<open>auto simp: own_ok_def grows_def link_ok_def source_closed_upd\<close>)

lemma drain_end_ok:
  assumes inv: "pipe_inv stages input p" and st: "stages_ok stages" and i: "i \<le> length stages"
    and cl: "source_closed i p" and ctl: "ctl (segments p ! i) = Draining"
  shows "pipe_inv stages input (upd_seg i (\<lambda>seg. seg\<lparr>ctl := Stopped\<rparr>) p)"
  by (rule pipe_inv_update [OF inv st i])
    (use pipe_inv_at [OF inv i] ctl cl in \<open>auto simp: own_ok_def grows_def link_ok_def source_closed_upd\<close>)

lemma poll_ok:
  assumes inv: "pipe_inv stages input p" and st: "stages_ok stages" and i: "i \<le> length stages"
    and ctl: "ctl (segments p ! i) = Polling"
  shows "pipe_inv stages input (upd_seg i (\<lambda>seg. seg\<lparr>ctl := Receiving\<rparr>) p)"
  by (rule pipe_inv_update [OF inv st i])
    (use pipe_inv_at [OF inv i] ctl in \<open>auto simp: own_ok_def grows_def link_ok_def\<close>)

text \<open>The forwarder of the input never drains.\<close>

definition no_drain :: "'v pipe \<Rightarrow> bool" where
  "no_drain p \<longleftrightarrow> ctl (segments p ! 0) \<noteq> Draining"

lemma forward_inv:
  assumes inv: "pipe_inv stages input p" "no_drain p" and st: "stages_ok stages" and i: "i \<le> length stages"
    and run: "forward_action stages i a p = Some p'"
  shows "pipe_inv stages input p'"
proof (cases "ctl (segments p ! i)")
  case Polling
  then have "\<not> out_closed (segments p ! i)" using pipe_inv_at(1) [OF inv(1) i] by (simp add: own_ok_def)
  with Polling show ?thesis using run poll_ok [OF inv(1) st i] stop_ok [OF inv(1) st i]
    by (cases a) (auto simp: forward_action_def Let_def split: if_splits)
next
  case Receiving
  then have "\<not> out_closed (segments p ! i)" using pipe_inv_at(1) [OF inv(1) i] by (simp add: own_ok_def)
  with Receiving show ?thesis
    using run receive_ok [OF inv(1) st i] stop_ok [OF inv(1) st i] finish_ok [OF inv(1) st i]
    by (cases a) (auto simp: forward_action_def Let_def split: if_splits option.splits)
next
  case (Sending v)
  then have "\<not> out_closed (segments p ! i)" using pipe_inv_at(1) [OF inv(1) i] by (simp add: own_ok_def)
  with Sending show ?thesis using run send_ok [OF inv(1) st i Sending] stop_ok [OF inv(1) st i]
    by (cases a) (auto simp: forward_action_def Let_def split: if_splits)
next
  case Draining
  then have "i \<noteq> 0" using inv(2) by (cases i) (auto simp: no_drain_def)
  with Draining show ?thesis using run drain_ok [OF inv(1) st i] drain_end_ok [OF inv(1) st i]
    by (cases a) (auto simp: forward_action_def Let_def split: if_splits option.splits)
next
  case Stopped
  then show ?thesis using run by (cases a) (auto simp: forward_action_def Let_def)
qed

lemma no_drain_forward:
  assumes "no_drain p" "i < length (segments p)" "forward_action stages i a p = Some p'"
  shows "no_drain p'"
  using assms
  by (cases "ctl (segments p ! i)"; cases a)
    (auto simp: forward_action_def no_drain_def Let_def segments_upd stop_def split: if_splits option.splits)

lemma pipe_step_inv:
  assumes inv: "pipe_inv stages input p" "no_drain p" and st: "stages_ok stages" and run: "pipe_step stages a p = Some p'"
  shows "pipe_inv stages input p' \<and> no_drain p'"
proof (cases a)
  case (Fwd i f)
  then have "i \<le> length stages" "forward_action stages i f p = Some p'" using run by (auto simp: pipe_step_def split: if_splits)
  then show ?thesis using forward_inv [OF inv st] no_drain_forward [OF inv(2)] pipe_inv_at(3) [OF inv(1)] by blast
next
  case (StageSeesClosed j)
  then have j: "Suc j \<le> length stages" "out_closed (segments p ! j)"
    "p' = upd_seg (Suc j) (\<lambda>seg. seg\<lparr>stage_in_closed := True\<rparr>) p" using run by (auto simp: pipe_step_def split: if_splits)
  have "pipe_inv stages input p'" unfolding j(3)
    by (rule pipe_inv_update [OF inv(1) st j(1)])
      (use pipe_inv_at [OF inv(1) j(1)] j(2) in \<open>auto simp: own_ok_def grows_def link_ok_def closed_ok_def source_closed_upd
        split: control.splits\<close>)
  then show ?thesis using inv(2) pipe_inv_at(3) [OF inv(1) j(1)] by (simp add: no_drain_def j(3) segments_upd)
next
  case (StageCloses j)
  then have j: "Suc j \<le> length stages" "stage_in_closed (segments p ! Suc j)"
    "seg_got (segments p ! Suc j) @ drained (segments p ! Suc j) = (stages ! j) (seg_sent (segments p ! j))"
    "p' = upd_seg (Suc j) (\<lambda>seg. seg\<lparr>stage_out_closed := True\<rparr>) p" using run by (auto simp: pipe_step_def split: if_splits)
  have "pipe_inv stages input p'" unfolding j(4)
    by (rule pipe_inv_update [OF inv(1) st j(1)])
      (use pipe_inv_at [OF inv(1) j(1)] j(2,3) in \<open>auto simp: own_ok_def grows_def link_ok_def source_closed_def segments_upd
        split: control.splits\<close>)
  then show ?thesis using inv(2) pipe_inv_at(3) [OF inv(1) j(1)] by (simp add: no_drain_def j(4) segments_upd)
next
  case CloseDone
  then have "p' = p\<lparr>cancelled := True\<rparr>" using run by (auto simp: pipe_step_def split: if_splits)
  then show ?thesis using inv
    by (auto simp: pipe_inv_def head_ok_def own_ok_def closed_ok_def no_drain_def split: control.splits)
qed

text \<open>A forwarder behind a stage comes to its end only after the stage has closed its output.\<close>

definition stopped_ok :: "'v pipe \<Rightarrow> bool" where
  "stopped_ok p \<longleftrightarrow> (\<forall>j. Suc j < length (segments p) \<longrightarrow> ctl (segments p ! Suc j) = Stopped \<longrightarrow> stage_out_closed (segments p ! Suc j))"

lemma stopped_ok_update:
  assumes "stopped_ok p" "segments q = segments p" "i < length (segments p)"
    and "i \<noteq> 0 \<Longrightarrow> ctl (f (segments p ! i)) = Stopped \<Longrightarrow> stage_out_closed (f (segments p ! i))"
  shows "stopped_ok (upd_seg i f q)"
  using assms by (auto simp: stopped_ok_def segments_upd)

lemma stopped_ok_forward:
  assumes ok: "stopped_ok p" and i: "i < length (segments p)" and run: "forward_action stages i a p = Some p'"
  shows "stopped_ok p'"
proof -
  have closed: "source_closed i p \<Longrightarrow> i \<noteq> 0 \<Longrightarrow> stage_out_closed (segments p ! i)" by (cases i) (simp_all add: source_closed_def)
  note upd = stopped_ok_update [OF ok _ i]
  show ?thesis
    using run closed
    by (cases "ctl (segments p ! i)"; cases a)
      (auto simp: forward_action_def Let_def stop_def intro!: upd split: if_splits option.splits)
qed

lemma stopped_ok_step:
  assumes "stopped_ok p" "length (segments p) = length stages + 1" "pipe_step stages a p = Some p'"
  shows "stopped_ok p'"
proof (cases a)
  case (Fwd i f)
  then show ?thesis using assms stopped_ok_forward [OF assms(1), of i stages f p'] by (auto simp: pipe_step_def split: if_splits)
next
  case CloseDone
  then have "p' = p\<lparr>cancelled := True\<rparr>" using assms(3) by (auto simp: pipe_step_def split: if_splits)
  then show ?thesis using assms(1) by (simp add: stopped_ok_def)
qed (use assms in \<open>auto simp: pipe_step_def stopped_ok_def segments_upd split: if_splits\<close>)

definition pipe_good :: "'v stage list \<Rightarrow> 'v list \<Rightarrow> 'v pipe \<Rightarrow> bool" where
  "pipe_good stages input p \<longleftrightarrow> pipe_inv stages input p \<and> no_drain p \<and> stopped_ok p"

lemma pipe_run_good:
  "pipe_run stages as p = Some p' \<Longrightarrow> stages_ok stages \<Longrightarrow> pipe_good stages input p \<Longrightarrow> pipe_good stages input p'"
proof (induction as arbitrary: p)
  case (Cons a as)
  then obtain p1 where p1: "pipe_step stages a p = Some p1" "pipe_run stages as p1 = Some p'" by (auto split: option.splits)
  have "pipe_good stages input p1"
    using Cons.prems(2,3) pipe_step_inv [OF _ _ _ p1(1)] stopped_ok_step [OF _ _ p1(1)]
    by (auto simp: pipe_good_def pipe_inv_def)
  then show ?case using Cons.IH [OF p1(2)] Cons.prems(2) by blast
qed simp

lemma pipe_reached_inv:
  assumes "pipe_run stages as (ExecutePipeline stages input cl) = Some p" "stages_ok stages"
  shows "pipe_inv stages input p" "no_drain p" "stopped_ok p"
proof -
  have "no_drain (ExecutePipeline stages input cl)" "stopped_ok (ExecutePipeline stages input cl)"
    by (auto simp: no_drain_def stopped_ok_def ExecutePipeline_def new_segment_def simp del: replicate_Suc)
  then have "pipe_good stages input p"
    using pipe_run_good [OF assms, of input] pipe_inv_start [of stages input cl] by (simp add: pipe_good_def)
  then show "pipe_inv stages input p" "no_drain p" "stopped_ok p" by (simp_all add: pipe_good_def)
qed

subsection \<open>Composition\<close>

text \<open>The values that the stages make of the input, one after the other.\<close>

fun through :: "'v stage list \<Rightarrow> 'v list \<Rightarrow> 'v list" where
  "through [] xs = xs"
| "through (g # gs) xs = through gs (g xs)"

lemma through_append: "through (gs @ hs) xs = through hs (through gs xs)"
  by (induction gs arbitrary: xs) auto

lemma through_take_Suc: "j < length stages \<Longrightarrow> through (take (Suc j) stages) xs = (stages ! j) (through (take j stages) xs)"
  by (simp add: take_Suc_conv_app_nth through_append)

lemma stage_mono: "stages_ok stages \<Longrightarrow> j < length stages \<Longrightarrow> prefix xs ys \<Longrightarrow> prefix ((stages ! j) xs) ((stages ! j) ys)"
  by (auto simp: stages_ok_def)

lemma sent_prefix_got: "own_ok c seg \<Longrightarrow> prefix (seg_sent seg) (seg_got seg)"
  by (auto simp: own_ok_def split: control.splits)

lemma segment_values:
  assumes inv: "pipe_inv stages input p" and st: "stages_ok stages"
  shows "i \<le> length stages \<Longrightarrow> prefix (seg_sent (segments p ! i)) (through (take i stages) input)"
proof (induction i)
  case 0
  have "prefix (seg_got (segments p ! 0)) input" using pipe_inv_at(5) [OF inv, of 0] by auto
  then show ?case using sent_prefix_got [OF pipe_inv_at(1) [OF inv, of 0]] prefix_order.trans by auto
next
  case (Suc j)
  have "prefix (seg_sent (segments p ! Suc j)) (seg_got (segments p ! Suc j))"
    by (rule sent_prefix_got [OF pipe_inv_at(1) [OF inv Suc.prems]])
  moreover have "prefix (seg_got (segments p ! Suc j)) ((stages ! j) (seg_sent (segments p ! j)))"
    using pipe_inv_at(4) [OF inv Suc.prems refl] by (auto simp: link_ok_def dest: append_prefixD)
  moreover have "prefix ((stages ! j) (seg_sent (segments p ! j))) ((stages ! j) (through (take j stages) input))"
    using Suc by (intro stage_mono [OF st]) auto
  ultimately show ?case using Suc.prems through_take_Suc [of j stages input] by (metis Suc_le_lessD prefix_order.trans)
qed

lemma segment_complete:
  assumes inv: "pipe_inv stages input p" and c: "\<not> cancelled p"
  shows "i \<le> length stages \<Longrightarrow> out_closed (segments p ! i) \<Longrightarrow>
    seg_sent (segments p ! i) = through (take i stages) input \<and> input_closes p"
proof (induction i)
  case 0
  have "seg_got (segments p ! 0) = seg_sent (segments p ! 0)"
    using pipe_inv_at(1) [OF inv 0(1)] 0(2) c by (auto simp: own_ok_def split: control.splits)
  moreover have "input_rest p = [] \<and> input_closes p"
    using pipe_inv_at(2) [OF inv 0(1)] 0(2) c by (simp add: closed_ok_def source_closed_def)
  ultimately show ?case using pipe_inv_at(5) [OF inv 0(1)] by simp
next
  case (Suc j)
  have own: "seg_got (segments p ! Suc j) = seg_sent (segments p ! Suc j)" "drained (segments p ! Suc j) = []"
    using pipe_inv_at(1) [OF inv Suc.prems(1)] Suc.prems(2) c by (auto simp: own_ok_def split: control.splits)
  have "stage_out_closed (segments p ! Suc j)"
    using pipe_inv_at(2) [OF inv Suc.prems(1)] Suc.prems(2) c by (simp add: closed_ok_def source_closed_def)
  then have "seg_sent (segments p ! Suc j) = (stages ! j) (seg_sent (segments p ! j))" "out_closed (segments p ! j)"
    using pipe_inv_at(4) [OF inv Suc.prems(1) refl] own by (auto simp: link_ok_def)
  then show ?case using Suc.IH Suc.prems(1) by (simp add: through_take_Suc)
qed

lemma last_segment: "pipe_inv stages input p \<Longrightarrow> last (segments p) = segments p ! length stages"
  by (cases "segments p = []") (auto simp: pipe_inv_def last_conv_nth)

lemma input_untouched:
  assumes "out_closed (segments p ! 0)" "pipe_inv stages input p" "no_drain p" "stages_ok stages"
  shows "pipe_run stages as p = Some q \<Longrightarrow> input_rest q = input_rest p"
  using assms
proof (induction as arbitrary: p)
  case (Cons a as)
  obtain p1 where p1: "pipe_step stages a p = Some p1" "pipe_run stages as p1 = Some q"
    using Cons.prems(1) by (auto split: option.splits)
  have inv1: "pipe_inv stages input p1" "no_drain p1" using pipe_step_inv [OF Cons.prems(3-5) p1(1)] by auto
  have stopped: "ctl (segments p ! 0) = Stopped"
    using pipe_inv_at(1) [OF Cons.prems(3), of 0] Cons.prems(2,4) by (auto simp: own_ok_def no_drain_def split: control.splits)
  have len: "i \<le> length stages \<Longrightarrow> i < length (segments p)" for i by (rule pipe_inv_at(3) [OF Cons.prems(3)])
  have "input_rest p1 = input_rest p \<and> out_closed (segments p1 ! 0)"
  proof (cases a)
    case (Fwd i f)
    then have i: "i \<le> length stages" "forward_action stages i f p = Some p1"
      using p1(1) by (auto simp: pipe_step_def split: if_splits)
    then have "i \<noteq> 0" using stopped by (cases i; cases f) (auto simp: forward_action_def Let_def)
    then show ?thesis using i(2) Cons.prems(2) len [OF i(1)]
      by (cases "ctl (segments p ! i)"; cases f)
        (auto simp: forward_action_def Let_def segments_upd split: option.splits if_splits)
  qed (use p1(1) Cons.prems(2) len in \<open>auto simp: pipe_step_def segments_upd split: if_splits\<close>)
  then show ?case using Cons.IH [OF p1(2) _ inv1 Cons.prems(5)] by simp
qed simp

text \<open>After a cancellation a forwarder that is still active can stop at once, and one that drains takes what its stage sends.\<close>

lemma stop_now:
  assumes "pipe_inv stages input p" "i \<le> length stages" "cancelled p"
  shows "out_closed (segments p ! i) \<or> (\<exists>f. forward_action stages i f p = Some (upd_seg i (stop i) p))"
proof (cases "ctl (segments p ! i)")
  case Polling
  then show ?thesis using assms(3) by (intro disjI2 exI [of _ Poll]) (simp add: forward_action_def)
next
  case Receiving
  then show ?thesis using assms(3) by (intro disjI2 exI [of _ SeeDone]) (simp add: forward_action_def)
next
  case (Sending v)
  then show ?thesis using assms(3) by (intro disjI2 exI [of _ SeeDone]) (simp add: forward_action_def)
qed (use pipe_inv_at(1) [OF assms(1,2)] in \<open>simp_all add: own_ok_def\<close>)

lemma drain_now:
  assumes "ctl (segments p ! Suc j) = Draining" "source_next stages (Suc j) p = Some v" "Suc j < length (segments p)"
    and "j < length stages"
  shows "\<exists>fs q. pipe_run stages (map (Fwd (Suc j)) fs) p = Some q \<and> drained (segments q ! Suc j) = drained (segments p ! Suc j) @ [v]"
  using assms by (intro exI [of _ "[Drain]"]) (simp add: pipe_step_def forward_action_def segments_upd)

subsection \<open>Properties\<close>

text \<open>
  C34: under every interleaving, and whether it is cancelled or not, the pipeline delivers a prefix of what the stages make
  of the input, in order; and when its output is closed without a cancellation, the input was closed and everything was delivered.
\<close>

theorem pipeline_delivers:
  assumes "stages_ok stages" "pipe_run stages as (ExecutePipeline stages input cl) = Some p"
  shows "prefix (output_of p) (through stages input) \<and>
    (output_closed p \<and> \<not> cancelled p \<longrightarrow> input_closes p \<and> output_of p = through stages input)"
proof -
  note inv = pipe_reached_inv [OF assms(2,1)]
  show ?thesis
    using segment_values [OF inv(1) assms(1), of "length stages"] segment_complete [OF inv(1), of "length stages"]
    by (auto simp: output_of_def output_closed_def last_segment [OF inv(1)])
qed

text \<open>
  after a cancellation the output is closed or can be closed by the next action of the last forwarder; a stage that
  has a value to send is not left waiting, because the forwarder behind it takes it, or closes its output and then drains it;
  and once the first forwarder has stopped, no further value is taken from the input of the caller.
\<close>

theorem pipeline_cancellation:
  assumes "stages_ok stages" "pipe_run stages as (ExecutePipeline stages input cl) = Some p" "cancelled p"
  shows "(output_closed p \<or> (\<exists>f q. pipe_step stages (Fwd (length stages) f) p = Some q \<and> output_closed q)) \<and>
    (\<forall>j v. j < length stages \<longrightarrow> source_next stages (Suc j) p = Some v \<longrightarrow>
      (\<exists>fs q. pipe_run stages (map (Fwd (Suc j)) fs) p = Some q \<and> drained (segments q ! Suc j) = drained (segments p ! Suc j) @ [v])) \<and>
    (\<forall>bs q. out_closed (segments p ! 0) \<longrightarrow> pipe_run stages bs p = Some q \<longrightarrow> input_rest q = input_rest p)"
proof (intro conjI allI impI)
  note inv = pipe_reached_inv [OF assms(2,1)]
  have len: "i \<le> length stages \<Longrightarrow> i < length (segments p)" for i by (rule pipe_inv_at(3) [OF inv(1)])
  show "output_closed p \<or> (\<exists>f q. pipe_step stages (Fwd (length stages) f) p = Some q \<and> output_closed q)"
  proof (cases "output_closed p")
    case False
    then obtain f where f: "forward_action stages (length stages) f p = Some (upd_seg (length stages) (stop (length stages)) p)"
      using stop_now [OF inv(1) order_refl assms(3)] by (auto simp: output_closed_def last_segment [OF inv(1)])
    have "pipe_inv stages input (upd_seg (length stages) (stop (length stages)) p)"
      by (rule forward_inv [OF inv(1,2) assms(1) order_refl f])
    then have "output_closed (upd_seg (length stages) (stop (length stages)) p)"
      using len [OF order_refl] by (simp add: output_closed_def last_segment segments_upd stop_def)
    then show ?thesis using f by (auto simp: pipe_step_def)
  qed simp
  show "\<exists>fs q. pipe_run stages (map (Fwd (Suc j)) fs) p = Some q \<and> drained (segments q ! Suc j) = drained (segments p ! Suc j) @ [v]"
    if j: "j < length stages" and v: "source_next stages (Suc j) p = Some v" for j v
  proof (cases "out_closed (segments p ! Suc j)")
    case True
    have "\<not> stage_out_closed (segments p ! Suc j)" using v by (auto simp: source_next_def stage_next_def Let_def split: if_splits)
    then have "ctl (segments p ! Suc j) = Draining"
      using True inv(3) pipe_inv_at(1) [OF inv(1), of "Suc j"] j len [of "Suc j"]
      by (cases "ctl (segments p ! Suc j)") (auto simp: stopped_ok_def own_ok_def)
    then show ?thesis using drain_now [OF _ v] j len [of "Suc j"] by simp
  next
    case False
    then obtain f where f: "forward_action stages (Suc j) f p = Some (upd_seg (Suc j) (stop (Suc j)) p)"
      using stop_now [OF inv(1) _ assms(3), of "Suc j"] j by auto
    let ?p1 = "upd_seg (Suc j) (stop (Suc j)) p"
    have p1: "ctl (segments ?p1 ! Suc j) = Draining" "Suc j < length (segments ?p1)" "source_next stages (Suc j) ?p1 = Some v"
      "drained (segments ?p1 ! Suc j) = drained (segments p ! Suc j)"
      using v j len [of "Suc j"] by (simp_all add: segments_upd stop_def source_next_def stage_next_def)
    obtain fs q where "pipe_run stages (map (Fwd (Suc j)) fs) ?p1 = Some q"
      "drained (segments q ! Suc j) = drained (segments p ! Suc j) @ [v]"
      using drain_now [OF p1(1,3,2)] j p1(4) by auto
    then have "pipe_run stages (map (Fwd (Suc j)) (f # fs)) p = Some q" using f j by (simp add: pipe_step_def)
    then show ?thesis using \<open>drained (segments q ! Suc j) = _\<close> by blast
  qed
  show "input_rest q = input_rest p" if "out_closed (segments p ! 0)" "pipe_run stages bs p = Some q" for bs q
    using input_untouched [OF that(1) inv(1,2) assms(1) that(2)] .
qed

text \<open>Two stages over numbers, one value in and one value out.\<close>

definition sample_stages :: "int stage list" where
  "sample_stages = [map (\<lambda>x. x + 1), map (\<lambda>x. 10 * x)]"

lemma sample_stages_ok: "stages_ok sample_stages"
  by (auto simp: stages_ok_def sample_stages_def map_mono_prefix)

definition sample_schedule :: "pipe_action list" where
  "sample_schedule = [Fwd 0 Poll, Fwd 0 Receive, Fwd 0 Send, Fwd 1 Poll, Fwd 1 Receive, Fwd 1 Send,
     Fwd 2 Poll, Fwd 2 Receive, Fwd 2 Send]"

definition closing_schedule :: "pipe_action list" where
  "closing_schedule = sample_schedule @ [Fwd 0 Poll, Fwd 0 SeeClosed, StageSeesClosed 0, StageCloses 0, Fwd 1 Poll, Fwd 1 SeeClosed,
     StageSeesClosed 1, StageCloses 1, Fwd 2 Poll, Fwd 2 SeeClosed]"

theorem pipeline_delivers_witness:
  "\<exists>p. pipe_run sample_stages closing_schedule (ExecutePipeline sample_stages [4] True) = Some p \<and>
     output_closed p \<and> \<not> cancelled p \<and> output_of p = [50]"
proof -
  define p where "p = the (pipe_run sample_stages closing_schedule (ExecutePipeline sample_stages [4] True))"
  have run: "pipe_run sample_stages closing_schedule (ExecutePipeline sample_stages [4] True) = Some p"
    and closed: "output_closed p" "\<not> cancelled p" unfolding p_def by code_simp+
  have "through sample_stages [4] = [50]" by code_simp
  then show ?thesis using pipeline_delivers [OF sample_stages_ok run] run closed by simp
qed

theorem pipeline_cancellation_witness:
  "\<exists>p. pipe_run sample_stages (sample_schedule @ [CloseDone]) (ExecutePipeline sample_stages [4, 5] True) = Some p \<and>
     (\<exists>f q. pipe_step sample_stages (Fwd (length sample_stages) f) p = Some q \<and> output_closed q)"
proof -
  define p where "p = the (pipe_run sample_stages (sample_schedule @ [CloseDone]) (ExecutePipeline sample_stages [4, 5] True))"
  have run: "pipe_run sample_stages (sample_schedule @ [CloseDone]) (ExecutePipeline sample_stages [4, 5] True) = Some p"
    and c: "cancelled p" "\<not> output_closed p" unfolding p_def by code_simp+
  show ?thesis using pipeline_cancellation [OF sample_stages_ok run c(1)] run c(2) by blast
qed

end
