(* ===== verification/Pipeline_Liveness.thy ===== *)
theory Pipeline_Liveness
  imports Pipeline
begin

text \<open>
  The goroutines of the pipeline come to their end: every execution of \<open>ExecutePipeline\<close> has a bounded number of actions, and
  when the input is closed or the pipeline is cancelled, some action is possible until all of its goroutines have returned.
\<close>

subsection \<open>A bound for the actions\<close>

fun rank :: "'v control \<Rightarrow> nat" where
  "rank Stopped = 0"
| "rank Draining = 1"
| "rank Receiving = 2"
| "rank Polling = 3"
| "rank (Sending v) = 4"

definition seg_work :: "nat \<Rightarrow> 'v segment \<Rightarrow> nat" where
  "seg_work n seg = 3 * (n - length (seg_got seg @ drained seg)) + rank (ctl seg) +
     of_bool (\<not> stage_in_closed seg) + of_bool (\<not> stage_out_closed seg)"

text \<open>The number of values that come to the forwarder \<open>i\<close> in all.\<close>

abbreviation arriving :: "'v stage list \<Rightarrow> 'v list \<Rightarrow> nat \<Rightarrow> nat" where
  "arriving stages input i \<equiv> length (through (take i stages) input)"

definition work :: "'v stage list \<Rightarrow> 'v list \<Rightarrow> 'v pipe \<Rightarrow> nat" where
  "work stages input p =
     (\<Sum>i\<le>length stages. seg_work (arriving stages input i) (segments p ! i)) + of_bool (\<not> cancelled p)"

lemma work_upd:
  assumes "i \<le> length stages" "i < length (segments q)" "segments q = segments p" "cancelled q = cancelled p"
    and "seg_work (arriving stages input i) (f (segments p ! i)) < seg_work (arriving stages input i) (segments p ! i)"
  shows "work stages input (upd_seg i f q) < work stages input p"
proof -
  have "(\<Sum>k\<le>length stages. seg_work (arriving stages input k) (segments (upd_seg i f q) ! k)) <
      (\<Sum>k\<le>length stages. seg_work (arriving stages input k) (segments p ! k))"
    by (rule sum_strict_mono_ex1) (use assms in \<open>auto simp: segments_upd\<close>)
  then show ?thesis using assms(4) by (simp add: work_def segments_upd)
qed

lemma taken_bound:
  assumes inv: "pipe_inv stages input p" and st: "stages_ok stages" and i: "i \<le> length stages" and nxt: "source_next stages i p = Some v"
  shows "length (seg_got (segments p ! i) @ drained (segments p ! i)) < arriving stages input i"
proof (cases i)
  case 0
  then show ?thesis using pipe_inv_at(5,6) [OF inv i] source_next_link(1) [OF inv i nxt]
    by (metis append_Nil2 length_append less_add_same_cancel1 length_greater_0_conv list.distinct(1) take_0 through.simps(1))
next
  case (Suc j)
  have "prefix (seg_got (segments p ! i) @ drained (segments p ! i) @ [v]) ((stages ! j) (seg_sent (segments p ! j)))"
    using source_next_link(2) [OF inv i nxt Suc] by blast
  also have "prefix \<dots> ((stages ! j) (through (take j stages) input))"
    using segment_values [OF inv st, of j] i Suc by (intro stage_mono [OF st]) auto
  finally show ?thesis using i Suc by (auto simp: through_take_Suc dest: prefix_length_le)
qed

lemma forward_work:
  assumes inv: "pipe_inv stages input p" and st: "stages_ok stages" and i: "i \<le> length stages"
    and run: "forward_action stages i a p = Some q"
  shows "work stages input q < work stages input p"
proof -
  have len: "i < length (segments p)" by (rule pipe_inv_at(3) [OF inv i])
  note up = work_upd [OF i, where p = p and input = input]
  show ?thesis
    using run taken_bound [OF inv st i] len
    by (cases "ctl (segments p ! i)"; cases a)
      (auto simp: forward_action_def Let_def seg_work_def stop_def intro!: up split: if_splits option.splits)
qed

lemma pipe_step_work:
  assumes inv: "pipe_inv stages input p" and st: "stages_ok stages" and run: "pipe_step stages a p = Some q"
  shows "work stages input q < work stages input p"
proof (cases a)
  case (Fwd i f)
  then show ?thesis using run forward_work [OF inv st] by (auto simp: pipe_step_def split: if_splits)
next
  case CloseDone
  then show ?thesis using run by (auto simp: pipe_step_def work_def split: if_splits)
qed (use run pipe_inv_at(3) [OF inv] in \<open>auto simp: pipe_step_def seg_work_def intro!: work_upd split: if_splits\<close>)

lemma pipe_run_work:
  "pipe_run stages as p = Some q \<Longrightarrow> stages_ok stages \<Longrightarrow> pipe_inv stages input p \<Longrightarrow> no_drain p \<Longrightarrow>
    length as + work stages input q \<le> work stages input p"
proof (induction as arbitrary: p)
  case (Cons a as)
  then obtain p1 where p1: "pipe_step stages a p = Some p1" "pipe_run stages as p1 = Some q" by (auto split: option.splits)
  have inv: "pipe_inv stages input p1" "no_drain p1" using pipe_step_inv [OF Cons.prems(3,4,2) p1(1)] by auto
  show ?case using Cons.IH [OF p1(2) Cons.prems(2) inv] pipe_step_work [OF Cons.prems(3,2) p1(1)] by simp
qed simp

lemma work_start: "work stages input (ExecutePipeline stages input cl) = (\<Sum>i\<le>length stages. 3 * arriving stages input i + 5) + 1"
proof -
  have "segments (ExecutePipeline stages input cl) ! i = new_segment" if "i \<le> length stages" for i
    using that by (simp add: ExecutePipeline_def del: replicate_Suc)
  then have "(\<Sum>i\<le>length stages. seg_work (arriving stages input i) (segments (ExecutePipeline stages input cl) ! i)) =
      (\<Sum>i\<le>length stages. 3 * arriving stages input i + 5)"
    by (intro sum.cong) (simp_all add: seg_work_def new_segment_def)
  then show ?thesis by (simp add: work_def ExecutePipeline_def)
qed

subsection \<open>Progress\<close>

text \<open>
  A stage that works on one value after the other receives only when it has sent everything it had to send. A send to such
  a stage has a ready receiver; the receiver of the last forwarder is the reader of the output.
\<close>

definition receiver_ready :: "'v stage list \<Rightarrow> 'v pipe \<Rightarrow> pipe_action \<Rightarrow> bool" where
  "receiver_ready stages p a \<longleftrightarrow>
     (case a of
        Fwd i Send \<Rightarrow> i < length stages \<longrightarrow>
          seg_got (segments p ! Suc i) @ drained (segments p ! Suc i) = (stages ! i) (seg_sent (segments p ! i))
      | _ \<Rightarrow> True)"

definition can_move :: "'v stage list \<Rightarrow> 'v pipe \<Rightarrow> bool" where
  "can_move stages p \<longleftrightarrow> (\<exists>a q. a \<noteq> CloseDone \<and> receiver_ready stages p a \<and> pipe_step stages a p = Some q)"

lemma can_moveI: "pipe_step stages a p = Some q \<Longrightarrow> a \<noteq> CloseDone \<Longrightarrow> receiver_ready stages p a \<Longrightarrow> can_move stages p"
  by (auto simp: can_move_def)

lemma forward_moves:
  "forward_action stages i f p = Some q \<Longrightarrow> i \<le> length stages \<Longrightarrow> f \<noteq> Send \<Longrightarrow> can_move stages p"
  by (rule can_moveI [of stages "Fwd i f" p q]) (auto simp: pipe_step_def receiver_ready_def split: fwd_action.splits)

lemma exhausted:
  assumes "pipe_inv stages input p" "Suc j \<le> length stages" "source_next stages (Suc j) p = None"
    and "\<not> stage_out_closed (segments p ! Suc j)"
  shows "seg_got (segments p ! Suc j) @ drained (segments p ! Suc j) = (stages ! j) (seg_sent (segments p ! j))"
proof -
  have "length ((stages ! j) (seg_sent (segments p ! j))) \<le> length (seg_got (segments p ! Suc j) @ drained (segments p ! Suc j))"
    using assms(3,4) by (auto simp: source_next_def stage_next_def Let_def split: if_splits)
  moreover have "prefix (seg_got (segments p ! Suc j) @ drained (segments p ! Suc j)) ((stages ! j) (seg_sent (segments p ! j)))"
    using pipe_inv_at(4) [OF assms(1,2) refl] by (simp add: link_ok_def)
  ultimately show ?thesis by (metis append_eq_conv_conj prefix_def take_all)
qed

text \<open>A forwarder that waits for a stage whose input is closed: a value, the end, or the stage itself is about to move.\<close>

lemma fed_moves:
  assumes inv: "pipe_inv stages input p" and j: "Suc j \<le> length stages" and cl: "out_closed (segments p ! j)"
    and c: "ctl (segments p ! Suc j) = Receiving \<or> ctl (segments p ! Suc j) = Draining"
  shows "can_move stages p"
proof (cases "source_next stages (Suc j) p")
  case (Some v)
  then show ?thesis using c j
    by (auto simp: forward_action_def intro: forward_moves [of stages "Suc j" Receive] forward_moves [of stages "Suc j" Drain])
next
  case None
  show ?thesis
  proof (cases "stage_out_closed (segments p ! Suc j)")
    case True
    then show ?thesis using c j
      by (auto simp: forward_action_def source_closed_def intro: forward_moves [of stages "Suc j" SeeClosed] forward_moves [of stages "Suc j" DrainEnd])
  next
    case False
    note all = exhausted [OF inv j None False]
    show ?thesis
      using False all j cl
      by (cases "stage_in_closed (segments p ! Suc j)")
        (auto simp: pipe_step_def receiver_ready_def intro: can_moveI [of stages "StageCloses j"] can_moveI [of stages "StageSeesClosed j"])
  qed
qed

lemma polling_moves: "ctl (segments p ! i) = Polling \<Longrightarrow> i \<le> length stages \<Longrightarrow> can_move stages p"
  by (rule forward_moves [of stages i Poll p]) (simp_all add: forward_action_def)

lemma cancelled_moves:
  assumes inv: "pipe_inv stages input p" "no_drain p" and c: "cancelled p" and i: "i \<le> length stages"
    and run: "ctl (segments p ! i) \<noteq> Stopped"
  shows "can_move stages p"
proof -
  have active: "can_move stages p" if k: "k \<le> length stages" "\<not> out_closed (segments p ! k)" for k
  proof -
    obtain f where f: "forward_action stages k f p = Some (upd_seg k (stop k) p)" using stop_now [OF inv(1) k(1) c] k(2) by blast
    show ?thesis
    proof (cases "f = Send")
      case True
      then obtain v where "ctl (segments p ! k) = Sending v"
        using f by (cases "ctl (segments p ! k)") (auto simp: forward_action_def Let_def)
      then show ?thesis using c k(1) by (intro forward_moves [of stages k SeeDone p]) (simp_all add: forward_action_def)
    qed (use forward_moves [OF f k(1)] in simp)
  qed
  show ?thesis
  proof (cases "out_closed (segments p ! i)")
    case True
    then have d: "ctl (segments p ! i) = Draining"
      using pipe_inv_at(1) [OF inv(1) i] run by (auto simp: own_ok_def split: control.splits)
    then obtain j where j: "i = Suc j" using inv(2) by (cases i) (auto simp: no_drain_def)
    show ?thesis using fed_moves [OF inv(1), of j] active [of j] d i j by auto
  qed (use active i in blast)
qed

text \<open>Without a cancellation the last forwarder that sends can do so, and else the first one that has not returned moves.\<close>

lemma sending_moves:
  assumes inv: "pipe_inv stages input p" and c: "\<not> cancelled p" and i: "i \<le> length stages" and snd_i: "ctl (segments p ! i) = Sending v"
    and behind: "\<And>k w. i < k \<Longrightarrow> k \<le> length stages \<Longrightarrow> ctl (segments p ! k) \<noteq> Sending w"
  shows "can_move stages p"
proof (cases "i = length stages")
  case True
  then show ?thesis using snd_i
    by (intro can_moveI [of stages "Fwd i Send" p]) (simp_all add: pipe_step_def forward_action_def receiver_ready_def)
next
  case False
  with i have si: "Suc i \<le> length stages" by simp
  have open_i: "\<not> out_closed (segments p ! i)" using pipe_inv_at(1) [OF inv i] snd_i by (simp add: own_ok_def)
  then have open_s: "\<not> stage_out_closed (segments p ! Suc i)" using pipe_inv_at(4) [OF inv si refl] by (auto simp: link_ok_def)
  then have "\<not> out_closed (segments p ! Suc i)" using pipe_inv_at(2) [OF inv si] c by (auto simp: closed_ok_def source_closed_def)
  then consider "ctl (segments p ! Suc i) = Polling" | "ctl (segments p ! Suc i) = Receiving"
    using pipe_inv_at(1) [OF inv si] behind [of "Suc i"] si by (cases "ctl (segments p ! Suc i)") (auto simp: own_ok_def)
  then show ?thesis
  proof cases
    case 2
    show ?thesis
    proof (cases "source_next stages (Suc i) p")
      case None
      from exhausted [OF inv si None open_s] show ?thesis using snd_i i
        by (intro can_moveI [of stages "Fwd i Send" p]) (simp_all add: pipe_step_def forward_action_def receiver_ready_def)
    qed (use 2 si in \<open>auto simp: forward_action_def intro: forward_moves [of stages "Suc i" Receive]\<close>)
  qed (use polling_moves si in blast)
qed

lemma waiting_moves:
  assumes inv: "pipe_inv stages input p" "no_drain p" and c: "input_closes p" and i: "i \<le> length stages"
    and wait: "ctl (segments p ! i) = Receiving" and before: "\<And>k. k < i \<Longrightarrow> ctl (segments p ! k) = Stopped"
  shows "can_move stages p"
proof (cases i)
  case 0
  then show ?thesis using wait c
    by (cases "input_rest p") (auto simp: forward_action_def source_next_def source_closed_def
        intro: forward_moves [of stages 0 Receive] forward_moves [of stages 0 SeeClosed])
next
  case (Suc j)
  have "out_closed (segments p ! j)" using pipe_inv_at(1) [OF inv(1), of j] before [of j] Suc i by (simp add: own_ok_def)
  then show ?thesis using fed_moves [OF inv(1)] wait i Suc by blast
qed

lemma draining_moves:
  assumes inv: "pipe_inv stages input p" "no_drain p" and c: "\<not> cancelled p" and i: "i \<le> length stages"
    and d: "ctl (segments p ! i) = Draining"
  shows "can_move stages p"
proof -
  have "source_closed i p" using pipe_inv_at(1,2) [OF inv(1) i] c d by (simp add: own_ok_def closed_ok_def)
  then show ?thesis using d i by (intro forward_moves [of stages i DrainEnd p]) (simp_all add: forward_action_def)
qed

lemma running_moves:
  assumes inv: "pipe_inv stages input p" "no_drain p" and c: "\<not> cancelled p" "input_closes p" and i: "i \<le> length stages"
    and run: "ctl (segments p ! i) \<noteq> Stopped"
  shows "can_move stages p"
proof (cases "\<exists>k\<le>length stages. ctl (segments p ! k) = Polling \<or> ctl (segments p ! k) = Draining")
  case True
  then show ?thesis using polling_moves draining_moves [OF inv c(1)] by blast
next
  case False
  let ?S = "{k. k \<le> length stages \<and> (\<exists>v. ctl (segments p ! k) = Sending v)}"
  have fin: "finite ?S" by simp
  show ?thesis
  proof (cases "?S = {}")
    case True
    define k where "k = (LEAST k. k \<le> length stages \<and> ctl (segments p ! k) \<noteq> Stopped)"
    have k: "k \<le> length stages" "ctl (segments p ! k) \<noteq> Stopped"
      using LeastI [of "\<lambda>k. k \<le> length stages \<and> ctl (segments p ! k) \<noteq> Stopped" i] i run unfolding k_def by blast+
    have before: "l < k \<Longrightarrow> ctl (segments p ! l) = Stopped" for l
      using not_less_Least [of l "\<lambda>k. k \<le> length stages \<and> ctl (segments p ! k) \<noteq> Stopped"] k(1) unfolding k_def by fastforce
    have "ctl (segments p ! k) = Receiving" using k False True by (cases "ctl (segments p ! k)") auto
    then show ?thesis using waiting_moves [OF inv c(2) k(1) _ before] by blast
  next
    case False
    then obtain v where v: "Max ?S \<le> length stages" "ctl (segments p ! Max ?S) = Sending v" using Max_in [OF fin] by blast
    have "ctl (segments p ! k) \<noteq> Sending w" if "Max ?S < k" "k \<le> length stages" for k w
      using Max_ge [OF fin, of k] that by (auto simp del: Max_ge)
    then show ?thesis using sending_moves [OF inv(1) c(1) v] by blast
  qed
qed

lemma input_closes_kept: "pipe_run stages as p = Some q \<Longrightarrow> input_closes q = input_closes p"
proof (induction as arbitrary: p)
  case (Cons a as)
  then obtain p1 where p1: "pipe_step stages a p = Some p1" "pipe_run stages as p1 = Some q" by (auto split: option.splits)
  have "input_closes p1 = input_closes p"
  proof (cases a)
    case (Fwd i f)
    then show ?thesis using p1(1)
      by (cases "ctl (segments p ! i)"; cases f)
        (auto simp: pipe_step_def forward_action_def Let_def segments_upd split: if_splits option.splits)
  qed (use p1(1) in \<open>auto simp: pipe_step_def segments_upd split: if_splits\<close>)
  then show ?case using Cons.IH [OF p1(2)] by simp
qed simp

subsection \<open>Property\<close>

text \<open>
  C35: no goroutine of a pipeline is left behind. An execution has at most \<open>3 n + 5\<close> actions for every forwarder that \<open>n\<close> values
  come to, and one for the cancellation; and while a forwarder has not returned, although the input is closed or the pipeline is
  cancelled, some action is possible that does not wait for the caller, nor for a stage that is busy with its own output.
  Only the reader of the output has to go on reading. Once the first forwarder has stopped, nothing more is taken from the
  input, which belongs to the caller.
\<close>

theorem pipeline_ends:
  assumes "stages_ok stages" "pipe_run stages as (ExecutePipeline stages input cl) = Some p"
  shows "length as \<le> (\<Sum>i\<le>length stages. 3 * length (through (take i stages) input) + 5) + 1 \<and>
    (cl \<or> cancelled p \<longrightarrow>
      (\<forall>i\<le>length stages. ctl (segments p ! i) = Stopped) \<or>
      (\<exists>a q. a \<noteq> CloseDone \<and> receiver_ready stages p a \<and> pipe_step stages a p = Some q)) \<and>
    (\<forall>bs q. out_closed (segments p ! 0) \<longrightarrow> pipe_run stages bs p = Some q \<longrightarrow> input_rest q = input_rest p)"
proof -
  note inv = pipe_reached_inv [OF assms(2,1)]
  have start: "pipe_inv stages input (ExecutePipeline stages input cl)" "no_drain (ExecutePipeline stages input cl)"
    by (rule pipe_inv_start) (simp add: no_drain_def ExecutePipeline_def new_segment_def)
  have "length as \<le> work stages input (ExecutePipeline stages input cl)"
    using pipe_run_work [OF assms(2,1) start] by simp
  moreover have "can_move stages p" if "cl \<or> cancelled p" "i \<le> length stages" "ctl (segments p ! i) \<noteq> Stopped" for i
    using cancelled_moves [OF inv(1,2) _ that(2,3)] running_moves [OF inv(1,2) _ _ that(2,3)] that(1) input_closes_kept [OF assms(2)]
    by (auto simp: ExecutePipeline_def)
  ultimately show ?thesis using input_untouched [OF _ inv(1,2) assms(1)] unfolding work_start can_move_def by blast
qed

theorem pipeline_ends_witness:
  "\<exists>p. pipe_run sample_stages sample_schedule (ExecutePipeline sample_stages [4] True) = Some p \<and>
     length sample_schedule \<le> 25 \<and>
     (\<exists>a q. a \<noteq> CloseDone \<and> receiver_ready sample_stages p a \<and> pipe_step sample_stages a p = Some q)"
proof -
  define p where "p = the (pipe_run sample_stages sample_schedule (ExecutePipeline sample_stages [4] True))"
  have run: "pipe_run sample_stages sample_schedule (ExecutePipeline sample_stages [4] True) = Some p"
    and busy: "ctl (segments p ! 0) \<noteq> Stopped" unfolding p_def by code_simp+
  have bound: "(\<Sum>i\<le>length sample_stages. 3 * length (through (take i sample_stages) [4 :: int]) + 5) + 1 = 25"
    by (simp add: sample_stages_def atMost_Suc)
  show ?thesis using pipeline_ends [OF sample_stages_ok run] run busy unfolding bound by blast
qed

end
