(* ===== verification/Domain_Stats.thy ===== *)
theory Domain_Stats
  imports Go_Prelude
begin

text \<open>
  The domain statistics of \<open>hw10_program_optimization/stats.go\<close>: a scan of a stream of JSON records, one per line, that counts
  the domains of the e-mail addresses that match. The JSON decoders, the regular expressions and \<open>strings.ToLower\<close> are
  the record \<open>stat_lib\<close>, an argument of the model. The stream is the bytes it delivers and the error it ends with, if any.
\<close>

subsection \<open>Records\<close>

record User =
  u_ID :: int
  u_Name :: string
  u_Username :: string
  u_Email :: string
  u_Phone :: string
  u_Password :: string
  u_Address :: string

type_synonym DomainStat = "(string, nat) gomap"

datatype stat_error = CompileError | DecodeError | ReadError

text \<open>\<open>userID.UnmarshalJSON\<close>: \<open>null\<close> leaves the identifier as it is, anything else must be an \<open>int\<close>.\<close>

definition UnmarshalJSON :: "string \<Rightarrow> int \<Rightarrow> int option" where
  "UnmarshalJSON data ident = (if data = ''null'' then Some ident else ParseInt data)"

record stat_lib =
  regexp_Compile :: "string \<Rightarrow> (string \<Rightarrow> bool) option"
  fast_Unmarshal :: "(string \<Rightarrow> int \<Rightarrow> int option) \<Rightarrow> string \<Rightarrow> User \<Rightarrow> User option"
  std_Unmarshal :: "(string \<Rightarrow> int \<Rightarrow> int option) \<Rightarrow> string \<Rightarrow> User \<Rightarrow> User option"
  ToLower :: "string \<Rightarrow> string"

record stream =
  bytes :: string
  read_error :: bool
  error_seen :: "nat \<Rightarrow> bool"

subsection \<open>The scanner\<close>

text \<open>
  The tokens of \<open>bufio.ScanLines\<close>: the pieces between newlines without a final carriage return; an empty last piece is no line.
  \<open>error_seen k\<close> tells whether the read error is already known to the scanner when line \<open>k\<close> is handed out.
\<close>

definition dropCR :: "string \<Rightarrow> string" where
  "dropCR s = (if s \<noteq> [] \<and> last s = CHR 0x0D then butlast s else s)"

definition ScanLines :: "string \<Rightarrow> string list" where
  "ScanLines s =
     (let pieces = go_split (CHR 0x0A) s
      in map dropCR (if last pieces = [] then butlast pieces else pieces))"

definition Trim :: "string \<Rightarrow> string" where
  "Trim s = (let cut = (\<lambda>c. c = CHR '' '' \<or> c = CHR 0x09 \<or> c = CHR 0x0D)
     in rev (dropWhile cut (rev (dropWhile cut s))))"

subsection \<open>\<open>GetDomainStat\<close>\<close>

definition zero_User :: User where
  "zero_User = \<lparr>u_ID = 0, u_Name = [], u_Username = [], u_Email = [], u_Phone = [], u_Password = [], u_Address = []\<rparr>"

definition decode_line :: "stat_lib \<Rightarrow> string \<Rightarrow> User option" where
  "decode_line lib line =
     (if CHR 0x5C \<in> set line then std_Unmarshal lib UnmarshalJSON line zero_User
      else fast_Unmarshal lib UnmarshalJSON line zero_User)"

definition count_email :: "stat_lib \<Rightarrow> (string \<Rightarrow> bool) \<Rightarrow> string \<Rightarrow> DomainStat \<Rightarrow> DomainStat" where
  "count_email lib matcher email result =
     (if \<not> matcher email then result
      else case go_cut (CHR ''@'') email of (_, emailDomain, ok) \<Rightarrow>
        if \<not> ok then result
        else let d = ToLower lib emailDomain
             in AList.update d ((case map_of result d of None \<Rightarrow> 0 | Some n \<Rightarrow> n) + 1) result)"

fun scan_loop ::
  "stat_lib \<Rightarrow> (string \<Rightarrow> bool) \<Rightarrow> (nat \<Rightarrow> bool) \<Rightarrow> nat \<Rightarrow> string list \<Rightarrow> DomainStat \<Rightarrow> stat_error + DomainStat" where
  "scan_loop lib matcher seen k [] result = Inr result"
| "scan_loop lib matcher seen k (raw # lines) result =
     (let line = Trim raw in
      if line = [] then scan_loop lib matcher seen (k + 1) lines result
      else case decode_line lib line of
             None \<Rightarrow> Inl (if seen k then ReadError else DecodeError)
           | Some user \<Rightarrow> scan_loop lib matcher seen (k + 1) lines (count_email lib matcher (u_Email user) result))"

definition GetDomainStat :: "stat_lib \<Rightarrow> stream \<Rightarrow> string \<Rightarrow> stat_error + DomainStat" where
  "GetDomainStat lib r domain =
     (case regexp_Compile lib ([CHR 0x5C, CHR ''.''] @ domain) of
        None \<Rightarrow> Inl CompileError
      | Some matcher \<Rightarrow>
          (case scan_loop lib matcher (\<lambda>k. read_error r \<and> error_seen r k) 0 (ScanLines (bytes r)) [] of
             Inl err \<Rightarrow> Inl err
           | Inr result \<Rightarrow> if read_error r then Inl ReadError else Inr result))"

subsection \<open>The statistics as a specification\<close>

definition records :: "string \<Rightarrow> string list" where
  "records s = filter (\<lambda>l. l \<noteq> []) (map Trim (ScanLines s))"

text \<open>The domain a record counts for, if it matches.\<close>

definition domain_of :: "stat_lib \<Rightarrow> (string \<Rightarrow> bool) \<Rightarrow> User \<Rightarrow> string option" where
  "domain_of lib matcher user =
     (if matcher (u_Email user) then
        (case go_cut (CHR ''@'') (u_Email user) of (_, d, ok) \<Rightarrow> if ok then Some (ToLower lib d) else None)
      else None)"

definition occurrences :: "stat_lib \<Rightarrow> (string \<Rightarrow> bool) \<Rightarrow> string list \<Rightarrow> string \<Rightarrow> nat" where
  "occurrences lib matcher ls d =
     length (filter (\<lambda>l. map_option (domain_of lib matcher) (decode_line lib l) = Some (Some d)) ls)"

abbreviation stat_of :: "DomainStat \<Rightarrow> string \<Rightarrow> nat" where
  "stat_of m d \<equiv> (case map_of m d of None \<Rightarrow> 0 | Some n \<Rightarrow> n)"

definition positive :: "DomainStat \<Rightarrow> bool" where
  "positive m \<longleftrightarrow> gomap_ok m \<and> list_all (\<lambda>(_, n). 0 < n) m"

lemma count_email_stat:
  "stat_of (count_email lib matcher (u_Email user) m) d =
    stat_of m d + (if domain_of lib matcher user = Some d then 1 else 0)"
  by (auto simp: count_email_def domain_of_def update_conv Let_def split: prod.splits)

lemma positive_iff: "positive m \<longleftrightarrow> gomap_ok m \<and> (\<forall>d n. map_of m d = Some n \<longrightarrow> 0 < n)"
  by (auto simp: positive_def list_all_iff gomap_mem)

lemma count_email_positive: "positive m \<Longrightarrow> positive (count_email lib matcher email m)"
  by (auto simp: positive_iff count_email_def update_conv Let_def split: prod.splits if_splits)

lemma scan_loop_result:
  "positive m \<Longrightarrow>
   (case scan_loop lib matcher seen k raws m of
      Inl e \<Rightarrow> list_ex (\<lambda>l. decode_line lib l = None) (filter (\<lambda>l. l \<noteq> []) (map Trim raws)) \<and> (e = DecodeError \<or> e = ReadError \<and> (\<exists>j. seen j))
    | Inr m' \<Rightarrow> list_all (\<lambda>l. decode_line lib l \<noteq> None) (filter (\<lambda>l. l \<noteq> []) (map Trim raws)) \<and> positive m' \<and>
        (\<forall>d. stat_of m' d = stat_of m d + occurrences lib matcher (filter (\<lambda>l. l \<noteq> []) (map Trim raws)) d))"
proof (induction raws arbitrary: k m)
  case Nil
  then show ?case by (simp add: occurrences_def)
next
  case (Cons raw raws)
  show ?case
  proof (cases "Trim raw = []")
    case True
    then show ?thesis using Cons.IH [OF Cons.prems, of "k + 1"] by (simp split: sum.splits)
  next
    case False
    show ?thesis
    proof (cases "decode_line lib (Trim raw)")
      case (Some user)
      have "occurrences lib matcher (Trim raw # ls) d =
          (if domain_of lib matcher user = Some d then 1 else 0) + occurrences lib matcher ls d" for ls d
        using Some by (simp add: occurrences_def)
      then show ?thesis
        using Cons.IH [OF count_email_positive [OF Cons.prems], of lib matcher "u_Email user" "k + 1"] False Some
        by (simp add: Let_def count_email_stat split: sum.splits)
    qed (use False in \<open>auto simp: Let_def\<close>)
  qed
qed

subsection \<open>Properties\<close>

text \<open>
  C36: when the stream can be read to its end and every record is valid, \<open>GetDomainStat\<close> counts, for every domain, the matching
  records whose address has that domain, and lists no other domain. A record that cannot be decoded, or a failing stream, is
  the error of that kind and never a partial result.
\<close>

theorem domain_stat_exact:
  assumes "regexp_Compile lib ([CHR 0x5C, CHR ''.''] @ domain) = Some matcher"
  shows "case GetDomainStat lib r domain of
      Inl DecodeError \<Rightarrow> list_ex (\<lambda>l. decode_line lib l = None) (records (bytes r))
    | Inl e \<Rightarrow> e = ReadError \<and> read_error r
    | Inr m \<Rightarrow> \<not> read_error r \<and> list_all (\<lambda>l. decode_line lib l \<noteq> None) (records (bytes r)) \<and>
        map_of m = (\<lambda>d. let n = occurrences lib matcher (records (bytes r)) d in if n = 0 then None else Some n)"
proof -
  let ?seen = "\<lambda>k. read_error r \<and> error_seen r k"
  have fin: "map_of m = (\<lambda>d. let n = f d in if n = 0 then None else Some n)"
    if "positive m" "\<And>d. stat_of m d = f d" for m f
  proof
    fix d
    show "map_of m d = (let n = f d in if n = 0 then None else Some n)"
      using that(2) [of d] that(1) by (cases "map_of m d") (auto simp: positive_iff Let_def)
  qed
  have "positive []" by (simp add: positive_def)
  from scan_loop_result [OF this, where lib = lib and matcher = matcher and seen = ?seen and k = 0 and raws = "ScanLines (bytes r)"]
  show ?thesis
    using assms fin by (auto simp: GetDomainStat_def records_def split: sum.splits)
qed

definition small_stat_lib :: stat_lib where
  "small_stat_lib = \<lparr>
     regexp_Compile = (\<lambda>p. if p = [CHR 0x5C, CHR ''.''] @ ''com'' then Some (\<lambda>s. sublist ''.com'' s) else None),
     fast_Unmarshal = (\<lambda>unmarshal l u. map_option (\<lambda>i. u\<lparr>u_ID := i, u_Email := l\<rparr>) (unmarshal ''null'' (u_ID u))),
     std_Unmarshal = (\<lambda>_ _ _. None),
     ToLower = map (\<lambda>c. if c = CHR ''X'' then CHR ''x'' else c)\<rparr>"

definition small_stream :: stream where
  "small_stream = \<lparr>bytes = ''a@X.com'' @ [CHR 0x0D, CHR 0x0A, CHR 0x0A] @ ''b@x.com'' @ [CHR 0x0A] @ ''c@y.org'',
     read_error = False, error_seen = (\<lambda>_. False)\<rparr>"

theorem domain_stat_exact_witness:
  "\<exists>m. GetDomainStat small_stat_lib small_stream ''com'' = Inr m \<and> map_of m ''x.com'' = Some 2 \<and> map_of m ''y.org'' = None"
proof -
  have c: "regexp_Compile small_stat_lib ([CHR 0x5C, CHR ''.''] @ ''com'') = Some (\<lambda>s. sublist ''.com'' s)"
    by (simp add: small_stat_lib_def)
  have n: "occurrences small_stat_lib (\<lambda>s. sublist ''.com'' s) (records (bytes small_stream)) ''x.com'' = 2"
    "occurrences small_stat_lib (\<lambda>s. sublist ''.com'' s) (records (bytes small_stream)) ''y.org'' = 0"
    "\<not> read_error small_stream" "\<not> list_ex (\<lambda>l. decode_line small_stat_lib l = None) (records (bytes small_stream))"
    by code_simp+
  show ?thesis
    using domain_stat_exact [OF c, of small_stream] n
    by (cases "GetDomainStat small_stat_lib small_stream ''com''") (auto simp: Let_def split: stat_error.splits)
qed

end
