(* ===== verification/Sql_Service.thy ===== *)
theory Sql_Service
  imports Http_Service Sql_Storage
begin

text \<open>
  The API of \<open>internal/server/http\<close> over the storage of \<open>internal/storage/sql\<close>, the way \<open>cmd/calendar\<close> puts them together for the
  storage type \<open>sql\<close>. What \<open>calendar_service\<close> proves of the server holds over a database that keeps the laws of \<open>postgres\<close>.
\<close>

text \<open>The SQL storage behind the interface of the application, as \<open>newStorage\<close> of \<open>cmd/calendar\<close> passes it.\<close>

definition sql_ops :: "'d driver \<Rightarrow> ('h, 'd) sql_state storage_ops" where
  "sql_ops drv = \<lparr>op_create = SqlCreateEvent drv, op_update = SqlUpdateEvent drv, op_delete = SqlDeleteEvent drv,
     op_list = SqlListEvents drv\<rparr>"

lemma sql_ops_simps [simp]:
  "op_create (sql_ops drv) = SqlCreateEvent drv" "op_update (sql_ops drv) = SqlUpdateEvent drv"
  "op_delete (sql_ops drv) = SqlDeleteEvent drv" "op_list (sql_ops drv) = SqlListEvents drv"
  by (simp_all add: sql_ops_def)

locale service_on_sql = postgres +
  fixes lib :: http_lib

sublocale service_on_sql \<subseteq> web: calendar_service "sql_ops drv" "sql_calendar tab" "sql_inv tab" ts lib False
proof (rule calendar_service.intro)
  show "app_over_storage (sql_ops drv) (sql_calendar tab) (sql_inv tab) ts"
    unfolding app_over_storage_def sql_ops_simps by (rule sql.event_storage_axioms)
qed (simp add: calendar_service_axioms_def)

context service_on_sql
begin

lemma sql_serve_all:
  assumes "lib_law lib" "list_all (\<lambda>q. ctx_law (fst q)) qs" "sql_inv tab (app_storage (srv_app s))"
    and "serve_all lib (sql_ops drv) wm qs s = (ws, s')"
  shows "sql_inv tab (app_storage (srv_app s')) \<and> length ws = length qs \<and>
    length (srv_access s') = length (srv_access s) + length qs"
  by (rule web.serve_all_invariant [OF assms])

lemma sql_serve_one:
  assumes "lib_law lib" "ctx_law c" "sql_inv tab (app_storage (srv_app s))"
    and "ServeHTTP lib (Some (calendar_application (sql_ops drv))) wm c started latency r s = (w, s')"
  shows "sql_inv tab (app_storage (srv_app s'))"
    and "sql_calendar tab (app_storage (srv_app s')) = sql_calendar tab (app_storage (srv_app s)) \<or>
      (200 \<le> final_status w \<and> final_status w < 300) \<or> final_status w = 500"
  using web.ServeHTTP_sound [OF assms] by auto

end

interpretation pg_service: service_on_sql pg_driver pg_tab "\<lambda>d. map_of (nt_rows d)" pg_ts pg_due small_http
  by unfold_locales

subsection \<open>Any number of requests\<close>

text \<open>What \<open>api_marks_nothing\<close> says of one call holds of every run of the server.\<close>

sublocale postgres \<subseteq> marks: storage_steps "sql_ops drv" "\<lambda>sd sd'. marks_from (tab (snd sd)) (tab (snd sd'))"
  by unfold_locales (auto simp: marks_from_refl intro: marks_from_trans api_marks_nothing)

context postgres
begin

lemma serve_all_marks_nothing:
  assumes "lib_law lib" "list_all (\<lambda>q. ctx_law (fst q)) qs" "serve_all lib (sql_ops drv) wm qs s = (ws, s')"
  shows "marks_from (tab (snd (app_storage (srv_app s)))) (tab (snd (app_storage (srv_app s'))))"
  by (rule marks.serve_all_rel [OF assms])

end

subsection \<open>Properties\<close>

text \<open>
  C2: the server over PostgreSQL keeps its calendar consistent too. Whatever requests reach it, well formed or not and with any
  times, whatever errors the driver reports and however often a context is cancelled, the table stays free of double bookings and
  malformed events, and every request is answered and logged once. A request that changes the calendar is answered with a
  success, or with 500 when the answer of the database was lost; no other answer hides a change.
\<close>

theorem api_on_sql_consistent:
  assumes "postgres drv tab saved ts due" "lib_law lib" "list_all (\<lambda>q. ctx_law (fst q)) qs" "ctx_law c"
    and "sql_inv tab (app_storage (srv_app s))" "serve_all lib (sql_ops drv) wm qs s = (ws, s')"
    and "ServeHTTP lib (Some (calendar_application (sql_ops drv))) wm c started latency r s' = (w, s'')"
  shows "consistent (sql_calendar tab (app_storage (srv_app s'))) \<and> length ws = length qs \<and>
    length (srv_access s') = length (srv_access s) + length qs \<and>
    consistent (sql_calendar tab (app_storage (srv_app s''))) \<and>
    (sql_calendar tab (app_storage (srv_app s'')) = sql_calendar tab (app_storage (srv_app s')) \<or>
     (200 \<le> final_status w \<and> final_status w < 300) \<or> final_status w = 500)"
proof -
  have svc: "service_on_sql drv tab saved ts due"
    using assms(1) by (simp add: service_on_sql_def)
  have all: "sql_inv tab (app_storage (srv_app s')) \<and> length ws = length qs \<and>
      length (srv_access s') = length (srv_access s) + length qs"
    using service_on_sql.sql_serve_all [OF svc] assms(2,3,5,6) by blast
  show ?thesis
    using all service_on_sql.sql_serve_one [OF svc assms(2,4) _ assms(7)] by (auto simp: sql_inv_def)
qed

text \<open>A request that creates an event with a correct body, sent twice to a server over an empty database, then once more.\<close>

definition pg_server :: "(unit, pg) sql_state App server" where
  "pg_server = NewCalendarServer (connected, \<lparr>ev_rows = [], nt_rows = []\<rparr>)"

theorem api_on_sql_consistent_witness:
  "length (srv_access (snd (serve_all small_http (sql_ops lost_driver) True [(live, [], [], post_lunch), (live, [], [], post_lunch)]
     pg_server))) = 2"
proof -
  have "sql_inv pg_tab (app_storage (srv_app pg_server))" "srv_access pg_server = []"
    by (simp_all add: pg_server_def NewCalendarServer_def NewApp_def sql_inv_def sql_calendar_def pg_tab_def
        calendar_of_table_def consistent_def)
  then show ?thesis
    using api_on_sql_consistent [OF lost.postgres_axioms small_http_law _ ctx_law_live _ prod.collapse [symmetric] prod.collapse [symmetric],
        of "[(live, [], [], post_lunch), (live, [], [], post_lunch)]" pg_server True]
    by simp
qed

end
