(* ===== verification/Notification_Flow.thy ===== *)
theory Notification_Flow
  imports Sql_Service Notification_Scheduler Notification_Storer
begin

text \<open>
  The way of an event through the three processes: created by a request to the API, published by the scheduler, saved by the
  storer. The database, the broker and \<open>encoding/json\<close> connect them.
\<close>

subsection \<open>The payload between the processes\<close>

text \<open>
  What the two processes rely on of \<open>encoding/json\<close>: a payload \<open>json.Marshal\<close> produced decodes, as the only value of
  its input, to a notification with the same identifier, title, user and instant. That is so for texts that are valid UTF-8
  (other bytes are replaced) and for a time whose offset is a whole number of minutes (RFC 3339 has no room for seconds).
\<close>

definition whole_minutes :: "Time \<Rightarrow> bool" where
  "whole_minutes t \<longleftrightarrow> zone_offset (zone t) (instant t div second) mod 60 = 0"

definition wire_safe :: "Notification \<Rightarrow> bool" where
  "wire_safe n \<longleftrightarrow> valid_utf8 (n_EventID n) \<and> valid_utf8 (n_Title n) \<and> valid_utf8 (n_UserID n) \<and> whole_minutes (n_EventAt n)"

definition codec_law :: "(Notification \<Rightarrow> error + string) \<Rightarrow> json_decoder \<Rightarrow> bool" where
  "codec_law mar js \<longleftrightarrow> (\<forall>n p. wire_safe n \<longrightarrow> mar n = Inr p \<longrightarrow>
     (\<exists>n' rest. DecodeFirst js p = Inr (n', rest) \<and> DecodeTrailing js rest = Some (Err EOF) \<and>
        n_EventID n' = n_EventID n \<and> n_Title n' = n_Title n \<and> n_UserID n' = n_UserID n \<and>
        TimeEqual (n_EventAt n') (n_EventAt n)))"

definition same_note :: "Notification \<Rightarrow> Notification \<Rightarrow> bool" where
  "same_note n' n \<longleftrightarrow> n_EventID n' = n_EventID n \<and> n_Title n' = n_Title n \<and> n_UserID n' = n_UserID n \<and>
     TimeEqual (n_EventAt n') (n_EventAt n)"

lemma codec_decodes:
  assumes "codec_law mar js" "wire_safe n" "mar n = Inr p" "ValidateNotification n = None"
  shows "\<exists>n'. decodeNotification js p = Inr n' \<and> same_note n' n"
proof -
  obtain n' rest where n': "DecodeFirst js p = Inr (n', rest)" "DecodeTrailing js rest = Some (Err EOF)" "same_note n' n"
    using assms(1-3) unfolding codec_law_def same_note_def by blast
  then have "ValidateNotification n' = None"
    using assms(4) by (auto simp: same_note_def ValidateNotification_def IsZero_def TimeEqual_def split: if_splits)
  with n' show ?thesis by (simp add: decodeNotification_def)
qed

lemma save_all_other:
  "\<forall>p \<in> set ps. \<forall>m. decodeNotification js p = Inr m \<longrightarrow> n_EventID m \<noteq> i \<Longrightarrow> save_all js ts ps M i = M i"
proof (induction ps arbitrary: M)
  case (Cons p ps)
  then show ?case by (cases "decodeNotification js p") (auto simp: save_all_def)
qed (simp add: save_all_def)

lemma save_all_last:
  assumes "decodeNotification js p = Inr n"
    and "\<And>q m. q \<in> set ys \<Longrightarrow> decodeNotification js q = Inr m \<Longrightarrow> n_EventID m \<noteq> n_EventID n"
  shows "save_all js ts (xs @ p # ys) M (n_EventID n) = Some (n\<lparr>n_EventAt := ts (n_EventAt n)\<rparr>)"
  using save_all_other [of ys js "n_EventID n"] assms by (simp add: save_all_def)

subsection \<open>From a cycle of the scheduler to the table of notifications\<close>

lemma cycle_message_decodes:
  assumes "codec_law mar js" "calendar_ok (calendar_of_table t)" "e \<in> due_events due t now"
    and "\<exists>p. mar (notification_of e) = Inr p" "wire_safe (notification_of e)"
  shows "\<exists>n. decodeNotification js (snd (message_of mar e)) = Inr n \<and> same_note n (notification_of e)"
proof -
  obtain p where p: "mar (notification_of e) = Inr p" using assms(4) by blast
  have "ValidateNotification (notification_of e) = None"
    using notification_of_valid [OF due_event_valid [OF assms(2,3)]] .
  from codec_decodes [OF assms(1,5) p this] p show ?thesis by (simp add: message_of_def)
qed

lemma storable_same: "same_note n' n \<Longrightarrow> storable n \<Longrightarrow> storable n'"
  by (simp add: same_note_def storable_def in_years_def TimeEqual_def)

text \<open>The messages of one cycle have different identifiers, so each of its events ends in the table.\<close>

lemma cycle_messages_saved:
  assumes codec: "codec_law mar js" and cal: "calendar_ok (calendar_of_table t)"
    and mar: "\<And>e. e \<in> set es \<Longrightarrow> \<exists>p. mar (notification_of e) = Inr p"
    and safe: "\<And>e. e \<in> set es \<Longrightarrow> wire_safe (notification_of e)"
    and es: "distinct es" "set es = due_events due t now" and ev: "ev \<in> set es"
  shows "\<exists>n. save_all js ts (map snd (map (message_of mar) es)) M (ID ev) = Some (n\<lparr>n_EventAt := ts (n_EventAt n)\<rparr>) \<and>
    same_note n (notification_of ev)"
proof -
  have dec: "\<exists>n. decodeNotification js (snd (message_of mar e)) = Inr n \<and> same_note n (notification_of e)" if e: "e \<in> set es" for e
    using e es(2) by (auto intro: cycle_message_decodes [OF codec cal] mar safe)
  have uniq: "e = ev" if "e \<in> set es" "ID e = ID ev" for e
    using that ev due_events_iff [OF cal] unfolding es(2) by (metis event_of_row_of fst_conv option.inject)
  obtain xs ys where split: "es = xs @ ev # ys" using ev by (meson split_list)
  obtain n where n: "decodeNotification js (snd (message_of mar ev)) = Inr n" "same_note n (notification_of ev)" using dec ev by blast
  have id: "n_EventID n = ID ev" using n(2) by (simp add: same_note_def notification_of_def)
  have other: "n_EventID m \<noteq> n_EventID n"
    if q: "q \<in> set (map (snd \<circ> message_of mar) ys)" and m: "decodeNotification js q = Inr m" for q m
  proof
    assume eq: "n_EventID m = n_EventID n"
    obtain e where e: "e \<in> set ys" "q = snd (message_of mar e)" using q by auto
    then have "e \<in> set es" by (simp add: split)
    then have "n_EventID m = ID e" using dec [of e] m e(2) by (auto simp: same_note_def notification_of_def)
    with uniq [OF \<open>e \<in> set es\<close>] eq id have "e = ev" by simp
    then show False using e(1) es(1) by (simp add: split)
  qed
  have "save_all js ts (map (snd \<circ> message_of mar) xs @ snd (message_of mar ev) # map (snd \<circ> message_of mar) ys) M (n_EventID n) =
      Some (n\<lparr>n_EventAt := ts (n_EventAt n)\<rparr>)"
    by (rule save_all_last [OF n(1) other])
  then show ?thesis using n(2) by (auto simp: split id)
qed

subsection \<open>From a request to the table of events\<close>

context postgres
begin

lemma created_row:
  assumes "SqlCreateEvent drv c ev sd = (None, sd')"
  shows "tab (snd sd') = (tab (snd sd))(ID ev \<mapsto> (row_of (kept_as ts ev), None))"
proof -
  obtain n where "ExecContext drv c (InsertEvent (row_of ev)) (snd sd) = (Inr n, snd sd')"
    using assms(1) by (cases sd; cases sd') (auto simp: SqlCreateEvent_def split: option.splits sum.splits prod.splits if_splits)
  from exec_ok [OF this] show ?thesis by simp
qed

text \<open>A creation that is answered with 201 has added the event, not yet notified, to the table.\<close>

lemma api_created_row:
  assumes "lib_law lib" "chi_law lib" "URLRawPath r = []" "Method r = ''POST''" "URLPath r = ''/api/v1/events''"
    and dec: "decodeJSON lib (DecodeCreate lib) r = Inr q"
    and new: "newStorageEvent (cr_Id q) (cr_Title q) (cr_StartAt q) (cr_EndAt q) (cr_Description q) (cr_UserId q)
      (cr_NotifyBeforeSeconds q) = Inr ev"
    and run: "ServeHTTP lib (Some (calendar_application (sql_ops drv))) wm c started latency r s = (w, s')" "final_status w = 201"
  shows "tab (snd (app_storage (srv_app s'))) = (tab (snd (app_storage (srv_app s))))(ID ev \<mapsto> (row_of (kept_as ts ev), None))"
proof -
  obtain ops where h: "apiCreateEvent lib (Some (calendar_application (sql_ops drv))) c r (srv_app s) = (ops, srv_app s')"
    and w: "w = respond ops" using ServeHTTP_transparent [OF assms(1) run(1)] route_found(1) [OF assms(2-5)] by auto
  have dr: "decodeRequest lib (DecodeCreate lib) r = Inr q" by (simp add: decodeRequest_def dec)
  obtain res st where x: "SqlCreateEvent drv c ev (app_storage (srv_app s)) = (res, st)" by (meson surj_pair)
  have "app_storage (srv_app s') = st" "res \<noteq> None \<Longrightarrow> ops = writeApplicationError (the res)"
    using h by (auto simp: apiCreateEvent_def dr new calendar_application_def AppCreateEvent_def x eq_commute [of _ "srv_app s'"]
        split: option.splits)
  moreover have "res = None" using calculation(2) run(2) status_application_error_fails [of "the res"] 
    by (cases res) (auto simp: w ops_status_def)
  ultimately show ?thesis using created_row [of c ev "app_storage (srv_app s)" st] x by simp
qed

end

lemma newStorageEvent_notice:
  "newStorageEvent i t st en d u (Some k) = Inr ev \<Longrightarrow> NotifyBefore ev = k * second"
  by (auto simp: newStorageEvent_def Let_def split: sum.splits option.splits dest!: notificationDuration_ok(1))

text \<open>
  One cycle of the scheduler and then a storer that drains the topic: every event of the table that is due ends in the
  table of notifications.
\<close>

lemma due_event_is_saved:
  assumes sched: "healthy_scheduler drv tab saved ts due st usable" and storer: "healthy_storer drv tab saved ts due st'"
    and codec: "codec_law mar js"
    and world: "w_sent x = []" "ready ts mar (tab (w_db x))" "rows_ok (\<lambda>n. wire_safe n \<and> storable n) (tab (w_db x))"
    and time: "\<not> IsZero now" "0 < BatchSize cfg" "\<not> IsZero (AddDate now (- RetentionYears cfg) 0 0)" "usable now"
      "usable (AddDate now (- RetentionYears cfg) 0 0)"
    and row: "tab (w_db x) (ID ev) = Some (row_of ev, None)" and due: "0 < NotifyBefore ev" "due (ts now) (row_of ev)"
      "\<not> Before (StartAt ev) (ts (AddDate now (- RetentionYears cfg) 0 0))"
    and idle: "v_pos v = 0" "v_committed v = 0"
  shows "\<exists>x' v' n. RunOnce (sql_env drv st mar (undisturbed clock wake)) cfg now x = Some (None, x') \<and>
    RunStorer js (sql_storer_env drv st' (draining (length (w_sent x')) e clock'))
      (partition_reader (\<lambda>k. w_sent x' ! k) (draining (length (w_sent x')) e clock')) (v\<lparr>v_db := w_db x'\<rparr>) =
        Some (Some (Wrap [Lit ''fetch Kafka message''] e), v') \<and>
    saved (v_db v') (ID ev) = Some (n\<lparr>n_EventAt := ts (n_EventAt n)\<rparr>) \<and> same_note n (notification_of ev)"
proof -
  let ?left = "purged (tab (w_db x)) (ts (AddDate now (- RetentionYears cfg) 0 0))"
  obtain x' es where x': "RunOnce (sql_env drv st mar (undisturbed clock wake)) cfg now x = Some (None, x')" "distinct es"
      "set es = due_events due ?left (ts now)" "w_sent x' = map (message_of mar) es"
    using healthy_scheduler.cycle_result [OF sched world(2) time] world(1) by fastforce
  have ready: "ready ts mar ?left" by (rule ready_purged [OF world(2)])
  then have cal: "calendar_ok (calendar_of_table ?left)" by (simp add: ready_def)
  have "?left (ID ev) = Some (row_of ev, None)" using row due(3) by (simp add: purged_def row_of_def)
  then have ev: "ev \<in> set es" using due(1,2) by (simp add: x'(3) due_events_iff [OF cal])
  have row_of: "?left (ID f) = Some (row_of f, None)" if "f \<in> set es" for f
    using that unfolding x'(3) due_events_iff [OF cal] by blast
  have mar: "\<exists>p. mar (notification_of f) = Inr p" if "f \<in> set es" for f
    using row_of [OF that] ready unfolding ready_def by (metis event_of_row_of)
  have ok: "wire_safe (notification_of f)" "storable (notification_of f)" if "f \<in> set es" for f
    using purged_SomeD [OF row_of [OF that]] world(3) unfolding rows_ok_def by (metis event_of_row_of)+
  have "storable n" if p: "p \<in> set (w_sent x')" and n: "decodeNotification js (snd p) = Inr n" for p n
  proof -
    obtain f where f: "f \<in> set es" "p = message_of mar f" using p x'(4) by auto
    then obtain n' where "decodeNotification js (snd p) = Inr n'" "same_note n' (notification_of f)"
      using cycle_message_decodes [OF codec cal _ mar [OF f(1)] ok(1) [OF f(1)], of due "ts now"] x'(3) by blast
    with n ok(2) [OF f(1)] show ?thesis by (auto intro: storable_same)
  qed
  then obtain v' where v': "RunStorer js (sql_storer_env drv st' (draining (length (w_sent x')) e clock'))
      (partition_reader (\<lambda>k. w_sent x' ! k) (draining (length (w_sent x')) e clock')) (v\<lparr>v_db := w_db x'\<rparr>) =
        Some (Some (Wrap [Lit ''fetch Kafka message''] e), v')"
      "saved (v_db v') = save_all js ts (map snd (w_sent x')) (saved (w_db x'))"
    using healthy_storer.storer_drains [OF storer, of "v\<lparr>v_db := w_db x'\<rparr>" "w_sent x'" js e clock'] idle by auto
  have "\<exists>n. saved (v_db v') (ID ev) = Some (n\<lparr>n_EventAt := ts (n_EventAt n)\<rparr>) \<and> same_note n (notification_of ev)"
    unfolding v'(2) x'(4) by (rule cycle_messages_saved [OF codec cal mar ok(1) x'(2,3) ev])
  with x'(1) v'(1) show ?thesis by blast
qed

subsection \<open>Properties\<close>

text \<open>
  C1: the calendar keeps its promise. Take an event that the API over PostgreSQL accepted with 201, with a notice of \<open>k\<close>
  seconds (up to 104 days, the range in which the query of the scheduler computes exactly), and a time at which its start, as the
  database rounds it, is ahead by at most \<open>k\<close> seconds and not before the retention cutoff. When the scheduler runs a cycle at that
  time, undisturbed, and a storer then drains the topic, both return, and the table of notifications holds the event's
  identifier, title, user and rounded start. The texts of the table are UTF-8 without NUL and its times within the years 1 to 9999,
  in a session time zone of whole minutes; the database answers to such values, and \<open>encoding/json\<close> keeps them.
\<close>

theorem accepted_event_is_notified:
  assumes sched: "healthy_scheduler drv tab saved ts due st in_years" and storer: "healthy_storer drv tab saved ts due st'"
    and db: "ts_law ts" "due_law due"
    and lib: "lib_law lib" "chi_law lib" and codec: "codec_law mar js"
    and req: "URLRawPath r = []" "Method r = ''POST''" "URLPath r = ''/api/v1/events''" "decodeJSON lib (DecodeCreate lib) r = Inr q"
      "newStorageEvent (cr_Id q) (cr_Title q) (cr_StartAt q) (cr_EndAt q) (cr_Description q) (cr_UserId q)
        (cr_NotifyBeforeSeconds q) = Inr ev"
    and notice: "cr_NotifyBeforeSeconds q = Some k" "0 < k" "k \<le> 9007199"
    and answered: "ServeHTTP lib (Some (calendar_application (sql_ops drv))) wm c started latency r s = (w, s')" "final_status w = 201"
    and world: "w_db x = snd (app_storage (srv_app s'))" "w_sent x = []" "ready ts mar (tab (w_db x))"
      "rows_ok (\<lambda>n. wire_safe n \<and> storable n) (tab (w_db x))"
    and time: "\<not> IsZero now" "0 < BatchSize cfg" "\<not> IsZero (AddDate now (- RetentionYears cfg) 0 0)" "in_years now"
      "in_years (AddDate now (- RetentionYears cfg) 0 0)"
    and due: "instant (ts now) < instant (ts (StartAt ev))" "instant (ts (StartAt ev)) \<le> instant (ts now) + k * second"
      "\<not> Before (ts (StartAt ev)) (ts (AddDate now (- RetentionYears cfg) 0 0))"
    and idle: "v_pos v = 0" "v_committed v = 0"
  shows "\<exists>x' v' n. RunOnce (sql_env drv st mar (undisturbed clock wake)) cfg now x = Some (None, x') \<and>
    RunStorer js (sql_storer_env drv st' (draining (length (w_sent x')) e clock'))
      (partition_reader (\<lambda>k. w_sent x' ! k) (draining (length (w_sent x')) e clock')) (v\<lparr>v_db := w_db x'\<rparr>) =
        Some (Some (Wrap [Lit ''fetch Kafka message''] e), v') \<and>
    saved (v_db v') (cr_Id q) = Some n \<and> n_EventID n = cr_Id q \<and> n_Title n = cr_Title q \<and> n_UserID n = cr_UserId q \<and>
    TimeEqual (n_EventAt n) (ts (cr_StartAt q))"
proof -
  let ?ev = "kept_as ts ev"
  have ev: "ID ev = cr_Id q" "Title ev = cr_Title q" "UserID ev = cr_UserId q" "StartAt ev = cr_StartAt q"
    using newStorageEvent_fields [OF req(5)] by auto
  have nb: "NotifyBefore ev = k * second" using newStorageEvent_notice req(5) notice(1) by simp
  have "postgres drv tab saved ts due" using sched by (simp add: healthy_scheduler_def)
  then have row: "tab (w_db x) (ID ?ev) = Some (row_of ?ev, None)"
    using postgres.api_created_row [OF _ lib req answered] world(1) by simp
  have "due (ts now) (row_of ?ev)"
    using db(2) notice(2,3) nb due(1,2) unfolding due_law_def by (auto simp: row_of_def)
  then obtain x' v' n where r: "RunOnce (sql_env drv st mar (undisturbed clock wake)) cfg now x = Some (None, x')"
      "RunStorer js (sql_storer_env drv st' (draining (length (w_sent x')) e clock'))
        (partition_reader (\<lambda>k. w_sent x' ! k) (draining (length (w_sent x')) e clock')) (v\<lparr>v_db := w_db x'\<rparr>) =
          Some (Some (Wrap [Lit ''fetch Kafka message''] e), v')"
      "saved (v_db v') (ID ?ev) = Some (n\<lparr>n_EventAt := ts (n_EventAt n)\<rparr>)" and n: "same_note n (notification_of ?ev)"
    using due_event_is_saved [OF sched storer codec world(2-4) time row, where v = v and e = e and clock = clock and wake = wake and clock' = clock']
      due(3) idle nb notice(2) by (auto simp: second_def)
  have "TimeEqual (c_start_at (row_of ?ev)) (ts (c_start_at (row_of ?ev)))"
    using world(3) row unfolding ready_def by blast
  moreover have "TimeEqual (ts (n_EventAt n)) (ts (ts (StartAt ev)))"
    using db(1) n by (simp add: ts_law_def same_note_def notification_of_def)
  ultimately have "TimeEqual (ts (n_EventAt n)) (ts (StartAt ev))"
    by (simp add: TimeEqual_def row_of_def)
  then show ?thesis
    using r n by (auto simp: same_note_def notification_of_def ev)
qed

text \<open>The request for a lunch, and a codec for its notification.\<close>

definition lunch_event :: Event where
  "lunch_event = lunch\<lparr>NotifyBefore := 60 * second\<rparr>"

definition lunch_marshal :: "Notification \<Rightarrow> error + string" where
  "lunch_marshal n = (if n = notification_of lunch_event then Inr ''{note}'' else Inl (Err (LibError ''unsupported value'')))"

definition lunch_json :: json_decoder where
  "lunch_json = \<lparr>
     DecodeFirst = (\<lambda>p. if p = ''{note}'' then Inr (notification_of lunch_event, []) else Inl (Err (LibError ''syntax error''))),
     DecodeTrailing = (\<lambda>rest. if rest = [] then Some (Err EOF) else None)\<rparr>"

lemma lunch_codec: "codec_law lunch_marshal lunch_json"
  by (auto simp: codec_law_def lunch_marshal_def lunch_json_def TimeEqual_def split: if_splits)

definition lunch_answer :: "response_writer \<times> (unit, pg) sql_state App server" where
  "lunch_answer = ServeHTTP small_http (Some (calendar_application (sql_ops pg_driver))) True live [] [] post_lunch pg_server"

definition lunch_db :: pg where
  "lunch_db = snd (app_storage (srv_app (snd lunch_answer)))"

definition before_lunch :: Time where
  "before_lunch = at_second 63900003570"

lemma lunch_answer_facts: "final_status (fst lunch_answer) = 201" "lunch_db = \<lparr>ev_rows = [(''m2'', row_of lunch_event, None)], nt_rows = []\<rparr>"
  by code_simp+

lemma lunch_event_facts:
  "valid_event lunch_event" "ID lunch_event = ''m2''" "TimeEqual (StartAt lunch_event) (pg_ts (StartAt lunch_event))"
  by code_simp+

lemma lunch_ready: "ready pg_ts lunch_marshal (pg_tab (w_db (fresh_world lunch_db)))"
proof -
  have tab: "pg_tab lunch_db = [''m2'' \<mapsto> (row_of lunch_event, None)]" by (simp add: lunch_answer_facts pg_tab_def)
  have cal: "calendar_of_table (pg_tab lunch_db) = [''m2'' \<mapsto> lunch_event]" unfolding tab by simp (simp add: calendar_of_table_def)
  show ?thesis
    using lunch_event_facts unfolding ready_def calendar_ok_def fresh_world_def sched_world.simps cal unfolding tab
    by (auto simp: lunch_marshal_def) (simp add: row_of_def)
qed

lemma lunch_rows: "rows_ok (\<lambda>n. wire_safe n \<and> storable n) (pg_tab (w_db (fresh_world lunch_db)))"
proof -
  have "wire_safe (notification_of lunch_event)" "storable (notification_of lunch_event)" by code_simp+
  then show ?thesis by (auto simp: rows_ok_def fresh_world_def lunch_answer_facts pg_tab_def)
qed

lemma lunch_times:
  "\<not> IsZero before_lunch" "0 < BatchSize daily" "\<not> IsZero (AddDate before_lunch (- RetentionYears daily) 0 0)"
  "in_years before_lunch" "in_years (AddDate before_lunch (- RetentionYears daily) 0 0)"
  "instant (pg_ts before_lunch) < instant (pg_ts (StartAt lunch_event))"
  "instant (pg_ts (StartAt lunch_event)) \<le> instant (pg_ts before_lunch) + 60 * second"
  "\<not> Before (pg_ts (StartAt lunch_event)) (pg_ts (AddDate before_lunch (- RetentionYears daily) 0 0))"
  by code_simp+

theorem accepted_event_is_notified_witness:
  "\<exists>x' v' n. RunOnce (sql_env pg_driver connected lunch_marshal (undisturbed (\<lambda>_. before_lunch) one_tick)) daily before_lunch
      (fresh_world lunch_db) = Some (None, x') \<and>
    RunStorer lunch_json (sql_storer_env pg_driver connected (draining (length (w_sent x')) (Err EOF) (\<lambda>_. before_lunch)))
      (partition_reader (\<lambda>k. w_sent x' ! k) (draining (length (w_sent x')) (Err EOF) (\<lambda>_. before_lunch)))
      ((idle_storer lunch_db)\<lparr>v_db := w_db x'\<rparr>) = Some (Some (Wrap [Lit ''fetch Kafka message''] (Err EOF)), v') \<and>
    map_of (nt_rows (v_db v')) ''m2'' = Some n \<and> n_Title n = ''lunch''"
proof -
  define q where "q = \<lparr>cr_Description = None, cr_EndAt = EndAt lunch, cr_Id = ''m2'',
    cr_NotifyBeforeSeconds = Some 60, cr_StartAt = StartAt lunch, cr_Title = ''lunch'', cr_UserId = ''u''\<rparr>"
  have url: "URLRawPath post_lunch = []" "Method post_lunch = ''POST''" "URLPath post_lunch = ''/api/v1/events''"
    by (simp_all add: post_lunch_def)
  have dec: "decodeJSON small_http (DecodeCreate small_http) post_lunch = Inr q" unfolding q_def by code_simp
  have new: "newStorageEvent (cr_Id q) (cr_Title q) (cr_StartAt q) (cr_EndAt q) (cr_Description q) (cr_UserId q)
      (cr_NotifyBeforeSeconds q) = Inr lunch_event" unfolding q_def by code_simp
  have k: "cr_NotifyBeforeSeconds q = Some 60" "(0::int) < 60" "(60::int) \<le> 9007199" by (simp_all add: q_def)
  have run: "ServeHTTP small_http (Some (calendar_application (sql_ops pg_driver))) True live [] [] post_lunch pg_server =
      (fst lunch_answer, snd lunch_answer)" by (simp add: lunch_answer_def)
  have start: "w_db (fresh_world lunch_db) = snd (app_storage (srv_app (snd lunch_answer)))" "w_sent (fresh_world lunch_db) = []"
    "v_pos (idle_storer lunch_db) = 0" "v_committed (idle_storer lunch_db) = 0"
    by (simp_all add: fresh_world_def idle_storer_def lunch_db_def)
  have "cr_Id q = ''m2''" "cr_Title q = ''lunch''" by (simp_all add: q_def)
  then show ?thesis
    using accepted_event_is_notified [OF pg_sched.healthy_scheduler_axioms pg_storer.healthy_storer_axioms pg_ts_law pg_due_law small_http_law
      small_http_chi lunch_codec url dec new k run lunch_answer_facts(1) start(1,2) lunch_ready lunch_rows lunch_times start(3,4),
      where clock = "\<lambda>_. before_lunch" and clock' = "\<lambda>_. before_lunch" and wake = one_tick and e = "Err EOF"]
    by metis
qed

end
