(* ===== verification/Monitoring.thy ===== *)
theory Monitoring
  imports Notification_Storer Notification_Scheduler Go_Duration Http_Router
begin

text \<open>
  The package \<open>internal/monitoring\<close>: the collectors of the three processes (\<open>registry.go\<close>, \<open>api.go\<close>, \<open>scheduler.go\<close>,
  \<open>storer.go\<close>) and the metrics server with \<open>RunWithServer\<close> (\<open>server.go\<close>).

  The Prometheus client is not part of the program. Its collectors are represented by the calls that are made on them, in order;
  \<open>MustRegister\<close> panics on a second collector of the same name. The other reasons of the client are not represented: descriptors of one
  name with different labels do not occur, every call passes the label values that its collector declares, and a label value
  that is not UTF-8 is outside the model. A duration is observed as its nanoseconds.
\<close>

subsection \<open>Registries\<close>

record Opts =
  Namespace :: string
  Subsystem :: string
  Name :: string
  label_names :: "string list"

definition fq_name :: "Opts \<Rightarrow> string" where
  "fq_name opts = (if Subsystem opts = [] then Namespace opts @ ''_'' @ Name opts
     else Namespace opts @ ''_'' @ Subsystem opts @ ''_'' @ Name opts)"

datatype collector_call =
    Inc Opts "string list"
  | SetGauge Opts int
  | Observe Opts "string list" int

type_synonym Registry = "string list"

text \<open>\<open>MustRegister\<close>: the names that are registered, or \<open>None\<close> for the panic.\<close>

fun MustRegister :: "Opts list \<Rightarrow> Registry \<Rightarrow> Registry option" where
  "MustRegister [] reg = Some reg"
| "MustRegister (c # cs) reg = (if fq_name c \<in> set reg then None else MustRegister cs (reg @ [fq_name c]))"

text \<open>\<open>newRegistry\<close> holds the collectors of the client for the Go runtime and the process, which are an argument.\<close>

definition newRegistry :: "string list \<Rightarrow> Registry" where
  "newRegistry lib_names = lib_names"

definition result :: "bool \<Rightarrow> string" where
  "result success = (if success then ''success'' else ''error'')"

subsection \<open>The collectors of the API\<close>

definition api_requests :: Opts where
  "api_requests = \<lparr>Namespace = ''calendar'', Subsystem = ''http'', Name = ''requests_total'',
     label_names = [''method'', ''route'', ''status_code'']\<rparr>"

definition api_requestDuration :: Opts where
  "api_requestDuration = \<lparr>Namespace = ''calendar'', Subsystem = ''http'', Name = ''request_duration_seconds'',
     label_names = [''method'', ''route'']\<rparr>"

definition api_eventOperations :: Opts where
  "api_eventOperations = \<lparr>Namespace = ''calendar'', Subsystem = ''event'', Name = ''operations_total'',
     label_names = [''operation'', ''result'']\<rparr>"

definition api_collectors :: "Opts list" where
  "api_collectors = [api_requests, api_requestDuration, api_eventOperations]"

definition NewAPI :: "string list \<Rightarrow> Registry option" where
  "NewAPI lib_names = MustRegister api_collectors (newRegistry lib_names)"

definition ObserveHTTPRequest :: "string \<Rightarrow> string \<Rightarrow> int \<Rightarrow> int \<Rightarrow> collector_call list" where
  "ObserveHTTPRequest m route status duration =
     (let duration = (if duration < 0 then 0 else duration)
      in [Inc api_requests [m, route, Itoa status], Observe api_requestDuration [m, route] duration])"

definition ObserveEventOperation :: "string \<Rightarrow> bool \<Rightarrow> collector_call list" where
  "ObserveEventOperation operation success = [Inc api_eventOperations [operation, result success]]"

subsection \<open>The collectors of the scheduler\<close>

definition sched_running :: Opts where
  "sched_running = \<lparr>Namespace = ''calendar'', Subsystem = ''scheduler'', Name = ''running'', label_names = []\<rparr>"

definition sched_cycles :: Opts where
  "sched_cycles = \<lparr>Namespace = ''calendar'', Subsystem = ''scheduler'', Name = ''cycles_total'', label_names = [''result'']\<rparr>"

definition sched_cycleDuration :: Opts where
  "sched_cycleDuration = \<lparr>Namespace = ''calendar'', Subsystem = ''scheduler'', Name = ''cycle_duration_seconds'', label_names = []\<rparr>"

definition sched_lastSuccess :: Opts where
  "sched_lastSuccess = \<lparr>Namespace = ''calendar'', Subsystem = ''scheduler'', Name = ''last_success_timestamp_seconds'',
     label_names = []\<rparr>"

definition sched_notificationsPublished :: Opts where
  "sched_notificationsPublished = \<lparr>Namespace = ''calendar'', Subsystem = [], Name = ''notifications_published_total'',
     label_names = [''result'']\<rparr>"

definition sched_collectors :: "Opts list" where
  "sched_collectors = [sched_running, sched_cycles, sched_cycleDuration, sched_lastSuccess, sched_notificationsPublished]"

definition NewSchedulerMetrics :: "string list \<Rightarrow> Registry option" where
  "NewSchedulerMetrics lib_names = MustRegister sched_collectors (newRegistry lib_names)"

definition Unix :: "Time \<Rightarrow> int" where
  "Unix t = instant t div second - 62135596800"

definition metrics_SetSchedulerRunning :: "bool \<Rightarrow> collector_call list" where
  "metrics_SetSchedulerRunning running = (if running then [SetGauge sched_running 1] else [SetGauge sched_running 0])"

definition metrics_ObserveSchedulerCycle :: "bool \<Rightarrow> Time \<Rightarrow> int \<Rightarrow> collector_call list" where
  "metrics_ObserveSchedulerCycle success finishedAt duration =
     (let duration = (if duration < 0 then 0 else duration)
      in [Inc sched_cycles [result success], Observe sched_cycleDuration [] duration] @
         (if success \<and> \<not> IsZero finishedAt then [SetGauge sched_lastSuccess (Unix finishedAt)] else []))"

definition metrics_ObserveNotificationPublished :: "bool \<Rightarrow> collector_call list" where
  "metrics_ObserveNotificationPublished success = [Inc sched_notificationsPublished [result success]]"

subsection \<open>The collectors of the storer\<close>

definition storer_running :: Opts where
  "storer_running = \<lparr>Namespace = ''calendar'', Subsystem = ''storer'', Name = ''running'', label_names = []\<rparr>"

definition storer_notifications :: Opts where
  "storer_notifications = \<lparr>Namespace = ''calendar'', Subsystem = [], Name = ''notifications_processed_total'',
     label_names = [''result'']\<rparr>"

definition storer_lastSuccess :: Opts where
  "storer_lastSuccess = \<lparr>Namespace = ''calendar'', Subsystem = ''storer'', Name = ''last_success_timestamp_seconds'',
     label_names = []\<rparr>"

definition storer_collectors :: "Opts list" where
  "storer_collectors = [storer_running, storer_notifications, storer_lastSuccess]"

definition NewStorerMetrics :: "string list \<Rightarrow> Registry option" where
  "NewStorerMetrics lib_names = MustRegister storer_collectors (newRegistry lib_names)"

definition metrics_SetStorerRunning :: "bool \<Rightarrow> collector_call list" where
  "metrics_SetStorerRunning running = (if running then [SetGauge storer_running 1] else [SetGauge storer_running 0])"

definition metrics_ObserveNotificationStored :: "bool \<Rightarrow> Time \<Rightarrow> collector_call list" where
  "metrics_ObserveNotificationStored success finishedAt =
     (let operationResult = (if success then ''stored'' else ''error'')
      in Inc storer_notifications [operationResult] #
         (if success \<and> \<not> IsZero finishedAt then [SetGauge storer_lastSuccess (Unix finishedAt)] else []))"

definition metrics_ObserveInvalidNotification :: "collector_call list" where
  "metrics_ObserveInvalidNotification = [Inc storer_notifications [''invalid'']]"

subsection \<open>The metrics server\<close>

text \<open>
  \<open>promhttp.HandlerFor\<close> of the Prometheus client is an argument; its flag is \<open>EnableOpenMetrics\<close>. The handler methods of the
  three types of collectors all return the handler of their registry.
\<close>

type_synonym http_handler = "http_request \<Rightarrow> writer_op list"

definition metricsHandler :: "(Registry \<Rightarrow> bool \<Rightarrow> http_handler) \<Rightarrow> Registry \<Rightarrow> http_handler" where
  "metricsHandler HandlerFor registry = HandlerFor registry True"

definition API_Handler :: "(Registry \<Rightarrow> bool \<Rightarrow> http_handler) \<Rightarrow> Registry \<Rightarrow> http_handler" where
  "API_Handler HandlerFor m = metricsHandler HandlerFor m"

definition Scheduler_Handler :: "(Registry \<Rightarrow> bool \<Rightarrow> http_handler) \<Rightarrow> Registry \<Rightarrow> http_handler" where
  "Scheduler_Handler HandlerFor m = metricsHandler HandlerFor m"

definition Storer_Handler :: "(Registry \<Rightarrow> bool \<Rightarrow> http_handler) \<Rightarrow> Registry \<Rightarrow> http_handler" where
  "Storer_Handler HandlerFor m = metricsHandler HandlerFor m"

definition NotFoundHandler :: http_handler where
  "NotFoundHandler r = [SetHeader ''Content-Type'' ''text/plain; charset=utf-8'', SetHeader ''X-Content-Type-Options'' ''nosniff'',
     WriteHeader 404, WriteBody (RawBody (''404 page not found'' @ [CHR 0x0A]))]"

text \<open>\<open>NewServer\<close>: the settings of the \<open>http.Server\<close> and what is registered with its \<open>ServeMux\<close>.\<close>

definition metrics_NewServer :: "string \<Rightarrow> http_handler option \<Rightarrow> http_Server \<times> (string \<times> http_handler) list" where
  "metrics_NewServer addr handler =
     (let handler = (case handler of None \<Rightarrow> NotFoundHandler | Some h \<Rightarrow> h)
      in (\<lparr>hs_Addr = addr, hs_ReadHeaderTimeout = 5 * second, hs_ReadTimeout = 10 * second, hs_WriteTimeout = 10 * second,
           hs_IdleTimeout = 60 * second\<rparr>, [(''/metrics'', handler)]))"

definition metrics_normalizeServerError :: "error option \<Rightarrow> error option" where
  "metrics_normalizeServerError err =
     (case err of None \<Rightarrow> None
      | Some e \<Rightarrow> if errors_is e (LibError ''http: Server closed'') then None else Some e)"

definition metrics_Stop :: "error option \<Rightarrow> error option" where
  "metrics_Stop shutdown = metrics_normalizeServerError shutdown"

text \<open>
  \<open>RunWithServer\<close> runs the process and \<open>Server.Start\<close> in two goroutines, and \<open>Start\<close> runs \<open>ListenAndServe\<close> in a third. Each
  has a control state; \<open>run_done\<close> tells that \<open>runCtx\<close> is done, by the context of the caller or by \<open>cancel\<close>. A goroutine
  that has returned has left its result in its buffered channel.
\<close>

datatype proc_ctl = Running | ProcReturned "error option"

datatype listen_ctl = NotListening | Listening | ListenReturned "error option"

datatype start_ctl =
    Entering
  | Serving
  | ShuttingDown
  | AwaitServe "error option"
  | StartReturned "error option"

datatype join_ctl =
    Selecting
  | AwaitServer "error option"
  | AwaitProcess "error option"
  | Joined "error option"

record joint =
  run_done :: bool
  process :: proc_ctl
  listener :: listen_ctl
  start :: start_ctl
  join :: join_ctl

definition joint_start :: "bool \<Rightarrow> joint" where
  "joint_start done_before =
     \<lparr>run_done = done_before, process = Running, listener = NotListening, start = Entering, join = Selecting\<rparr>"

datatype joint_action =
    ContextDone
  | ProcessReturns "error option"
  | ServeReturns "error option"
  | ShutdownReturns "error option"
  | StartEnters
  | StartSeesServe
  | StartSeesDone
  | StartAwaits
  | JoinSeesProcess
  | JoinSeesServer
  | JoinAwaits

text \<open>\<open>Server.Start\<close>, one action after the other.\<close>

definition start_action :: "joint_action \<Rightarrow> joint \<Rightarrow> joint option" where
  "start_action a j =
     (case (start j, a) of
        (Entering, StartEnters) \<Rightarrow>
          Some (if run_done j then j\<lparr>start := StartReturned None\<rparr> else j\<lparr>start := Serving, listener := Listening\<rparr>)
      | (Serving, StartSeesServe) \<Rightarrow>
          (case listener j of
             ListenReturned err \<Rightarrow> Some (j\<lparr>start := StartReturned (metrics_normalizeServerError err)\<rparr>)
           | _ \<Rightarrow> None)
      | (Serving, StartSeesDone) \<Rightarrow> if run_done j then Some (j\<lparr>start := ShuttingDown\<rparr>) else None
      | (ShuttingDown, ShutdownReturns err) \<Rightarrow> Some (j\<lparr>start := AwaitServe (metrics_Stop err)\<rparr>)
      | (AwaitServe stopErr, StartAwaits) \<Rightarrow>
          (case listener j of
             ListenReturned err \<Rightarrow>
               Some (j\<lparr>start := StartReturned (if stopErr \<noteq> None then stopErr else metrics_normalizeServerError err)\<rparr>)
           | _ \<Rightarrow> None)
      | _ \<Rightarrow> None)"

text \<open>The \<open>select\<close> of \<open>RunWithServer\<close> and what follows it.\<close>

definition join_action :: "joint_action \<Rightarrow> joint \<Rightarrow> joint option" where
  "join_action a j =
     (case (join j, a) of
        (Selecting, JoinSeesProcess) \<Rightarrow>
          (case process j of
             ProcReturned err \<Rightarrow> Some (j\<lparr>run_done := True, join := AwaitServer err\<rparr>) | Running \<Rightarrow> None)
      | (Selecting, JoinSeesServer) \<Rightarrow>
          (case start j of
             StartReturned err \<Rightarrow> Some (j\<lparr>run_done := True, join := AwaitProcess err\<rparr>) | _ \<Rightarrow> None)
      | (AwaitServer err, JoinAwaits) \<Rightarrow>
          (case start j of
             StartReturned serverErr \<Rightarrow> Some (j\<lparr>join := Joined (if err \<noteq> None then err else serverErr)\<rparr>) | _ \<Rightarrow> None)
      | (AwaitProcess err, JoinAwaits) \<Rightarrow>
          (case process j of
             ProcReturned serviceErr \<Rightarrow>
               Some (j\<lparr>join := Joined (case err of
                 Some e \<Rightarrow> Some (Wrap [Lit ''run metrics server''] e) | None \<Rightarrow> serviceErr)\<rparr>)
           | Running \<Rightarrow> None)
      | _ \<Rightarrow> None)"

definition joint_step :: "joint_action \<Rightarrow> joint \<Rightarrow> joint option" where
  "joint_step a j =
     (case a of
        ContextDone \<Rightarrow> if run_done j then None else Some (j\<lparr>run_done := True\<rparr>)
      | ProcessReturns err \<Rightarrow>
          if process j = Running then Some (j\<lparr>process := ProcReturned err\<rparr>) else None
      | ServeReturns err \<Rightarrow>
          if listener j = Listening then Some (j\<lparr>listener := ListenReturned err\<rparr>) else None
      | _ \<Rightarrow> if a \<in> {JoinSeesProcess, JoinSeesServer, JoinAwaits} then join_action a j else start_action a j)"

fun RunWithServer :: "joint_action list \<Rightarrow> joint \<Rightarrow> joint option" where
  "RunWithServer [] j = Some j"
| "RunWithServer (a # as) j = (case joint_step a j of None \<Rightarrow> None | Some j' \<Rightarrow> RunWithServer as j')"

subsection \<open>Both goroutines are awaited\<close>

fun start_ok :: "start_ctl \<Rightarrow> listen_ctl \<Rightarrow> bool \<Rightarrow> bool" where
  "start_ok Entering l d \<longleftrightarrow> l = NotListening"
| "start_ok Serving l d \<longleftrightarrow> l \<noteq> NotListening"
| "start_ok ShuttingDown l d \<longleftrightarrow> l \<noteq> NotListening \<and> d"
| "start_ok (AwaitServe _) l d \<longleftrightarrow> l \<noteq> NotListening \<and> d"
| "start_ok (StartReturned _) l d \<longleftrightarrow> l \<noteq> Listening"

text \<open>The result of \<open>RunWithServer\<close> from the results of the process and of the server.\<close>

definition joins :: "error option \<Rightarrow> error option \<Rightarrow> error option \<Rightarrow> bool" where
  "joins r pe se \<longleftrightarrow> (r = None \<longleftrightarrow> pe = None \<and> se = None) \<and>
     (r = pe \<or> r = se \<or> r = map_option (Wrap [Lit ''run metrics server'']) se)"

fun join_ok :: "join_ctl \<Rightarrow> proc_ctl \<Rightarrow> start_ctl \<Rightarrow> bool \<Rightarrow> bool" where
  "join_ok Selecting p s d \<longleftrightarrow> True"
| "join_ok (AwaitServer err) p s d \<longleftrightarrow> d \<and> p = ProcReturned err"
| "join_ok (AwaitProcess err) p s d \<longleftrightarrow> d \<and> s = StartReturned err"
| "join_ok (Joined r) p s d \<longleftrightarrow> d \<and> (\<exists>pe se. p = ProcReturned pe \<and> s = StartReturned se \<and> joins r pe se)"

definition joint_inv :: "joint \<Rightarrow> bool" where
  "joint_inv j \<longleftrightarrow> start_ok (start j) (listener j) (run_done j) \<and> join_ok (join j) (process j) (start j) (run_done j)"

lemma joint_start_inv: "joint_inv (joint_start b)"
  by (simp add: joint_inv_def joint_start_def)

lemma start_ok_mono: "start_ok s l d \<Longrightarrow> start_ok s l True"
  by (cases s) auto

lemma join_ok_mono: "join_ok c p s d \<Longrightarrow> join_ok c p s True"
  by (cases c) auto

lemma join_ok_busy: "join_ok c p s d \<Longrightarrow> (\<And>e. s \<noteq> StartReturned e) \<Longrightarrow> join_ok c p s' d"
  by (cases c) auto

lemma start_action_inv:
  assumes "joint_inv j" "start_action a j = Some j'"
  shows "joint_inv j'"
proof -
  have s: "start_ok (start j) (listener j) (run_done j)" and c: "join_ok (join j) (process j) (start j) (run_done j)"
    using assms(1) by (simp_all add: joint_inv_def)
  have "\<And>e. start j \<noteq> StartReturned e" using assms(2) by (auto simp: start_action_def)
  from join_ok_busy [OF c this] have c': "join_ok (join j) (process j) x (run_done j)" for x .
  show ?thesis
  proof (cases "start j")
    case Entering
    with s c' assms(2) show ?thesis
      by (auto simp: joint_inv_def start_action_def split: joint_action.splits if_splits)
  next
    case Serving
    with s c' assms(2) show ?thesis
      by (auto simp: joint_inv_def start_action_def split: joint_action.splits listen_ctl.splits if_splits)
  next
    case ShuttingDown
    with s c' assms(2) show ?thesis
      by (auto simp: joint_inv_def start_action_def split: joint_action.splits)
  next
    case (AwaitServe e)
    with s c' assms(2) show ?thesis
      by (auto simp: joint_inv_def start_action_def split: joint_action.splits listen_ctl.splits)
  qed (use assms(2) in \<open>simp add: start_action_def\<close>)
qed

lemma join_action_inv:
  assumes "joint_inv j" "join_action a j = Some j'"
  shows "joint_inv j'"
proof -
  have s: "start_ok (start j) (listener j) True" and c: "join_ok (join j) (process j) (start j) (run_done j)"
    using assms(1) start_ok_mono by (auto simp: joint_inv_def)
  show ?thesis
  proof (cases "join j")
    case Selecting
    with s assms(2) show ?thesis
      by (auto simp: joint_inv_def join_action_def split: joint_action.splits proc_ctl.splits start_ctl.splits)
  next
    case (AwaitServer err)
    with s c assms(2) show ?thesis
      by (auto simp: joint_inv_def join_action_def joins_def split: joint_action.splits start_ctl.splits)
  next
    case (AwaitProcess err)
    with s c assms(2) show ?thesis
      by (auto simp: joint_inv_def join_action_def joins_def split: joint_action.splits proc_ctl.splits option.splits)
  qed (use assms(2) in \<open>simp add: join_action_def\<close>)
qed

lemma joint_step_inv:
  assumes "joint_inv j" "joint_step a j = Some j'"
  shows "joint_inv j'"
proof (cases a)
  case (ProcessReturns err)
  with assms show ?thesis
    by (cases "join j") (auto simp: joint_inv_def joint_step_def split: if_splits)
next
  case (ServeReturns err)
  with assms show ?thesis
    by (cases "start j") (auto simp: joint_inv_def joint_step_def split: if_splits)
next
  case ContextDone
  with assms show ?thesis
    using start_ok_mono join_ok_mono by (auto simp: joint_inv_def joint_step_def split: if_splits)
qed (use assms in \<open>auto simp: joint_step_def intro: start_action_inv join_action_inv\<close>)

lemma RunWithServer_inv: "RunWithServer as j = Some j' \<Longrightarrow> joint_inv j \<Longrightarrow> joint_inv j'"
  by (induction as arbitrary: j) (auto split: option.splits dest: joint_step_inv)

subsection \<open>It ends\<close>

text \<open>
  The actions that are sure to come: those of the program itself, and the returns that are promised by what runs beside it, that of
  the process once its context is done, that of \<open>Shutdown\<close>, and that of \<open>ListenAndServe\<close> once the server was shut down.
\<close>

definition promised :: "joint_action \<Rightarrow> joint \<Rightarrow> bool" where
  "promised a j \<longleftrightarrow>
     (case a of
        ContextDone \<Rightarrow> False
      | ProcessReturns _ \<Rightarrow> run_done j
      | ServeReturns _ \<Rightarrow> (\<exists>e. start j = AwaitServe e)
      | _ \<Rightarrow> True)"

fun start_left :: "start_ctl \<Rightarrow> nat" where
  "start_left Entering = 4"
| "start_left Serving = 3"
| "start_left ShuttingDown = 2"
| "start_left (AwaitServe _) = 1"
| "start_left (StartReturned _) = 0"

fun join_left :: "join_ctl \<Rightarrow> nat" where
  "join_left Selecting = 2"
| "join_left (AwaitServer _) = 1"
| "join_left (AwaitProcess _) = 1"
| "join_left (Joined _) = 0"

definition joint_left :: "joint \<Rightarrow> nat" where
  "joint_left j = (if run_done j then 0 else 1) + (if process j = Running then 1 else 0) +
     (case listener j of Listening \<Rightarrow> 1 | _ \<Rightarrow> 0) + 2 * start_left (start j) + join_left (join j)"

lemma start_action_left:
  assumes "start_action a j = Some j'"
  shows "joint_left j' < joint_left j"
proof (cases "start j")
  case Entering
  with assms show ?thesis
    by (auto simp: start_action_def joint_left_def split: joint_action.splits listen_ctl.splits)
next
  case (AwaitServe e)
  with assms show ?thesis
    by (auto simp: start_action_def joint_left_def split: joint_action.splits listen_ctl.splits)
qed (use assms in \<open>auto simp: start_action_def joint_left_def split: joint_action.splits listen_ctl.splits if_splits\<close>)

lemma join_action_left:
  assumes "join_action a j = Some j'"
  shows "joint_left j' < joint_left j"
proof -
  obtain d c where j': "j' = j\<lparr>run_done := d, join := c\<rparr>" "run_done j \<longrightarrow> d" "join_left c < join_left (join j)"
  proof (cases "join j")
    case Selecting
    with assms that [where d = True] show ?thesis
      by (auto simp: join_action_def split: joint_action.splits start_ctl.splits proc_ctl.splits)
  next
    case (AwaitServer e)
    with assms that [where d = "run_done j"] show ?thesis
      by (auto simp: join_action_def split: joint_action.splits start_ctl.splits)
  next
    case (AwaitProcess e)
    with assms that [where d = "run_done j"] show ?thesis
      by (auto simp: join_action_def split: joint_action.splits proc_ctl.splits)
  qed (use assms in \<open>simp add: join_action_def\<close>)
  then show ?thesis by (simp add: joint_left_def)
qed

lemma joint_step_left:
  assumes "joint_step a j = Some j'"
  shows "joint_left j' < joint_left j"
  using assms by (cases a) (auto simp: joint_step_def joint_left_def split: if_splits dest: start_action_left join_action_left)

lemma RunWithServer_left: "RunWithServer as j = Some j' \<Longrightarrow> length as + joint_left j' \<le> joint_left j"
proof (induction as arbitrary: j)
  case (Cons a as)
  then obtain j1 where j1: "joint_step a j = Some j1" "RunWithServer as j1 = Some j'" by (auto split: option.splits)
  with Cons.IH [OF j1(2)] joint_step_left [OF j1(1)] show ?case by simp
qed simp

lemma start_proceeds:
  assumes "start_ok (start j) (listener j) (run_done j)" "run_done j" "\<And>e. start j \<noteq> StartReturned e"
  shows "\<exists>a j'. promised a j \<and> joint_step a j = Some j'"
proof (cases "start j")
  case Entering
  with assms(2) show ?thesis by (intro exI [of _ StartEnters]) (simp add: promised_def joint_step_def start_action_def)
next
  case Serving
  with assms(2) show ?thesis by (intro exI [of _ StartSeesDone]) (simp add: promised_def joint_step_def start_action_def)
next
  case ShuttingDown
  then show ?thesis by (intro exI [of _ "ShutdownReturns None"]) (simp add: promised_def joint_step_def start_action_def)
next
  case (AwaitServe e)
  show ?thesis
  proof (cases "listener j")
    case Listening
    with AwaitServe show ?thesis by (intro exI [of _ "ServeReturns None"]) (simp add: promised_def joint_step_def)
  next
    case (ListenReturned err)
    with AwaitServe show ?thesis by (intro exI [of _ StartAwaits]) (simp add: promised_def joint_step_def start_action_def)
  qed (use AwaitServe assms(1) in simp)
qed (use assms(3) in simp)

lemma joint_proceeds:
  assumes "joint_inv j" "\<And>r. join j \<noteq> Joined r" "run_done j \<or> process j \<noteq> Running \<or> (\<exists>e. start j = StartReturned e)"
  shows "\<exists>a j'. promised a j \<and> joint_step a j = Some j'"
proof -
  have s: "start_ok (start j) (listener j) (run_done j)" and c: "join_ok (join j) (process j) (start j) (run_done j)"
    using assms(1) by (simp_all add: joint_inv_def)
  note go = promised_def joint_step_def join_action_def
  show ?thesis
  proof (cases "join j")
    case Selecting
    show ?thesis
    proof (cases "process j")
      case (ProcReturned e)
      with Selecting show ?thesis by (intro exI [of _ JoinSeesProcess]) (simp add: go)
    next
      case Running
      then show ?thesis
      proof (cases "\<exists>e. start j = StartReturned e")
        case True
        with Selecting show ?thesis by (intro exI [of _ JoinSeesServer]) (auto simp: go)
      next
        case False
        with Running assms(3) have "run_done j" by simp
        with start_proceeds [OF s] False show ?thesis by blast
      qed
    qed
  next
    case (AwaitServer e)
    show ?thesis
    proof (cases "\<exists>e. start j = StartReturned e")
      case True
      with AwaitServer show ?thesis by (intro exI [of _ JoinAwaits]) (auto simp: go)
    next
      case False
      with start_proceeds [OF s] c AwaitServer show ?thesis by auto
    qed
  next
    case (AwaitProcess e)
    show ?thesis
    proof (cases "process j")
      case Running
      with AwaitProcess c show ?thesis by (intro exI [of _ "ProcessReturns None"]) (simp add: go)
    next
      case (ProcReturned e')
      with AwaitProcess show ?thesis by (intro exI [of _ JoinAwaits]) (simp add: go)
    qed
  qed (use assms(2) in simp)
qed

subsection \<open>What the counters of the scheduler say\<close>

text \<open>The calls on the collectors of the scheduler that one of its executions makes for its cycles and messages.\<close>

definition scheduler_calls :: "'d sched_world \<Rightarrow> collector_call list" where
  "scheduler_calls w =
     concat (map (\<lambda>(success, finishedAt, duration). metrics_ObserveSchedulerCycle success finishedAt duration) (w_cycles w)) @
     concat (map metrics_ObserveNotificationPublished (w_published w))"

definition counter_value :: "collector_call list \<Rightarrow> Opts \<Rightarrow> string list \<Rightarrow> nat" where
  "counter_value calls c labels = length (filter (\<lambda>call. call = Inc c labels) calls)"

lemma counter_value_simps [simp]:
  "counter_value [] c ls = 0"
  "counter_value (x # xs) c ls = (if x = Inc c ls then 1 else 0) + counter_value xs c ls"
  "counter_value (xs @ ys) c ls = counter_value xs c ls + counter_value ys c ls"
  by (simp_all add: counter_value_def)

lemmas scheduler_collectors =
  sched_running_def sched_cycles_def sched_cycleDuration_def sched_lastSuccess_def sched_notificationsPublished_def

lemma result_eq [simp]: "result a = result b \<longleftrightarrow> a = b"
  by (simp add: result_def)

lemma cycle_calls_not_published:
  "counter_value (concat (map (\<lambda>(b, t, d). metrics_ObserveSchedulerCycle b t d) cs)) sched_notificationsPublished ls = 0"
  by (induction cs) (auto simp: metrics_ObserveSchedulerCycle_def scheduler_collectors Let_def)

lemma published_calls:
  "counter_value (concat (map metrics_ObserveNotificationPublished bs)) sched_notificationsPublished [result b] =
    length (filter (\<lambda>x. x = b) bs)"
  by (induction bs) (auto simp: metrics_ObserveNotificationPublished_def)

lemma scheduler_published_value:
  "counter_value (scheduler_calls w) sched_notificationsPublished [result b] = length (filter (\<lambda>x. x = b) (w_published w))"
  by (simp add: scheduler_calls_def cycle_calls_not_published published_calls)

text \<open>An acknowledged message is counted as a success before anything else can fail.\<close>

definition tally :: "'d sched_world \<Rightarrow> bool" where
  "tally w \<longleftrightarrow> length (filter (\<lambda>x. x = True) (w_published w)) = length (w_sent w)"

lemma next_call_fields [simp]:
  "w_sent (next_call su w) = w_sent w" "w_published (next_call su w) = w_published w" "w_cycles (next_call su w) = w_cycles w"
  by (simp_all add: next_call_def)

lemma publish_tally:
  assumes "tally w" "publish (sql_env drv st mar su) ev t w = (r, w')"
  shows "tally w'"
  using assms
  by (auto simp: publish_def tally_def sql_env_def Let_def split: option.splits sum.splits prod.splits if_splits)

interpretation counted_messages: scheduler_invariant "sql_env drv st mar su" tally "\<lambda>_. True" for drv st mar su
proof (unfold_locales, goal_cases)
  case 10
  then show ?case by (blast intro: publish_tally)
qed (auto simp: tally_def sql_env_def list_all_iff split: prod.splits)

subsection \<open>Registration\<close>

lemma MustRegister_distinct:
  "distinct (map fq_name cs) \<Longrightarrow> set (map fq_name cs) \<inter> set reg = {} \<Longrightarrow> MustRegister cs reg = Some (reg @ map fq_name cs)"
  by (induction cs arbitrary: reg) auto

text \<open>The client's own collectors are named after the Go runtime and the process.\<close>

definition library_name :: "string \<Rightarrow> bool" where
  "library_name n \<longleftrightarrow> take 3 n = ''go_'' \<or> take 8 n = ''process_''"

lemma calendar_names:
  "\<not> list_ex library_name (map fq_name (api_collectors @ sched_collectors @ storer_collectors))"
  "distinct (map fq_name api_collectors)" "distinct (map fq_name sched_collectors)" "distinct (map fq_name storer_collectors)"
  by code_simp+

lemma registers:
  assumes "list_all library_name lib" "distinct (map fq_name cs)" "\<not> list_ex library_name (map fq_name cs)"
  shows "MustRegister cs (newRegistry lib) = Some (lib @ map fq_name cs)"
proof -
  have "set (map fq_name cs) \<inter> set lib = {}"
    using assms(1,3) by (auto simp: list_all_iff list_ex_iff)
  with assms(2) show ?thesis by (simp add: newRegistry_def MustRegister_distinct)
qed

subsection \<open>Properties\<close>

text \<open>
  C22: however the process, the metrics server and the context of the caller are interleaved, \<open>RunWithServer\<close> returns only after
  both have returned and no listener is left, its result is an error exactly when one of the two failed, and it is the error of
  one of them.
\<close>

theorem run_with_server_joins:
  assumes "RunWithServer as (joint_start b) = Some j" "join j = Joined r"
  shows "\<exists>pe se. process j = ProcReturned pe \<and> start j = StartReturned se \<and> listener j \<noteq> Listening \<and> run_done j \<and>
    (r = None \<longleftrightarrow> pe = None \<and> se = None) \<and> (r = pe \<or> r = se \<or> r = map_option (Wrap [Lit ''run metrics server'']) se)"
  using RunWithServer_inv [OF assms(1) joint_start_inv] assms(2) by (auto simp: joint_inv_def joins_def)

text \<open>
  C23: \<open>RunWithServer\<close> ends. No execution has more than twelve actions, and as soon as its context is done or one of its two
  goroutines has returned, and until it has returned itself, there is an action that is sure to come: one of its own or a
  return promised by a cancelled process or a server that was shut down.
\<close>

theorem run_with_server_ends:
  assumes "RunWithServer as (joint_start b) = Some j"
  shows "length as \<le> 12 \<and>
    ((\<exists>r. join j = Joined r) \<or> (\<exists>a j'. promised a j \<and> joint_step a j = Some j') \<or>
     \<not> run_done j \<and> process j = Running \<and> (\<forall>e. start j \<noteq> StartReturned e))"
proof -
  have "joint_left (joint_start b) \<le> 12" by (simp add: joint_start_def joint_left_def)
  then show ?thesis
    using RunWithServer_left [OF assms] joint_proceeds [OF RunWithServer_inv [OF assms joint_start_inv]] by fastforce
qed

text \<open>
  C24: the metrics of the scheduler tell the truth about its messages. In every execution over the SQL storage, whatever the broker,
  the context and other processes do, the counter of successful publications is the number of messages the broker
  acknowledged.
\<close>

theorem published_counter_exact:
  assumes "RunScheduler (sql_env drv st mar su) cfg w = Some (r, w')" "w_sent w = []" "w_published w = []"
  shows "counter_value (scheduler_calls w') sched_notificationsPublished [''success''] = length (w_sent w')"
proof -
  have "tally w" using assms(2,3) by (simp add: tally_def)
  from counted_messages.RunScheduler_inv [OF assms(1) this] show ?thesis
    using scheduler_published_value [of w' True] by (simp add: tally_def result_def)
qed

text \<open>A listener that fails to bind its address while the process runs: the process is cancelled and awaited.\<close>

definition bind_failure :: "joint_action list" where
  "bind_failure = [StartEnters, ServeReturns (Some (Err (LibError ''bind''))), StartSeesServe, JoinSeesServer,
     ProcessReturns None, JoinAwaits]"

theorem run_with_server_joins_witness:
  "\<exists>j. RunWithServer bind_failure (joint_start False) = Some j \<and>
     join j = Joined (Some (Wrap [Lit ''run metrics server''] (Err (LibError ''bind'')))) \<and> process j = ProcReturned None"
proof -
  define j where "j = the (RunWithServer bind_failure (joint_start False))"
  have run: "RunWithServer bind_failure (joint_start False) = Some j"
    and r: "join j = Joined (Some (Wrap [Lit ''run metrics server''] (Err (LibError ''bind''))))"
    and p: "process j = ProcReturned None" unfolding j_def by code_simp+
  from run_with_server_joins [OF run r] run r p show ?thesis by blast
qed

theorem run_with_server_ends_witness:
  "\<exists>j a j'. RunWithServer (take 3 bind_failure) (joint_start False) = Some j \<and> promised a j \<and> joint_step a j = Some j'"
proof -
  define j where "j = the (RunWithServer (take 3 bind_failure) (joint_start False))"
  have run: "RunWithServer (take 3 bind_failure) (joint_start False) = Some j"
    and r: "join j = Selecting" and s: "start j = StartReturned (Some (Err (LibError ''bind'')))"
    unfolding j_def by code_simp+
  from run_with_server_ends [OF run] run r s show ?thesis by auto
qed

theorem published_counter_exact_witness:
  "\<exists>w'. RunScheduler (sql_env pg_driver connected plain_payload calm_world) daily (fresh_world pg_one) = Some (None, w') \<and>
     counter_value (scheduler_calls w') sched_notificationsPublished [''success''] = length (w_sent w')"
proof -
  have "map_option fst (RunScheduler (sql_env pg_driver connected plain_payload calm_world) daily (fresh_world pg_one)) = Some None"
    by code_simp
  then obtain w' where run:
      "RunScheduler (sql_env pg_driver connected plain_payload calm_world) daily (fresh_world pg_one) = Some (None, w')"
    by auto
  from published_counter_exact [OF run] run show ?thesis by (simp add: fresh_world_def)
qed

end
