(* ===== verification/Service_Main.thy ===== *)
theory Service_Main
  imports Monitoring Service_Config Calendar_App
begin

text \<open>
  The three executables \<open>cmd/calendar\<close>, \<open>cmd/calendar_scheduler\<close> and \<open>cmd/calendar_storer\<close>, and the logger of
  \<open>internal/logger\<close>: how a process loads its configuration, acquires its resources, runs its service, and what its deferred
  functions release. The operating system, the flag package, the SQL and Kafka drivers and the schedule of the goroutines
  are the record \<open>host\<close>. \<open>None\<close> is an execution that has not returned.
\<close>

subsection \<open>The logger\<close>

type_synonym level = nat

definition errorLevel :: level where "errorLevel = 0"
definition warnLevel :: level where "warnLevel = 1"
definition infoLevel :: level where "infoLevel = 2"
definition debugLevel :: level where "debugLevel = 3"

lemmas levels = errorLevel_def warnLevel_def infoLevel_def debugLevel_def

definition parseLevel :: "string \<Rightarrow> error + level" where
  "parseLevel value =
     (if value = ''error'' then Inr errorLevel
      else if value = ''warn'' then Inr warnLevel
      else if value = ''info'' then Inr infoLevel
      else if value = ''debug'' then Inr debugLevel
      else Inl (errorf [Lit ''unsupported logger level '', Quoted value]))"

text \<open>
  The lines a logger has written, without the prefix that holds the time; a message may end with the text of an error.
\<close>

type_synonym log_text = "message \<times> error option"

record Logger =
  lg_level :: level
  lg_lines :: "log_text list"

definition newWithWriter :: "string \<Rightarrow> bool \<Rightarrow> error + Logger" where
  "newWithWriter logLevel writer_nil =
     (if writer_nil then Inl (errorf [Lit ''logger writer is nil''])
      else case parseLevel logLevel of
        Inl err \<Rightarrow> Inl err
      | Inr parsedLevel \<Rightarrow> Inr \<lparr>lg_level = parsedLevel, lg_lines = []\<rparr>)"

definition NewLogger :: "string \<Rightarrow> error + Logger" where
  "NewLogger lev = newWithWriter lev False"

definition pad5 :: "string \<Rightarrow> string" where
  "pad5 label = label @ replicate (5 - length label) (CHR '' '')"

definition log_at :: "level \<Rightarrow> string \<Rightarrow> log_text \<Rightarrow> Logger \<Rightarrow> Logger" where
  "log_at messageLevel label msg l =
     (if messageLevel > lg_level l then l
      else l\<lparr>lg_lines := lg_lines l @ [(Lit (pad5 label) # Lit '' '' # fst msg, snd msg)]\<rparr>)"

definition Debug :: "log_text \<Rightarrow> Logger \<Rightarrow> Logger" where "Debug = log_at debugLevel ''DEBUG''"
definition Warn :: "log_text \<Rightarrow> Logger \<Rightarrow> Logger" where "Warn = log_at warnLevel ''WARN''"
definition Info :: "log_text \<Rightarrow> Logger \<Rightarrow> Logger" where "Info = log_at infoLevel ''INFO''"
definition log_Error :: "log_text \<Rightarrow> Logger \<Rightarrow> Logger" where "log_Error = log_at errorLevel ''ERROR''"

subsection \<open>The surroundings of a process\<close>

datatype 'h resource = Database 'h | KafkaWriter | KafkaReader

datatype 'h life = Acquire "'h resource" | Release "'h resource"

text \<open>The servers a process has built: that of the API, and that of the metrics with its registrations.\<close>

datatype built_server = ApiServer http_Server bool | MetricsServer http_Server "(string \<times> http_handler) list"

text \<open>What a process prints: the version as a JSON object, or a text with an error.\<close>

datatype printed = VersionJSON string string string | ErrorLine string error

record ('h, 'w) process_state =
  ps_life :: "'h life list"
  ps_log :: "Logger option"
  ps_servers :: "built_server list"
  ps_stdout :: "printed list"
  ps_stderr :: "printed list"
  ps_world :: 'w

record ('h, 'w, 'conn) host =
  flags_Parse :: "string \<Rightarrow> string list \<Rightarrow> error + string \<times> string list"
  environ :: environment
  sql_open :: "string \<Rightarrow> error + 'h"
  sql_ping :: "'h \<Rightarrow> error option"
  sql_close :: "'h \<Rightarrow> error option"
  shutdown_ctx :: cctx
  signal_err :: "'w \<Rightarrow> error option \<times> 'w"
  host_retry_log :: "retry_entry \<Rightarrow> 'w \<Rightarrow> 'w"
  kafka_lib :: "('w, 'conn) kafka_client"
  retry_timer :: "'w \<Rightarrow> bool \<times> 'w"
  new_writer :: "WriterConfig \<Rightarrow> 'w messageWriter"
  new_reader :: "ReaderConfig \<Rightarrow> 'w messageReader"
  prom_names :: "string list"
  HandlerFor :: "Registry \<Rightarrow> bool \<Rightarrow> http_handler"
  stdout_err :: "error option"
  schedule :: "joint_action list"
  done_before :: bool
  service :: "'w \<Rightarrow> 'w"
  http_event :: server_event

type_synonym ('h, 'w) outcome = "(error option \<times> ('h, 'w) process_state) option"

definition lives :: "'h life list \<Rightarrow> ('h, 'w) process_state \<Rightarrow> ('h, 'w) process_state" where
  "lives ls st = st\<lparr>ps_life := ps_life st @ ls\<rparr>"

definition built :: "built_server \<Rightarrow> ('h, 'w) process_state \<Rightarrow> ('h, 'w) process_state" where
  "built srv st = st\<lparr>ps_servers := ps_servers st @ [srv]\<rparr>"

definition logging :: "(log_text \<Rightarrow> Logger \<Rightarrow> Logger) \<Rightarrow> log_text \<Rightarrow> ('h, 'w) process_state \<Rightarrow> ('h, 'w) process_state" where
  "logging f msg st = st\<lparr>ps_log := map_option (f msg) (ps_log st)\<rparr>"

text \<open>The \<open>err != nil\<close> branch of a deferred close: the error is only logged.\<close>

definition log_failure :: "string \<Rightarrow> error option \<Rightarrow> ('h, 'w) process_state \<Rightarrow> ('h, 'w) process_state" where
  "log_failure what err st =
     (case err of None \<Rightarrow> st | Some e \<Rightarrow> logging log_Error ([Lit what], Some e) st)"

subsection \<open>Steps the executables share\<close>

definition connectStorage ::
  "('h, 'w, 'conn) host \<Rightarrow> string \<Rightarrow> ('h, 'w) process_state \<Rightarrow> (error + 'h SqlStorage) \<times> ('h, 'w) process_state" where
  "connectStorage host d st =
     (case Connect (sql_open host) (sql_ping host) (NewSql d) of
        (Some err, _, closed) \<Rightarrow>
          (Inl (Wrap [Lit ''connect SQL storage''] err),
           lives (concat (map (\<lambda>h. [Acquire (Database h), Release (Database h)]) closed)) st)
      | (None, client, _) \<Rightarrow>
          (Inr client, lives (case db client of None \<Rightarrow> [] | Some h \<Rightarrow> [Acquire (Database h)]) st))"

definition closeStorage ::
  "('h, 'w, 'conn) host \<Rightarrow> 'h SqlStorage \<Rightarrow> ('h, 'w) process_state \<Rightarrow> ('h, 'w) process_state" where
  "closeStorage host client st =
     (case Close (sql_close host) (shutdown_ctx host) client of
        (err, _, closed) \<Rightarrow>
          log_failure ''failed to close storage: '' err (lives (map (\<lambda>h. Release (Database h)) closed) st))"

definition prepare_topic :: "('h, 'w, 'conn) host \<Rightarrow> KafkaSettings \<Rightarrow> ('h, 'w) process_state \<Rightarrow> ('h, 'w) outcome" where
  "prepare_topic host k st =
     map_option (\<lambda>(err, w). (err, st\<lparr>ps_world := w\<rparr>))
       (EnsureTopic (signal_err host) (Brokers k) (Topic k) (ConnectTimeout k) (RetryInitial k) (RetryMax k)
         (Some (host_retry_log host)) (kafka_lib host) (retry_timer host) (ps_world st))"

text \<open>The result of \<open>RunWithServer\<close> under the schedule of the host, once it has returned.\<close>

definition run_joint :: "('h, 'w, 'conn) host \<Rightarrow> ('h, 'w) process_state \<Rightarrow> ('h, 'w) outcome" where
  "run_joint host st =
     (case RunWithServer (schedule host) (joint_start (done_before host)) of
        None \<Rightarrow> None
      | Some j \<Rightarrow>
          (case join j of
             Joined r \<Rightarrow> Some (r, st\<lparr>ps_world := service host (ps_world st)\<rparr>)
           | _ \<Rightarrow> None))"

text \<open>
  \<open>main\<close> of each executable, around the result of its \<open>run\<close>: the exit code, and the error on the standard error stream.
\<close>

definition exit_with :: "string \<Rightarrow> ('h, 'w) outcome \<Rightarrow> (int \<times> ('h, 'w) process_state) option" where
  "exit_with name out = map_option (\<lambda>(err, st).
     case err of None \<Rightarrow> (0, st) | Some e \<Rightarrow> (1, st\<lparr>ps_stderr := ps_stderr st @ [ErrorLine (name @ '': '') e]\<rparr>)) out"

definition wrapped :: "string \<Rightarrow> error option \<Rightarrow> error option" where
  "wrapped what = map_option (Wrap [Lit what])"

subsection \<open>\<open>cmd/calendar_scheduler\<close>\<close>

definition close_producer :: "'w messageWriter \<Rightarrow> ('h, 'w) process_state \<Rightarrow> ('h, 'w) process_state" where
  "close_producer producer st =
     (case ProducerClose producer (ps_world st) of
        (err, w) \<Rightarrow> log_failure ''failed to close Kafka producer: '' err (lives [Release KafkaWriter] (st\<lparr>ps_world := w\<rparr>)))"

definition scheduler_process ::
  "('h, 'w, 'conn) host \<Rightarrow> SchedulerConfig \<Rightarrow> 'h SqlStorage \<Rightarrow> 'w messageWriter \<Rightarrow> ('h, 'w) process_state \<Rightarrow> ('h, 'w) outcome" where
  "scheduler_process host config client producer st =
     (case NewSchedulerMetrics (prom_names host) of None \<Rightarrow> None | Some metrics \<Rightarrow>
      case NewScheduler (Some client) (Some producer) (ps_log st)
          \<lparr>Interval = sch_Interval (scd_Scheduler config), BatchSize = sch_BatchSize (scd_Scheduler config),
           RetentionYears = sch_RetentionYears (scd_Scheduler config)\<rparr> [Some metrics] of
        Inl err \<Rightarrow> Some (Some (Wrap [Lit ''create scheduler''] err), st)
      | Inr _ \<Rightarrow>
          map_option (\<lambda>(err, st). (wrapped ''run scheduler'' err, st))
            (run_joint host (logging Info
              ([Lit ''calendar scheduler is starting; metrics are available at '', Plain (Metrics_Address (scd_Metrics config))], None)
              (built (case_prod MetricsServer
                (metrics_NewServer (Metrics_Address (scd_Metrics config)) (Some (Scheduler_Handler (HandlerFor host) metrics)))) st))))"

definition scheduler_connected ::
  "('h, 'w, 'conn) host \<Rightarrow> SchedulerConfig \<Rightarrow> 'h SqlStorage \<Rightarrow> ('h, 'w) process_state \<Rightarrow> ('h, 'w) outcome" where
  "scheduler_connected host config client st =
     Option.bind (prepare_topic host (scd_Kafka config) st) (\<lambda>(err, st).
       case err of
         Some e \<Rightarrow> Some (if errors_is e Canceled then None else Some (Wrap [Lit ''prepare Kafka topic''] e), st)
       | None \<Rightarrow>
           let k = scd_Kafka config; producer = NewProducer (new_writer host) (Brokers k) (Topic k) (WriteTimeout k)
           in map_option (\<lambda>(err, st). (err, close_producer producer st))
             (scheduler_process host config client producer (lives [Acquire KafkaWriter] st)))"

definition scheduler_configured ::
  "('h, 'w, 'conn) host \<Rightarrow> SchedulerConfig \<Rightarrow> ('h, 'w) process_state \<Rightarrow> ('h, 'w) outcome" where
  "scheduler_configured host config st =
     (case NewLogger (Level (scd_Logger config)) of Inl err \<Rightarrow> Some (Some (Wrap [Lit ''create logger''] err), st) | Inr logg \<Rightarrow>
      (case connectStorage host (st_DSN (scd_Storage config)) (st\<lparr>ps_log := Some logg\<rparr>) of
        (Inl err, st) \<Rightarrow> Some (Some err, st)
      | (Inr client, st) \<Rightarrow>
          map_option (\<lambda>(err, st). (err, closeStorage host client st)) (scheduler_connected host config client st)))"

definition scheduler_run ::
  "(int \<Rightarrow> int \<Rightarrow> int \<Rightarrow> int) \<Rightarrow> SchedulerConfig decode_file \<Rightarrow> ('h, 'w, 'conn) host \<Rightarrow> string list
    \<Rightarrow> ('h, 'w) process_state \<Rightarrow> ('h, 'w) outcome" where
  "scheduler_run frac df host args st =
     (case flags_Parse host ''/etc/calendar/scheduler.toml'' args of
        Inl err \<Rightarrow> Some (Some (Wrap [Lit ''parse command line''] err), st)
      | Inr (configFile, rest) \<Rightarrow>
      if rest \<noteq> [] then Some (Some (errorf [Lit ''unexpected arguments: '', Strs rest]), st) else
      (case LoadScheduler frac df (environ host) configFile of Inl err \<Rightarrow> Some (Some err, st) | Inr config \<Rightarrow> scheduler_configured host config st))"

subsection \<open>\<open>cmd/calendar_storer\<close>\<close>

definition close_consumer :: "'w messageReader \<Rightarrow> ('h, 'w) process_state \<Rightarrow> ('h, 'w) process_state" where
  "close_consumer consumer st =
     (case ConsumerClose consumer (ps_world st) of
        (err, w) \<Rightarrow> log_failure ''failed to close Kafka consumer: '' err (lives [Release KafkaReader] (st\<lparr>ps_world := w\<rparr>)))"

text \<open>The storer has copies of these two functions, with the same text.\<close>

definition storer_connectStorage ::
  "('h, 'w, 'conn) host \<Rightarrow> string \<Rightarrow> ('h, 'w) process_state \<Rightarrow> (error + 'h SqlStorage) \<times> ('h, 'w) process_state" where
  [simp]: "storer_connectStorage = connectStorage"

definition storer_closeStorage ::
  "('h, 'w, 'conn) host \<Rightarrow> 'h SqlStorage \<Rightarrow> ('h, 'w) process_state \<Rightarrow> ('h, 'w) process_state" where
  [simp]: "storer_closeStorage = closeStorage"

definition storer_process ::
  "('h, 'w, 'conn) host \<Rightarrow> StorerConfig \<Rightarrow> 'h SqlStorage \<Rightarrow> 'w messageReader \<Rightarrow> ('h, 'w) process_state \<Rightarrow> ('h, 'w) outcome" where
  "storer_process host config client consumer st =
     (case NewStorerMetrics (prom_names host) of None \<Rightarrow> None | Some metrics \<Rightarrow>
      case NewStorer (Some consumer) (Some client) (ps_log st) [Some metrics] of
        Inl err \<Rightarrow> Some (Some (Wrap [Lit ''create storer''] err), st)
      | Inr _ \<Rightarrow>
          map_option (\<lambda>(err, st). (wrapped ''run storer'' err, st))
            (run_joint host (logging Info
              ([Lit ''calendar storer is starting; metrics are available at '', Plain (Metrics_Address (Service_Config.sto_Metrics config))], None)
              (built (case_prod MetricsServer
                (metrics_NewServer (Metrics_Address (Service_Config.sto_Metrics config)) (Some (Storer_Handler (HandlerFor host) metrics)))) st))))"

definition storer_connected ::
  "('h, 'w, 'conn) host \<Rightarrow> StorerConfig \<Rightarrow> 'h SqlStorage \<Rightarrow> ('h, 'w) process_state \<Rightarrow> ('h, 'w) outcome" where
  "storer_connected host config client st =
     Option.bind (prepare_topic host (sto_Kafka config) st) (\<lambda>(err, st).
       case err of
         Some e \<Rightarrow> Some (if errors_is e Canceled then None else Some (Wrap [Lit ''prepare Kafka topic''] e), st)
       | None \<Rightarrow>
           let k = sto_Kafka config;
               consumer = NewConsumer (new_reader host) (Brokers k) (Topic k) (GroupID k) (MaxMessageBytes k)
           in map_option (\<lambda>(err, st). (err, close_consumer consumer st))
             (storer_process host config client consumer (lives [Acquire KafkaReader] st)))"

definition storer_configured ::
  "('h, 'w, 'conn) host \<Rightarrow> StorerConfig \<Rightarrow> ('h, 'w) process_state \<Rightarrow> ('h, 'w) outcome" where
  "storer_configured host config st =
     (case NewLogger (Level (sto_Logger config)) of Inl err \<Rightarrow> Some (Some (Wrap [Lit ''create logger''] err), st) | Inr logg \<Rightarrow>
      (case storer_connectStorage host (st_DSN (sto_Storage config)) (st\<lparr>ps_log := Some logg\<rparr>) of
        (Inl err, st) \<Rightarrow> Some (Some err, st)
      | (Inr client, st) \<Rightarrow>
          map_option (\<lambda>(err, st). (err, storer_closeStorage host client st)) (storer_connected host config client st)))"

definition storer_run ::
  "(int \<Rightarrow> int \<Rightarrow> int \<Rightarrow> int) \<Rightarrow> StorerConfig decode_file \<Rightarrow> ('h, 'w, 'conn) host \<Rightarrow> string list
    \<Rightarrow> ('h, 'w) process_state \<Rightarrow> ('h, 'w) outcome" where
  "storer_run frac df host args st =
     (case flags_Parse host ''/etc/calendar/storer.toml'' args of
        Inl err \<Rightarrow> Some (Some (Wrap [Lit ''parse command line''] err), st)
      | Inr (configFile, rest) \<Rightarrow>
      if rest \<noteq> [] then Some (Some (errorf [Lit ''unexpected arguments: '', Strs rest]), st) else
      (case LoadStorer frac df (environ host) configFile of Inl err \<Rightarrow> Some (Some err, st) | Inr config \<Rightarrow> storer_configured host config st))"

subsection \<open>\<open>cmd/calendar\<close>\<close>

text \<open>The storage \<open>newStorage\<close> chose; its \<open>closeStorage\<close> does nothing for the memory.\<close>

datatype 'h chosen_storage = MemoryStorage | SqlClient "'h SqlStorage"

definition newStorage ::
  "('h, 'w, 'conn) host \<Rightarrow> StorageSettings \<Rightarrow> ('h, 'w) process_state \<Rightarrow> (error + 'h chosen_storage) \<times> ('h, 'w) process_state" where
  "newStorage host config st =
     (if st_Type config = ''memory'' then (Inr MemoryStorage, st)
      else if st_Type config = ''sql'' then
        (case connectStorage host (st_DSN config) st of
           (Inl err, st) \<Rightarrow> (Inl err, st) | (Inr client, st) \<Rightarrow> (Inr (SqlClient client), st))
      else (Inl (errorf [Lit ''unsupported storage type '', Quoted (st_Type config)]), st))"

fun close_chosen :: "('h, 'w, 'conn) host \<Rightarrow> 'h chosen_storage \<Rightarrow> ('h, 'w) process_state \<Rightarrow> ('h, 'w) process_state" where
  "close_chosen host MemoryStorage st = st"
| "close_chosen host (SqlClient client) st = closeStorage host client st"

definition calendar_serve :: "('h, 'w, 'conn) host \<Rightarrow> CalendarConfig \<Rightarrow> ('h, 'w) process_state \<Rightarrow> ('h, 'w) outcome" where
  "calendar_serve host config st =
     (case NewAPI (prom_names host) of None \<Rightarrow> None | Some metrics \<Rightarrow>
      let st = built (case_prod ApiServer (NewServer (HTTP_Address (cal_HTTP config)) [Some metrics])) st;
          st = logging Info ([Lit ''calendar is starting at '', Plain (HTTP_Address (cal_HTTP config))], None) st;
          st = st\<lparr>ps_world := service host (ps_world st)\<rparr>
      in Some (wrapped ''run HTTP server'' (Start (http_event host)), st))"

definition calendar_configured ::
  "('h, 'w, 'conn) host \<Rightarrow> CalendarConfig \<Rightarrow> ('h, 'w) process_state \<Rightarrow> ('h, 'w) outcome" where
  "calendar_configured host config st =
     (case NewLogger (Level (cal_Logger config)) of Inl err \<Rightarrow> Some (Some (Wrap [Lit ''create logger''] err), st) | Inr logg \<Rightarrow>
      (case newStorage host (cal_Storage config) (st\<lparr>ps_log := Some logg\<rparr>) of
        (Inl err, st) \<Rightarrow> Some (Some err, st)
      | (Inr storage, st) \<Rightarrow>
          map_option (\<lambda>(err, st). (err, close_chosen host storage st)) (calendar_serve host config st)))"

text \<open>\<open>version.go\<close>, with the values the variables have unless the linker sets others, and \<open>config.go\<close>.\<close>

definition printVersion :: "('h, 'w, 'conn) host \<Rightarrow> ('h, 'w) process_state \<Rightarrow> ('h, 'w) process_state" where
  "printVersion host st =
     st\<lparr>ps_stdout := ps_stdout st @ (case stdout_err host of
          None \<Rightarrow> [VersionJSON ''UNKNOWN'' ''UNKNOWN'' ''UNKNOWN'']
        | Some err \<Rightarrow> [ErrorLine ''error while encode version info: '' err])\<rparr>"

definition NewConfig :: CalendarConfig where
  "NewConfig = NewCalendarConfig"

definition LoadConfig :: "CalendarConfig decode_file \<Rightarrow> environment \<Rightarrow> string \<Rightarrow> error + CalendarConfig" where
  "LoadConfig = LoadCalendar"

definition calendar_run ::
  "CalendarConfig decode_file \<Rightarrow> ('h, 'w, 'conn) host \<Rightarrow> string list \<Rightarrow> ('h, 'w) process_state \<Rightarrow> ('h, 'w) outcome" where
  "calendar_run df host args st =
     (if args \<noteq> [] \<and> hd args = ''version'' then Some (None, printVersion host st)
      else case flags_Parse host ''/etc/calendar/config.toml'' args of
        Inl err \<Rightarrow> Some (Some (Wrap [Lit ''parse command line''] err), st)
      | Inr (configFile, rest) \<Rightarrow>
      if rest \<noteq> [] then Some (Some (errorf [Lit ''unexpected arguments: '', Strs rest]), st) else
      (case LoadConfig df (environ host) configFile of Inl err \<Rightarrow> Some (Some err, st) | Inr config \<Rightarrow> calendar_configured host config st))"

subsection \<open>\<open>main\<close>\<close>

definition calendar_main ::
  "CalendarConfig decode_file \<Rightarrow> ('h, 'w, 'conn) host \<Rightarrow> string list \<Rightarrow> ('h, 'w) process_state
    \<Rightarrow> (int \<times> ('h, 'w) process_state) option" where
  "calendar_main df host args st = exit_with ''calendar'' (calendar_run df host args st)"

definition scheduler_main ::
  "(int \<Rightarrow> int \<Rightarrow> int \<Rightarrow> int) \<Rightarrow> SchedulerConfig decode_file \<Rightarrow> ('h, 'w, 'conn) host \<Rightarrow> string list \<Rightarrow> ('h, 'w) process_state
    \<Rightarrow> (int \<times> ('h, 'w) process_state) option" where
  "scheduler_main frac df host args st = exit_with ''calendar_scheduler'' (scheduler_run frac df host args st)"

definition storer_main ::
  "(int \<Rightarrow> int \<Rightarrow> int \<Rightarrow> int) \<Rightarrow> StorerConfig decode_file \<Rightarrow> ('h, 'w, 'conn) host \<Rightarrow> string list \<Rightarrow> ('h, 'w) process_state
    \<Rightarrow> (int \<times> ('h, 'w) process_state) option" where
  "storer_main frac df host args st = exit_with ''calendar_storer'' (storer_run frac df host args st)"

subsection \<open>Resources\<close>

text \<open>The resources in use, the last one acquired first; a release of anything else is an error.\<close>

fun in_use :: "'h life list \<Rightarrow> 'h resource list \<Rightarrow> 'h resource list option" where
  "in_use [] rs = Some rs"
| "in_use (Acquire r # ls) rs = in_use ls (r # rs)"
| "in_use (Release r # ls) rs = (case rs of [] \<Rightarrow> None | x # xs \<Rightarrow> if x = r then in_use ls xs else None)"

definition neutral :: "'h life list \<Rightarrow> bool" where
  "neutral ls \<longleftrightarrow> (\<forall>rs. in_use ls rs = Some rs)"

lemma in_use_append: "in_use (xs @ ys) rs = Option.bind (in_use xs rs) (in_use ys)"
  by (induction xs rs rule: in_use.induct) (auto split: list.splits)

lemma neutral_Nil [simp]: "neutral []"
  by (simp add: neutral_def)

lemma neutral_append: "neutral xs \<Longrightarrow> neutral ys \<Longrightarrow> neutral (xs @ ys)"
  by (simp add: neutral_def in_use_append)

lemma neutral_bracket: "neutral ls \<Longrightarrow> neutral (Acquire r # ls @ [Release r])"
  by (simp add: neutral_def in_use_append)

text \<open>A part of an execution that releases what it acquires, in reverse order.\<close>

definition releases :: "('h, 'w) process_state \<Rightarrow> ('h, 'w) process_state \<Rightarrow> bool" where
  "releases st st' \<longleftrightarrow> (\<exists>ls. neutral ls \<and> ps_life st' = ps_life st @ ls)"

lemma ps_life_simps [simp]:
  "ps_life (built srv st) = ps_life st" "ps_life (printVersion host st) = ps_life st"
  "ps_life (lives ls st) = ps_life st @ ls" "ps_life (logging f msg st) = ps_life st" "ps_life (log_failure what err st) = ps_life st"
  by (simp_all add: built_def printVersion_def lives_def logging_def log_failure_def split: option.split)

lemma releases_same: "ps_life st' = ps_life st \<Longrightarrow> releases st st'"
  by (auto simp: releases_def)

lemma releases_trans: "releases st st1 \<Longrightarrow> releases st1 st2 \<Longrightarrow> releases st st2"
  unfolding releases_def by (metis append.assoc neutral_append)

lemma releases_bracket:
  assumes "ps_life st1 = ps_life st @ [Acquire r]" "releases st1 st2" "ps_life st3 = ps_life st2 @ [Release r]"
  shows "releases st st3"
proof -
  from assms(2) obtain ls where ls: "neutral ls" "ps_life st2 = ps_life st1 @ ls" by (auto simp: releases_def)
  have "ps_life st3 = ps_life st @ (Acquire r # ls @ [Release r])" using assms(1,3) ls(2) by simp
  with neutral_bracket [OF ls(1)] show ?thesis by (auto simp: releases_def)
qed

lemma prepare_topic_releases: "prepare_topic host k st = Some (r, st') \<Longrightarrow> releases st st'"
  by (auto simp: prepare_topic_def intro!: releases_same)

lemma run_joint_releases: "run_joint host st = Some (r, st') \<Longrightarrow> releases st st'"
  by (auto simp: run_joint_def intro!: releases_same split: option.splits join_ctl.splits)

lemma neutral_opened_closed: "neutral (concat (map (\<lambda>h. [Acquire (Database h), Release (Database h)]) hs))"
  by (induction hs) (simp_all add: neutral_def)

lemma connectStorage_fails: "connectStorage host d st = (Inl err, st') \<Longrightarrow> releases st st'"
  using neutral_opened_closed by (auto simp: connectStorage_def releases_def split: prod.splits option.splits)

lemma connectStorage_opens:
  assumes "connectStorage host d st = (Inr client, st')"
  obtains h where "db client = Some h" "ps_life st' = ps_life st @ [Acquire (Database h)]"
  using assms by (auto simp: connectStorage_def Connect_def NewSql_def split: prod.splits option.splits if_splits sum.splits)

lemma closeStorage_life:
  assumes "shutdown_ctx host 0 = None" "db client = Some h"
  shows "ps_life (closeStorage host client st) = ps_life st @ [Release (Database h)]"
  using assms by (auto simp: closeStorage_def Close_def split: option.splits)

lemma storage_bracket:
  assumes "shutdown_ctx host 0 = None" "connectStorage host d st = (Inr client, st1)" "releases st1 st2"
  shows "releases st (closeStorage host client st2)"
proof -
  obtain h where h: "db client = Some h" "ps_life st1 = ps_life st @ [Acquire (Database h)]"
    using connectStorage_opens [OF assms(2)] .
  from releases_bracket [OF h(2) assms(3)] closeStorage_life [OF assms(1) h(1)] show ?thesis by blast
qed

lemma scheduler_process_releases: "scheduler_process host config client producer st = Some (r, st') \<Longrightarrow> releases st st'"
  by (auto simp: scheduler_process_def releases_def split: option.splits sum.splits
      dest!: run_joint_releases)

lemma storer_process_releases: "storer_process host config client consumer st = Some (r, st') \<Longrightarrow> releases st st'"
  by (auto simp: storer_process_def releases_def split: option.splits sum.splits
      dest!: run_joint_releases)

lemma close_producer_life: "ps_life (close_producer producer st) = ps_life st @ [Release KafkaWriter]"
  by (simp add: close_producer_def split: prod.split)

lemma close_consumer_life: "ps_life (close_consumer consumer st) = ps_life st @ [Release KafkaReader]"
  by (simp add: close_consumer_def split: prod.split)

lemma scheduler_connected_releases:
  assumes "scheduler_connected host config client st = Some (r, st')"
  shows "releases st st'"
proof -
  obtain e st1 where t: "prepare_topic host (scd_Kafka config) st = Some (e, st1)"
    using assms by (auto simp: scheduler_connected_def split: bind_splits)
  note st1 = prepare_topic_releases [OF t]
  show ?thesis
  proof (cases e)
    case None
    then obtain x r2 st2 where p: "scheduler_process host config client x (lives [Acquire KafkaWriter] st1) = Some (r2, st2)"
      "st' = close_producer x st2"
      using assms t by (auto simp: scheduler_connected_def Let_def)
    have "releases st1 st'"
      using releases_bracket [OF _ scheduler_process_releases [OF p(1)]] close_producer_life p(2) by fastforce
    with st1 show ?thesis by (rule releases_trans)
  qed (use assms t st1 in \<open>simp add: scheduler_connected_def\<close>)
qed

lemma storer_connected_releases:
  assumes "storer_connected host config client st = Some (r, st')"
  shows "releases st st'"
proof -
  obtain e st1 where t: "prepare_topic host (sto_Kafka config) st = Some (e, st1)"
    using assms by (auto simp: storer_connected_def split: bind_splits)
  note st1 = prepare_topic_releases [OF t]
  show ?thesis
  proof (cases e)
    case None
    then obtain x r2 st2 where p: "storer_process host config client x (lives [Acquire KafkaReader] st1) = Some (r2, st2)"
      "st' = close_consumer x st2"
      using assms t by (auto simp: storer_connected_def Let_def)
    have "releases st1 st'"
      using releases_bracket [OF _ storer_process_releases [OF p(1)]] close_consumer_life p(2) by fastforce
    with st1 show ?thesis by (rule releases_trans)
  qed (use assms t st1 in \<open>simp add: storer_connected_def\<close>)
qed

lemma releases_logged [simp]: "releases (st\<lparr>ps_log := lg\<rparr>) st' = releases st st'"
  by (simp add: releases_def)

lemma logged_storage_bracket:
  assumes "shutdown_ctx host 0 = None" "connectStorage host d (st\<lparr>ps_log := lg\<rparr>) = (Inr client, st1)" "releases st1 st2"
  shows "releases st (closeStorage host client st2)"
  using storage_bracket [OF assms] by simp

lemma logged_storage_fails: "connectStorage host d (st\<lparr>ps_log := lg\<rparr>) = (Inl err, st') \<Longrightarrow> releases st st'"
  using connectStorage_fails [of host d "st\<lparr>ps_log := lg\<rparr>"] by simp

lemma scheduler_run_releases:
  assumes "shutdown_ctx host 0 = None" "scheduler_run frac df host args st = Some (r, st')"
  shows "releases st st'"
  using assms unfolding scheduler_run_def scheduler_configured_def
  by (auto split: sum.splits prod.splits if_splits
      intro: releases_same logged_storage_bracket scheduler_connected_releases logged_storage_fails)

lemma storer_run_releases:
  assumes "shutdown_ctx host 0 = None" "storer_run frac df host args st = Some (r, st')"
  shows "releases st st'"
  using assms unfolding storer_run_def storer_configured_def
  by (auto split: sum.splits prod.splits if_splits
      intro: releases_same logged_storage_bracket storer_connected_releases logged_storage_fails)

lemma calendar_serve_releases: "calendar_serve host config st = Some (r, st') \<Longrightarrow> releases st st'"
  by (auto simp: calendar_serve_def Let_def intro!: releases_same split: option.splits)

lemma newStorage_bracket:
  assumes "shutdown_ctx host 0 = None" "newStorage host cfg (st\<lparr>ps_log := lg\<rparr>) = (Inr storage, st1)" "releases st1 st2"
  shows "releases st (close_chosen host storage st2)"
proof (cases storage)
  case MemoryStorage
  with assms show ?thesis by (auto simp: newStorage_def split: if_splits prod.splits sum.splits)
next
  case (SqlClient client)
  with assms show ?thesis
    by (auto simp: newStorage_def split: if_splits prod.splits sum.splits intro: logged_storage_bracket)
qed

lemma newStorage_fails: "newStorage host cfg (st\<lparr>ps_log := lg\<rparr>) = (Inl err, st') \<Longrightarrow> releases st st'"
  by (auto simp: newStorage_def split: if_splits prod.splits sum.splits intro: logged_storage_fails releases_same)

lemma calendar_run_releases:
  assumes "shutdown_ctx host 0 = None" "calendar_run df host args st = Some (r, st')"
  shows "releases st st'"
  using assms unfolding calendar_run_def calendar_configured_def
  by (auto split: sum.splits prod.splits if_splits
      intro: releases_same newStorage_bracket calendar_serve_releases newStorage_fails)

lemma Logger_validate_NewLogger: "Logger_validate c = None \<Longrightarrow> \<exists>logg. NewLogger (Level c) = Inr logg"
  by (auto simp: Logger_validate_def NewLogger_def newWithWriter_def parseLevel_def split: if_splits)

lemma registered_scheduler_metrics: "list_all library_name lib \<Longrightarrow> \<exists>m. NewSchedulerMetrics lib = Some m"
  using registers [OF _ calendar_names(3)] calendar_names(1) by (simp add: NewSchedulerMetrics_def)

lemma scheduler_process_result:
  assumes "LoadScheduler frac df env path = Inr config" "list_all library_name (prom_names host)" "ps_log st = Some logg"
  shows "scheduler_process host config client producer st = map_option (\<lambda>(err, st). (wrapped ''run scheduler'' err, st))
    (run_joint host (logging Info
      ([Lit ''calendar scheduler is starting; metrics are available at '', Plain (Metrics_Address (scd_Metrics config))], None)
      (built (case_prod MetricsServer (metrics_NewServer (Metrics_Address (scd_Metrics config))
        (Some (Scheduler_Handler (HandlerFor host) (the (NewSchedulerMetrics (prom_names host))))))) st)))"
proof -
  obtain m where "NewSchedulerMetrics (prom_names host) = Some m" using registered_scheduler_metrics [OF assms(2)] by blast
  with loaded_scheduler_settings [OF assms(1)] assms(3) show ?thesis
    by (simp add: scheduler_process_def NewScheduler_def)
qed

subsection \<open>Properties\<close>

text \<open>
  C20: no process leaks. On every path on which one of the three executables returns, with or without an error, the database
  handle and the Kafka client it opened are released exactly once, in reverse order of their acquisition, provided the
  three seconds of the shutdown context are not over before the storage is closed.
\<close>

theorem services_release_resources:
  assumes "shutdown_ctx host 0 = None" "ps_life st = []"
    and "calendar_run cdf host args st = Some (r, st') \<or> scheduler_run frac sdf host args st = Some (r, st') \<or>
      storer_run frac tdf host args st = Some (r, st')"
  shows "in_use (ps_life st') [] = Some []"
proof -
  have "releases st st'"
    using assms(1,3) calendar_run_releases scheduler_run_releases storer_run_releases by blast
  with assms(2) show ?thesis by (auto simp: releases_def neutral_def)
qed

text \<open>
  C21: the scheduler fails for outside reasons only. Once its flags are parsed and its configuration is loaded, neither the
  logger nor the topic name nor the scheduler itself can reject a setting: the process returns an error only when the database cannot
  be reached, when Kafka answers the preparation of the topic with an error, or when the service or its metrics server
  failed; a termination signal during the preparation is a clean exit.
\<close>

theorem scheduler_exit_reasons:
  assumes "flags_Parse host ''/etc/calendar/scheduler.toml'' args = Inr (path, [])"
    and "LoadScheduler frac df (environ host) path = Inr config" "list_all library_name (prom_names host)"
    and "scheduler_run frac df host args st = Some (r, st')"
  shows "r = None \<or>
    (\<exists>e. r = Some (Wrap [Lit ''connect SQL storage''] e)) \<or>
    (\<exists>e w w'. r = Some (Wrap [Lit ''prepare Kafka topic''] e) \<and> \<not> errors_is e Canceled \<and>
      ensureTopic (signal_err host) (Topic (scd_Kafka config)) (RetryInitial (scd_Kafka config)) (RetryMax (scd_Kafka config))
        (Some (host_retry_log host)) (kafka_lib host)
        (probeTopic (kafka_lib host) (signal_err host) (Brokers (scd_Kafka config)) (Topic (scd_Kafka config)))
        (\<lambda>_. waitForRetry (retry_timer host) (signal_err host)) w = Some (Some e, w')) \<or>
    (\<exists>e j. r = Some (Wrap [Lit ''run scheduler''] e) \<and>
      RunWithServer (schedule host) (joint_start (done_before host)) = Some j \<and> join j = Joined (Some e))"
proof -
  have "Scheduler_Validate config = None"
    using load_stepsE [OF assms(2) [unfolded LoadScheduler_def]] by blast
  then have "Logger_validate (scd_Logger config) = None" by (simp add: Scheduler_Validate_def split: option.splits)
  then obtain logg where logg: "NewLogger (Level (scd_Logger config)) = Inr logg" using Logger_validate_NewLogger by blast
  obtain x st1 where c: "connectStorage host (st_DSN (scd_Storage config)) (st\<lparr>ps_log := Some logg\<rparr>) = (x, st1)" by fastforce
  show ?thesis
  proof (cases x)
    case (Inl err)
    with assms logg c show ?thesis
      by (auto simp: scheduler_run_def scheduler_configured_def connectStorage_def split: prod.splits option.splits)
  next
    case (Inr client)
    then obtain st2 where run: "scheduler_connected host config client st1 = Some (r, st2)"
      using assms logg c by (auto simp: scheduler_run_def scheduler_configured_def)
    have lg: "ps_log st1 = Some logg" using c Inr
      by (auto simp: connectStorage_def lives_def split: prod.splits option.splits)
    show ?thesis
      using run loaded_scheduler_settings [OF assms(2)] lg
      by (auto simp: scheduler_connected_def Let_def prepare_topic_def EnsureTopic_def run_joint_def wrapped_def lives_def
          scheduler_process_result [OF assms(2,3)] split: bind_splits option.splits if_splits join_ctl.splits) blast
  qed
qed

text \<open>A host on which everything works until the metrics server cannot bind its address.\<close>

definition small_host :: "(nat, nat, nat) host" where
  "small_host = \<lparr>
     flags_Parse = (\<lambda>d args. Inr (d, args)),
     environ = sample_env(''CALENDAR_METRICS_PORT'' \<mapsto> ''9''),
     sql_open = (\<lambda>_. Inr 7),
     sql_ping = (\<lambda>_. None),
     sql_close = (\<lambda>_. Some (Err (LibError ''close''))),
     shutdown_ctx = live,
     signal_err = (\<lambda>w. (None, w)),
     host_retry_log = (\<lambda>_ w. w),
     kafka_lib = \<lparr>CreateTopics = (\<lambda>t n r w. (Inr (Some Map.empty), w)), DialLeader = (\<lambda>b t w. (Inr 0, w)), CloseConn = (\<lambda>c w. (None, w)),
       TopicAlreadyExists = 36, Temporary = (\<lambda>_. False)\<rparr>,
     retry_timer = (\<lambda>w. (False, w)),
     new_writer = (\<lambda>_. \<lparr>WriteMessages = (\<lambda>k v w. (None, w)), CloseWriter = (\<lambda>w. (None, w))\<rparr>),
     new_reader = (\<lambda>_. \<lparr>FetchMessage = (\<lambda>w. (Inl (Err Canceled), w)), CommitMessages = (\<lambda>m w. (None, w)), CloseReader = (\<lambda>w. (None, w))\<rparr>),
     prom_names = [''go_goroutines''],
     HandlerFor = (\<lambda>reg om r. [WriteHeader 200]),
     stdout_err = None,
     schedule = bind_failure,
     done_before = False,
     service = (\<lambda>w. w),
     http_event = AlreadyDone\<rparr>"

definition new_process :: "(nat, nat) process_state" where
  "new_process = \<lparr>ps_life = [], ps_log = None, ps_servers = [], ps_stdout = [], ps_stderr = [], ps_world = 0\<rparr>"

lemma small_host_run:
  "map_option (\<lambda>(r, st). (r, ps_life st)) (scheduler_run (\<lambda>_ _ _. 0) dsn_file small_host [] new_process) =
    Some (Some (Wrap [Lit ''run scheduler''] (Wrap [Lit ''run metrics server''] (Err (LibError ''bind'')))),
      [Acquire (Database 7), Acquire KafkaWriter, Release KafkaWriter, Release (Database 7)])"
  by code_simp

theorem services_release_resources_witness:
  "\<exists>r st'. scheduler_run (\<lambda>_ _ _. 0) dsn_file small_host [] new_process = Some (r, st') \<and>
     ps_life st' = [Acquire (Database 7), Acquire KafkaWriter, Release KafkaWriter, Release (Database 7)] \<and>
     in_use (ps_life st') [] = Some []"
proof -
  from small_host_run obtain r st' where out: "scheduler_run (\<lambda>_ _ _. 0) dsn_file small_host [] new_process = Some (r, st')"
    and ls: "ps_life st' = [Acquire (Database 7), Acquire KafkaWriter, Release KafkaWriter, Release (Database 7)]"
    by auto
  have "shutdown_ctx small_host 0 = None" "ps_life new_process = []" by code_simp+
  from services_release_resources [OF this disjI2, OF disjI1, OF out] out ls show ?thesis by blast
qed

theorem scheduler_exit_reasons_witness:
  "\<exists>j e st'. scheduler_run (\<lambda>_ _ _. 0) dsn_file small_host [] new_process = Some (Some (Wrap [Lit ''run scheduler''] e), st') \<and>
     RunWithServer (schedule small_host) (joint_start False) = Some j \<and> join j = Joined (Some e)"
proof -
  from small_host_run obtain e st' where
      out: "scheduler_run (\<lambda>_ _ _. 0) dsn_file small_host [] new_process = Some (Some (Wrap [Lit ''run scheduler''] e), st')"
    by auto
  let ?c = "projr (LoadScheduler (\<lambda>_ _ _. 0) dsn_file (environ small_host) ''/etc/calendar/scheduler.toml'')"
  have c: "LoadScheduler (\<lambda>_ _ _. 0) dsn_file (environ small_host) ''/etc/calendar/scheduler.toml'' = Inr ?c" by code_simp
  have f: "flags_Parse small_host ''/etc/calendar/scheduler.toml'' [] = Inr (''/etc/calendar/scheduler.toml'', [])"
    "list_all library_name (prom_names small_host)" "done_before small_host = False" by code_simp+
  show ?thesis using scheduler_exit_reasons [OF f(1) c f(2) out] out f(3) by auto
qed

end
