(* ===== verification/Event_Counters.thy ===== *)
theory Event_Counters
  imports Http_Service Monitoring
begin

text \<open>
  What the counters of the API say about the calendar: the observations of the metrics middleware become calls on the collectors
  of \<open>internal/monitoring/api.go\<close>, and the balance of the counters of successful operations is the number of stored events.
\<close>

subsection \<open>From observations to collectors\<close>

text \<open>The calls one observation makes; \<open>d\<close> is the time since the request arrived.\<close>

fun api_call :: "int \<Rightarrow> observation \<Rightarrow> collector_call list" where
  "api_call d (HTTPRequest m route status) = ObserveHTTPRequest m route status d"
| "api_call d (EventOperation operation success) = ObserveEventOperation operation success"

fun api_calls :: "(nat \<Rightarrow> int) \<Rightarrow> observation list \<Rightarrow> collector_call list" where
  "api_calls durations [] = []"
| "api_calls durations (x # xs) = api_call (durations 0) x @ api_calls (\<lambda>n. durations (Suc n)) xs"

fun counts_request :: "string \<Rightarrow> string \<Rightarrow> string \<Rightarrow> observation \<Rightarrow> bool" where
  "counts_request m route code (HTTPRequest m' route' status) \<longleftrightarrow> m' = m \<and> route' = route \<and> Itoa status = code"
| "counts_request m route code (EventOperation operation success) \<longleftrightarrow> False"

lemma api_counters_distinct [simp]: "api_requests \<noteq> api_eventOperations"
  by (simp add: api_requests_def api_eventOperations_def)

lemma operation_counter:
  "counter_value (api_calls ds obs) api_eventOperations [op, result b] = length (filter (\<lambda>x. x = EventOperation op b) obs)"
proof (induction obs arbitrary: ds)
  case (Cons x obs)
  then show ?case
    by (cases x) (auto simp: ObserveHTTPRequest_def ObserveEventOperation_def Let_def)
qed simp

lemma request_counter:
  "counter_value (api_calls ds obs) api_requests [m, route, code] = length (filter (counts_request m route code) obs)"
proof (induction obs arbitrary: ds)
  case (Cons x obs)
  then show ?case
    by (cases x) (auto simp: ObserveHTTPRequest_def ObserveEventOperation_def Let_def dest: sym)
qed simp

subsection \<open>What the handlers do to the set of identifiers\<close>

definition success :: "int \<Rightarrow> bool" where
  "success s \<longleftrightarrow> 200 \<le> s \<and> s < 300"

abbreviation stored_ids :: "Storage App \<Rightarrow> string set" where
  "stored_ids a \<equiv> dom (calendar_of (app_storage a))"

lemma finite_stored_ids [simp]: "finite (stored_ids a)"
  by (simp add: calendar_of_def finite_dom_map_of)

lemma refused [simp]: "\<not> success (ops_status (writeApplicationError e))"
  by (simp add: success_def status_application_error)

lemma undecoded: "decodeRequest lib decode r = Inl ops \<Longrightarrow> \<not> success (ops_status ops)"
  using status_decode_error [of lib decode r ops] by (auto simp: success_def)

lemma accepted [simp]:
  "success (ops_status (SetHeader k v # writeJSON 201 b))" "success (ops_status (writeJSON 200 b))"
  "success (ops_status [WriteHeader 204])"
  by (simp_all add: success_def ops_status_def respond_simps del: status_writeJSON)

lemma failed_app_keeps_storage:
  "AppCreateEvent memory_ops c ev a = (Some e, a') \<Longrightarrow> app_storage a' = app_storage a"
  "AppUpdateEvent memory_ops c ev a = (Some e, a') \<Longrightarrow> app_storage a' = app_storage a"
  "AppDeleteEvent memory_ops c i a = (Some e, a') \<Longrightarrow> app_storage a' = app_storage a"
  by (auto dest!: AppCreateEvent_cases AppUpdateEvent_cases AppDeleteEvent_cases failed_call_keeps_storage simp: memory_ops_def)

text \<open>A modifying handler answers with a success when the use case succeeded, and otherwise leaves the storage alone.\<close>

lemma handler_outcome:
  "apiCreateEvent lib (Some (calendar_application memory_ops)) c r a = (ops, a') \<Longrightarrow>
     (\<exists>ev. AppCreateEvent memory_ops c ev a = (None, a')) \<and> success (ops_status ops) \<or>
     \<not> success (ops_status ops) \<and> app_storage a' = app_storage a"
  "apiUpdateEvent lib (Some (calendar_application memory_ops)) c r i a = (ops, a') \<Longrightarrow>
     (\<exists>ev. AppUpdateEvent memory_ops c ev a = (None, a')) \<and> success (ops_status ops) \<or>
     \<not> success (ops_status ops) \<and> app_storage a' = app_storage a"
  "apiDeleteEvent (Some (calendar_application memory_ops)) c i a = (ops, a') \<Longrightarrow>
     AppDeleteEvent memory_ops c i a = (None, a') \<and> success (ops_status ops) \<or>
     \<not> success (ops_status ops) \<and> app_storage a' = app_storage a"
  by (auto simp: apiCreateEvent_def apiUpdateEvent_def apiDeleteEvent_def calendar_application_def
      split: sum.splits prod.splits option.splits simp del: status_writeJSON dest: undecoded failed_app_keeps_storage)

definition credit :: "bool \<Rightarrow> nat" where
  "credit b = (if b then 1 else 0)"

lemma handler_ids:
  assumes "ctx_law c" "storage_inv (app_storage a)"
  shows "apiCreateEvent lib (Some (calendar_application memory_ops)) c r a = (ops, a') \<Longrightarrow>
      card (stored_ids a') = card (stored_ids a) + credit (success (ops_status ops))"
    and "apiUpdateEvent lib (Some (calendar_application memory_ops)) c r i a = (ops, a') \<Longrightarrow>
      card (stored_ids a') = card (stored_ids a)"
    and "apiDeleteEvent (Some (calendar_application memory_ops)) c i a = (ops, a') \<Longrightarrow>
      card (stored_ids a') + credit (success (ops_status ops)) = card (stored_ids a)"
proof -
  show "card (stored_ids a') = card (stored_ids a) + credit (success (ops_status ops))"
    if "apiCreateEvent lib (Some (calendar_application memory_ops)) c r a = (ops, a')"
    using handler_outcome(1) [OF that] memory_app.app_create_outcome [OF assms, of _ None a']
    by (auto simp: create_post_def created_def credit_def)
  show "card (stored_ids a') = card (stored_ids a)"
    if "apiUpdateEvent lib (Some (calendar_application memory_ops)) c r i a = (ops, a')"
    using handler_outcome(2) [OF that] memory_app.app_update_outcome [OF assms, of _ None a']
    by (auto simp: update_post_def updated_def insert_absorb)
  show "card (stored_ids a') + credit (success (ops_status ops)) = card (stored_ids a)"
    if "apiDeleteEvent (Some (calendar_application memory_ops)) c i a = (ops, a')"
    using handler_outcome(3) [OF that] memory_app.app_delete_outcome [OF assms, of i None a'] card_Suc_Diff1 [OF finite_stored_ids, of i a]
    by (auto simp: delete_post_def credit_def domIff simp del: card_Diff_insert card_Diff_singleton)
qed

subsection \<open>The balance of the counters\<close>

text \<open>
  What chi documents beside \<open>chi_law\<close>: the registration it chooses takes the method of the request and the fixed beginning of its
  pattern is the beginning of the path, and a request without a route is answered with 404 or 405.
\<close>

definition fixed_part :: "string \<Rightarrow> string" where
  "fixed_part pat = takeWhile (\<lambda>c. c \<noteq> CHR ''{'') pat"

definition chosen :: "bool \<Rightarrow> http_request \<Rightarrow> string \<Rightarrow> endpoint \<Rightarrow> bool" where
  "chosen wm r pat ep \<longleftrightarrow>
     ((Method r, pat, ep) \<in> set (route_table wm) \<or> (''*'', pat, ep) \<in> set (route_table wm)) \<and>
     take (length (fixed_part pat)) (URLPath r) = fixed_part pat"

definition chi_methods :: "http_lib \<Rightarrow> bool" where
  "chi_methods lib \<longleftrightarrow> (\<forall>wm r.
     (\<forall>pat ep p. chi_match lib (route_table wm) r = Matched pat ep p \<longrightarrow> chosen wm r pat ep) \<and>
     (\<forall>pat ops. chi_match lib (route_table wm) r = NoRoute pat ops \<longrightarrow> ops_status ops = 404 \<or> ops_status ops = 405))"

text \<open>What one answer adds to the two counters of successful operations.\<close>

definition counted :: "string \<Rightarrow> http_request \<Rightarrow> string \<Rightarrow> int \<Rightarrow> nat" where
  "counted op r pat status =
     (if URLPath r = ''/metrics'' then 0 else length (filter (\<lambda>x. x = EventOperation op True) (observe (Method r) pat status)))"

lemma counted_credit:
  "op \<noteq> [] \<Longrightarrow> pat \<noteq> [] \<Longrightarrow> URLPath r \<noteq> ''/metrics'' \<Longrightarrow>
     counted op r pat s = credit (eventOperation (Method r) pat = op \<and> success s)"
  by (auto simp: counted_def observe_def credit_def success_def Let_def)

lemma counted_failure: "\<not> success s \<Longrightarrow> counted op r pat s = 0"
  by (auto simp: counted_def observe_def success_def Let_def)

lemma chosen_entry:
  assumes "chosen wm r p ep"
  shows "(p, ep) = (''/metrics'', RouteMetrics) \<or>
    (Method r, p, ep) \<in> set ((''GET'', ''/hello'', RouteHello) # api_routes [])"
proof -
  have "(''*'', p, ep) \<notin> set ((''GET'', ''/hello'', RouteHello) # api_routes [])" by (simp add: api_routes_def)
  with assms show ?thesis unfolding chosen_def route_table_def by (cases wm) auto
qed

lemma chosen_operation:
  assumes "chosen wm r p ep"
  shows "eventOperation (Method r) p = ''create'' \<longleftrightarrow> ep = RouteCreate" "eventOperation (Method r) p = ''delete'' \<longleftrightarrow> ep = RouteDelete"
    "p \<noteq> []"
proof -
  have "(eventOperation (Method r) p = ''create'' \<longleftrightarrow> ep = RouteCreate) \<and> (eventOperation (Method r) p = ''delete'' \<longleftrightarrow> ep = RouteDelete) \<and> p \<noteq> []"
  proof (cases "p = ''/metrics''")
    case True
    with chosen_entry [OF assms] show ?thesis by (simp add: api_routes_def eventOperation_def)
  next
    case False
    with chosen_entry [OF assms] have "(Method r, p, ep) \<in> set ((''GET'', ''/hello'', RouteHello) # api_routes [])" by simp
    then show ?thesis
      unfolding api_routes_def list.set insert_iff empty_iff prod.inject append_Nil
      by (elim disjE conjE) (simp_all add: eventOperation_def)
  qed
  then show "eventOperation (Method r) p = ''create'' \<longleftrightarrow> ep = RouteCreate" "eventOperation (Method r) p = ''delete'' \<longleftrightarrow> ep = RouteDelete"
    "p \<noteq> []" by blast+
qed

lemma metrics_path:
  assumes "chosen wm r p ep" "URLPath r = ''/metrics''"
  shows "ep = RouteMetrics"
  using chosen_entry [OF assms(1)] assms
  unfolding api_routes_def list.set insert_iff empty_iff prod.inject append_Nil chosen_def
  by (elim disjE conjE) (simp_all add: fixed_part_def)

text \<open>The endpoints that neither create nor delete keep the number of events; a path that cannot be bound is refused.\<close>

lemma endpoint_ids:
  assumes "ctx_law c" "storage_inv (app_storage a)"
    and "answer lib (Some (calendar_application memory_ops)) True c r (Matched p ep v) a = (ops, a')"
  shows "card (stored_ids a') + credit (ep = RouteDelete \<and> success (ops_status ops)) =
    card (stored_ids a) + credit (ep = RouteCreate \<and> success (ops_status ops))"
proof -
  note ids = handler_ids [OF assms(1,2)]
  have bad: "\<not> success (ops_status errorHandler)" by (simp add: success_def errorHandler_def)
  have list: "app_storage a' = app_storage a"
    if "checked_list lib h r a = (ops, a')" "\<And>u d a. app_storage (snd (h u d a)) = app_storage a"
    for h :: "string \<Rightarrow> string \<Rightarrow> Storage App handler"
    using checked_list_keeps [of h lib r a] that by simp
  show ?thesis
  proof (cases ep)
    case RouteCreate
    with assms(3) ids(1) show ?thesis by (simp add: credit_def)
  next
    case RouteUpdate
    with assms(3) ids(2) show ?thesis by (auto simp: credit_def checked_path_def split: sum.splits)
  next
    case RouteDelete
    with assms(3) bad show ?thesis by (auto simp: credit_def checked_path_def split: sum.splits dest: ids(3))
  next
    case RouteDay
    with assms(3) list [OF _ listings_keep(1)] show ?thesis by (simp add: credit_def)
  next
    case RouteWeek
    with assms(3) list [OF _ listings_keep(2)] show ?thesis by (simp add: credit_def)
  next
    case RouteMonth
    with assms(3) list [OF _ listings_keep(3)] show ?thesis by (simp add: credit_def)
  qed (use assms(3) in \<open>simp_all add: credit_def\<close>)
qed

lemma answer_balance:
  assumes "chi_methods lib" "ctx_law c" "storage_inv (app_storage a)"
    and "answer lib (Some (calendar_application memory_ops)) True c r (chi_match lib (route_table True) r) a = (ops, a')"
  defines "pat \<equiv> route_pattern (chi_match lib (route_table True) r)"
  shows "card (stored_ids a') + counted ''delete'' r pat (ops_status ops) =
    card (stored_ids a) + counted ''create'' r pat (ops_status ops)"
proof (cases "chi_match lib (route_table True) r")
  case (NoRoute p out)
  then have "\<not> success (ops_status ops)" "a' = a"
    using assms(1,4) unfolding chi_methods_def by (fastforce simp: success_def)+
  then show ?thesis by (simp add: counted_failure)
next
  case (Matched p ep v)
  have pat: "pat = p" by (simp add: pat_def Matched)
  have ch: "chosen True r p ep" using assms(1) Matched unfolding chi_methods_def by blast
  note ids = endpoint_ids [OF assms(2,3) assms(4) [unfolded Matched]]
  note op = chosen_operation [OF ch]
  show ?thesis
  proof (cases "URLPath r = ''/metrics''")
    case True
    from metrics_path [OF ch True] ids show ?thesis by (simp add: True counted_def credit_def)
  next
    case False
    with ids op show ?thesis by (simp add: pat counted_credit)
  qed
qed

lemma fixed_part_pattern: "CHR ''{'' \<notin> set pre \<Longrightarrow> fixed_part (pre @ ''{eventId}'') = pre" "CHR ''{'' \<notin> set pre \<Longrightarrow> fixed_part pre = pre"
  by (auto simp: fixed_part_def takeWhile_append)

lemma small_chi_chosen:
  assumes "small_chi (route_table wm) r = Matched pat ep p"
  shows "chosen wm r pat ep"
proof (cases "filter (takes r) (route_table wm)")
  case (Cons e es)
  then have "e \<in> set (route_table wm)" "takes r e" by (auto simp: filter_eq_Cons_iff)
  with assms Cons show ?thesis
    by (auto simp: small_chi_def chosen_def takes_def static_def fixed_part_pattern split: prod.splits)
next
  case Nil
  then obtain m es where f: "filter (\<lambda>e. param_value r e \<noteq> None) (route_table wm) = (m, pat, ep) # es"
    using assms by (auto simp: small_chi_def split: list.splits prod.splits)
  then have "(m, pat, ep) \<in> set (route_table wm)" "param_value r (m, pat, ep) \<noteq> None" by (auto simp: filter_eq_Cons_iff)
  then show ?thesis
    by (auto simp: chosen_def param_value_def static_def Let_def split: if_splits) (metis append_eq_conv_conj fixed_part_pattern(1))+
qed

lemma small_http_methods: "chi_methods small_http"
  using small_chi_chosen unfolding chi_methods_def
  by (auto simp: small_http_def) (auto simp: small_chi_def respond_defs split: list.splits prod.splits)

text \<open>The balance over one request and over a run of the server.\<close>

definition operations :: "string \<Rightarrow> observation list \<Rightarrow> nat" where
  "operations op obs = length (filter (\<lambda>x. x = EventOperation op True) obs)"

lemma serve_one_step:
  assumes "lib_law lib" "chi_methods lib" "ctx_law (fst q)" "storage_inv (app_storage (srv_app s))"
    and "serve_one lib memory_ops True q s = (w, s1)"
  shows "storage_inv (app_storage (srv_app s1)) \<and>
    card (stored_ids (srv_app s1)) + operations ''delete'' (srv_metrics s1) + operations ''create'' (srv_metrics s) =
      card (stored_ids (srv_app s)) + operations ''create'' (srv_metrics s1) + operations ''delete'' (srv_metrics s)"
proof -
  obtain c st lt r where q: "q = (c, st, lt, r)" by (cases q) auto
  have run: "ServeHTTP lib (Some (calendar_application memory_ops)) True c st lt r s = (w, s1)" and c: "ctx_law c"
    using assms(3,5) by (simp_all add: q serve_one_def)
  obtain ops where a: "answer lib (Some (calendar_application memory_ops)) True c r (chi_match lib (route_table True) r) (srv_app s)
      = (ops, srv_app s1)" and w: "w = respond ops" and m: "srv_metrics s1 = srv_metrics s @
      (if URLPath r \<noteq> ''/metrics'' then observe (Method r) (route_pattern (chi_match lib (route_table True) r)) (final_status w) else [])"
    using ServeHTTP_transparent [OF assms(1) run] by auto
  show ?thesis
    using answer_balance [OF assms(2) c assms(4) a] memory_service.ServeHTTP_sound(1) [OF assms(1) c assms(4) run]
    by (simp add: m counted_def operations_def ops_status_def w split: if_splits)
qed

lemma serve_all_balance:
  assumes "lib_law lib" "chi_methods lib" "list_all (\<lambda>q. ctx_law (fst q)) qs" "storage_inv (app_storage (srv_app s))"
    and "serve_all lib memory_ops True qs s = (ws, s')"
  shows "card (stored_ids (srv_app s')) + operations ''delete'' (srv_metrics s') + operations ''create'' (srv_metrics s) =
      card (stored_ids (srv_app s)) + operations ''create'' (srv_metrics s') + operations ''delete'' (srv_metrics s)"
  using assms(3-)
proof (induction qs arbitrary: s ws)
  case (Cons q qs)
  obtain w s1 where one: "serve_one lib memory_ops True q s = (w, s1)" by fastforce
  obtain ws' where rest: "serve_all lib memory_ops True qs s1 = (ws', s')"
    using Cons.prems(3) one by (auto split: prod.splits)
  have "ctx_law (fst q)" "list_all (\<lambda>q. ctx_law (fst q)) qs" using Cons.prems(1) by simp_all
  with serve_one_step [OF assms(1,2) _ Cons.prems(2) one] Cons.IH [OF _ _ rest] show ?case by simp
qed simp

text \<open>The requests that are counted under a method, a route and a status: all but those for the metrics page itself.\<close>

definition answered_as :: "http_lib \<Rightarrow> string \<Rightarrow> string \<Rightarrow> string \<Rightarrow> arrival \<times> response_writer \<Rightarrow> bool" where
  "answered_as lib m route code = (\<lambda>((c, started, latency, r), w).
     let pat = route_pattern (chi_match lib (route_table True) r)
     in URLPath r \<noteq> ''/metrics'' \<and> metricsMethod (Method r) = m \<and> (if pat = [] then ''unmatched'' else pat) = route \<and>
        Itoa (final_status w) = code)"

lemma serve_all_requests:
  assumes "lib_law lib" "serve_all lib ops True qs s = (ws, s')"
  shows "length (filter (counts_request m route code) (srv_metrics s')) =
    length (filter (counts_request m route code) (srv_metrics s)) + length (filter (answered_as lib m route code) (zip qs ws))"
  using assms(2)
proof (induction qs arbitrary: s ws)
  case (Cons q qs)
  obtain c st lt r where q: "q = (c, st, lt, r)" by (cases q) auto
  obtain w s1 where one: "ServeHTTP lib (Some (calendar_application ops)) True c st lt r s = (w, s1)" by fastforce
  obtain ws' where rest: "serve_all lib ops True qs s1 = (ws', s')" "ws = w # ws'"
    using Cons.prems one by (auto simp: q serve_one_def split: prod.splits)
  have "length (filter (counts_request m route code) (srv_metrics s1)) =
      length (filter (counts_request m route code) (srv_metrics s)) + (if answered_as lib m route code (q, w) then 1 else 0)"
    using ServeHTTP_transparent [OF assms(1) one] by (auto simp: q answered_as_def observe_def Let_def)
  with Cons.IH [OF rest(1)] rest(2) show ?case by simp
qed simp

subsection \<open>Properties\<close>

text \<open>
  C25: the counters of the API tell the truth. After any sequence of requests to a server over an empty in-memory storage, the number of
  stored events is the number of successful creations less that of successful deletions, as counted, and each value of the request
  counter is the number of requests that were answered with that status on that route, those for the metrics page excepted.
\<close>

theorem event_counters_exact:
  assumes "lib_law lib" "chi_methods lib" "list_all (\<lambda>q. ctx_law (fst q)) qs"
    and "serve_all lib memory_ops True qs (NewCalendarServer New) = (ws, s')"
  shows "card (dom (calendar_of (app_storage (srv_app s')))) +
      counter_value (api_calls durations (srv_metrics s')) api_eventOperations [''delete'', ''success''] =
      counter_value (api_calls durations (srv_metrics s')) api_eventOperations [''create'', ''success''] \<and>
    counter_value (api_calls durations (srv_metrics s')) api_requests [m, route, code] =
      length (filter (answered_as lib m route code) (zip qs ws))"
proof -
  have start: "storage_inv (app_storage (srv_app (NewCalendarServer New)))" "srv_metrics (NewCalendarServer New) = []"
    "card (stored_ids (srv_app (NewCalendarServer New))) = 0"
    by (simp_all add: NewCalendarServer_def NewApp_def) (simp add: calendar_of_def stored_def New_def)
  have ok: "''success'' = result True" by (simp add: result_def)
  show ?thesis
    unfolding ok operation_counter request_counter
    using serve_all_balance [OF assms(1-3) start(1) assms(4)] serve_all_requests [OF assms(1,4)]
    by (simp add: start operations_def)
qed

definition lunch_requests :: "arrival list" where
  "lunch_requests = [(live, [], [], post_lunch), (live, [], [], post_lunch), (live, [], [], delete_lunch), (live, [], [], post_lunch)]"

theorem event_counters_exact_witness:
  "\<exists>ws s'. serve_all small_http memory_ops True lunch_requests (NewCalendarServer New) = (ws, s') \<and>
     card (dom (calendar_of (app_storage (srv_app s')))) = 1 \<and>
     counter_value (api_calls (\<lambda>_. 0) (srv_metrics s')) api_requests [''POST'', ''/api/v1/events'', ''409''] = 1"
proof -
  obtain ws s' where run: "serve_all small_http memory_ops True lunch_requests (NewCalendarServer New) = (ws, s')" by fastforce
  have laws: "list_all (\<lambda>q. ctx_law (fst q)) lunch_requests" by (simp add: lunch_requests_def)
  have "counter_value (api_calls (\<lambda>_. 0) (srv_metrics (snd (serve_all small_http memory_ops True lunch_requests (NewCalendarServer New)))))
      api_eventOperations [''create'', ''success''] = 2"
    "counter_value (api_calls (\<lambda>_. 0) (srv_metrics (snd (serve_all small_http memory_ops True lunch_requests (NewCalendarServer New)))))
      api_eventOperations [''delete'', ''success''] = 1"
    "length (filter (answered_as small_http ''POST'' ''/api/v1/events'' ''409'')
      (zip lunch_requests (fst (serve_all small_http memory_ops True lunch_requests (NewCalendarServer New))))) = 1"
    by code_simp+
  with event_counters_exact [OF small_http_law small_http_methods laws run, of "\<lambda>_. 0" "''POST''" "''/api/v1/events''" "''409''"]
  show ?thesis by (simp add: run)
qed

end
