(* ===== verification/Spec2Isabelle.thy ===== *)
theory Spec2Isabelle
  imports Calendar_App Sql_Storage Notification_Scheduler Notification_Storer Lru_Cache Parallel_Run Service_Config
    Unpack_String Frequency_Analysis Envdir_Tool Http_Service Struct_Validator File_Copy Telnet_Client Pipeline_Liveness Domain_Stats Notification_Flow Service_Main Event_Counters
begin

text \<open>
  A verification of the Go programs of the repository: the calendar of \<open>hw12_13_14_15_16_calendar\<close> (an HTTP API, a
  notification scheduler and a notification storer around a database and a Kafka topic) and the exercises
  \<open>hw02\<close> to \<open>hw11\<close>.

  \<^bold>\<open>The calendar and how its parts interact.\<close>
  A request enters through the transport (\<open>internal/server/http\<close>), which checks and decodes it, calls the application
  (\<open>internal/app\<close>) and answers; the application calls a storage (\<open>internal/storage/memory\<close> or \<open>internal/storage/sql\<close>). The
  scheduler (\<open>internal/scheduler\<close>) reads due events from the SQL storage, sends a message per event to Kafka
  (\<open>internal/kafka\<close>) and marks the event; the storer (\<open>internal/storer\<close>) consumes the messages and saves notifications.
  Each process is assembled by a \<open>main\<close> package (\<open>cmd\<close>) from its configuration (\<open>internal/config\<close>), a logger
  (\<open>internal/logger\<close>) and its metrics (\<open>internal/monitoring\<close>).

  \<^bold>\<open>Theories of the calendar.\<close>
  \<^item> \<open>Go_Prelude\<close>, \<open>Go_Time\<close>, \<open>Go_Duration\<close>: what the code uses of Go and its standard library; errors with wrapping, contexts,
    64-bit integers, strings, maps, instants with time zones and calendar arithmetic, durations.
  \<^item> \<open>Calendar_Event\<close>: \<open>internal/storage/event.go\<close> and \<open>notification.go\<close>, the abstract calendar (a map from identifiers to
    events), the contracts of the four storage operations for a storage that rounds times, and the locale \<open>event_storage\<close> that
    a storage has to satisfy; \<open>atomic_storage\<close> adds that a failed call changes nothing.
  \<^item> \<open>Memory_Storage\<close>: the map with its mutex as one atomic step per call; it satisfies \<open>atomic_storage\<close> without rounding. No reachable state has a
    double booking, and every branch of creation is characterised.
  \<^item> \<open>Sql_Storage\<close>: every method over a driver. The locale \<open>postgres\<close> states what a database with the migrations of the
    repository guarantees: their CHECKs, keys and the exclusion of overlapping events, columns that round times, and statements executed
    as a whole or not at all, where an error may also follow an executed statement. Under it the storage satisfies
    \<open>event_storage\<close>. \<open>pg_driver\<close> is a database that satisfies \<open>postgres\<close>, and \<open>lost_driver\<close> one that loses answers.
  \<^item> \<open>Calendar_App\<close>: the use cases over any \<open>event_storage\<close>; the day, week and month listings contain exactly the events
    with an instant in the local period.
  \<^item> \<open>Http_Api\<close>: the requests and the handlers of \<open>handler.go\<close>. \<open>Http_Router\<close>: the generated \<open>api.gen.go\<close> with its parameter checks,
    errors, registrations and options, the middlewares, and the construction, start and stop of the server. \<open>Http_Transport\<close>: the
    middlewares pass the answer on unchanged and report the status that was sent. \<open>Http_Service\<close>: the locale
    \<open>calendar_service\<close> shows, over any \<open>event_storage\<close>, that the calendar changes only behind a successful answer, or behind 500 if the storage is not atomic; the answers to
    POST, PUT, DELETE and to the three listings are characterised exactly. \<open>Sql_Service\<close> carries the
    invariant over to the SQL storage and shows that no request marks an event as notified.
  \<^item> \<open>Notification_Scheduler\<close>: \<open>RunOnce\<close> and \<open>Run\<close> over an environment with failures and other processes. Nothing is marked
    that was not acknowledged; an undisturbed cycle returns and notifies every due event. The locale \<open>scheduler_invariant\<close> lifts
    an invariant of the single calls to a whole run.
  \<^item> \<open>Kafka\<close>: the retry loop with its doubling delays at 64-bit width, preparation of the topic, producer and consumer.
    \<open>Notification_Storer\<close>: a message is committed only when it was invalid or the row of its event is its notification
    or that of a later message; an undisturbed storer drains the topic.
  \<^item> \<open>Service_Config\<close>: defaults, strict decoding, the environment, validation. \<open>Monitoring\<close>: the collectors, and
    \<open>RunWithServer\<close> under every interleaving of its goroutines. \<open>Event_Counters\<close>: the counters of the API agree with the calendar. \<open>Service_Main\<close>: the logger and the \<open>main\<close> and \<open>run\<close> functions of
    the three executables with their deferred functions; what they open is closed once, in reverse order.
  \<^item> \<open>Notification_Flow\<close>: the API, the scheduler and the storer together; an event that was accepted and is due is notified.
  \<^item> This theory: the two storages list alike, and no notification is lost between scheduler, broker and storer.

  \<^bold>\<open>Theories of the exercises.\<close>
  \<^item> \<open>Unpack_String\<close> (\<open>hw02\<close>, UTF-8 and the grammar of packed strings), \<open>Frequency_Analysis\<close> (\<open>hw03\<close>, the ranking, for every map
    order and sorting algorithm), \<open>Linked_List\<close> and \<open>Lru_Cache\<close> (\<open>hw04\<close>, a pointer structure on a heap that refines a
    sequence, and a cache over it that refines an abstract cache).
  \<^item> \<open>Parallel_Run\<close> (\<open>hw05\<close>), \<open>Pipeline\<close> and \<open>Pipeline_Liveness\<close> (\<open>hw06\<close>): goroutines and channels as transition systems over
    all interleavings, with bounds, results, termination and cancellation. \<open>Telnet_Client\<close> (\<open>hw11\<close>): the same for a session.
  \<^item> \<open>File_Copy\<close> (\<open>hw07\<close>, a file system with inodes and faults), \<open>Envdir_Tool\<close> (\<open>hw08\<close>), \<open>Struct_Validator\<close> (\<open>hw09\<close>, what reflection shows
    as a datatype), \<open>Domain_Stats\<close> (\<open>hw10\<close>).

  \<^bold>\<open>Parameters.\<close>
  Code outside the repository is an argument of the definitions, and what is relied on is a named hypothesis:
  the database (\<open>postgres\<close>, and for the values it keeps \<open>ts_law\<close> for the rounding to microseconds, \<open>due_law\<close> for the interval arithmetic of the
  scheduler's query, \<open>storable\<close> and \<open>in_years\<close> for the texts and times it accepts), the contexts (\<open>ctx_law\<close>), \<open>encoding/json\<close>
  (\<open>codec_law\<close>, a round trip for notifications that are \<open>wire_safe\<close>: UTF-8, years of four digits, zones of whole minutes;
  \<open>json_decoder\<close>, \<open>stat_lib\<close>), the HTTP libraries
  (\<open>http_lib\<close>, \<open>lib_law\<close>, and \<open>chi_law\<close> and \<open>chi_methods\<close> for the routing of chi), the Kafka client (\<open>kafka_client\<close>, \<open>messageWriter\<close>, \<open>messageReader\<close>), the TOML decoder (\<open>decode_file\<close>),
  the fraction of a duration, which Go computes in floating point (\<open>frac\<close>), regular expressions, the operating system and the
  process it runs in (\<open>host\<close>), and the stages of a pipeline (\<open>stages_ok\<close>). The witnesses instantiate them.

  \<^bold>\<open>Loops.\<close>
  Recursion over data is structural or has a termination proof. Four loops may run forever and are partial functions into
  \<open>option\<close>: the retries, the consumer, the batches of a cycle and the scheduler itself. That they return is proved
  where it holds: \<open>retry_backoff_schedule\<close>, \<open>storer_drains_topic\<close>, \<open>cycle_notifies_all_due\<close>. There is no fuel. For the
  transition systems a measure bounds every execution, and progress is proved up to the return.

  \<^bold>\<open>Not modelled.\<close>
  The texts of times in log lines, the bytes of encoded bodies and floating-point values of metrics; the bodies of third-party
  libraries; a stage of a pipeline that returns a nil channel; panics of the Prometheus client other than on a name registered twice;
  how the \<open>ServeMux\<close> of \<open>net/http\<close> finds the one pattern of the metrics server; interface declarations, type
  names and the no-op metrics, which have no behaviour; \<open>hw01\<close>, which prints a constant; tests, deployment files and the
  text of the migrations, whose constraints are laws of \<open>postgres\<close> (\<open>permitted\<close>, \<open>note_checks\<close>).
\<close>

subsection \<open>Two storages, one behaviour\<close>

text \<open>
  C19: The in-memory storage and the SQL storage answer alike. When both hold the same calendar and the database can represent the
  times of the query, two listings that succeed return the same events in the same order.
\<close>

theorem storages_list_alike:
  assumes "postgres drv tab saved ts due" "ctx_law c" "ctx_law c'"
    and "storage_inv s" "sql_calendar tab sd = calendar_of s" "ts a = a" "ts b = b"
    and "ListEvents c u a b s = Inr es" "SqlListEvents drv c' u a b sd = Inr fs"
  shows "es = fs"
proof -
  have ok: "consistent (calendar_of s)" using assms(4) memory.invar_calendar by blast
  have "list_post (\<lambda>t. t) (calendar_of s) u a b (Inr es)"
    using memory.list_contract [OF assms(2,4), where a = a and b = b and u = u] assms(8) by simp
  moreover have "list_post ts (calendar_of s) u a b (Inr fs)"
    using postgres.sql_list_contract [OF assms(1,3), of sd u a b] ok assms(5,9) by (simp add: sql_inv_def)
  then have "list_post (\<lambda>t. t) (calendar_of s) u a b (Inr fs)" by (simp add: list_post_def assms(6,7))
  ultimately show ?thesis using list_post_unique [OF ok] by blast
qed

definition memory_one :: Storage where
  "memory_one = snd (CreateEvent live standup New)"

theorem storages_list_alike_witness:
  "ListEvents live ''u'' (at_minute 0) (at_minute 90) memory_one =
   SqlListEvents pg_driver live ''u'' (at_minute 0) (at_minute 90) (connected, pg_one)"
proof -
  have m: "memory_one = \<lparr>Storage.events = Some [(''a'', standup)]\<rparr>" by code_simp
  have c: "calendar_of memory_one = [''a'' \<mapsto> standup]" by (simp add: m calendar_of_def stored_def)
  have "valid_event standup" "ID standup = ''a''" by code_simp+
  then have inv: "storage_inv memory_one" 
    unfolding storage_inv_def c by (auto simp: calendar_ok_def m stored_def gomap_ok_def)
  have cal: "sql_calendar pg_tab (connected, pg_one) = calendar_of memory_one"
    by (auto simp: c sql_calendar_def pg_tab_def pg_one_def calendar_of_table_def fun_eq_iff)
  have ts: "pg_ts (at_minute 0) = at_minute 0" "pg_ts (at_minute 90) = at_minute 90" by code_simp+
  have l: "ListEvents live ''u'' (at_minute 0) (at_minute 90) memory_one = Inr [standup]"
    "SqlListEvents pg_driver live ''u'' (at_minute 0) (at_minute 90) (connected, pg_one) = Inr [standup]"
    by code_simp+
  from storages_list_alike [OF pg.postgres_axioms ctx_law_live ctx_law_live inv cal ts l] l show ?thesis by simp
qed

subsection \<open>From the calendar to the saved notification\<close>

text \<open>
  C4: No notification is lost between the processes. Take any run of the scheduler, with failures and concurrent
  API clients, and any run of the storer that was delivered and has committed exactly the messages the broker acknowledged. Then every
  event the scheduler marked as notified has a message with the title, the start and the user it has in the table, and the
  storer's database holds the notification of that message, or of a later message for the same event. The rows
  are such that JSON carries them: UTF-8 texts, and times in a zone of whole minutes.
\<close>

theorem marked_events_reach_the_database:
  assumes pg: "postgres drv tab saved ts due" "ts_law ts" and codec: "codec_law mar js"
    and others: "lawful_ctx su" "no_foreign_marks tab su"
      "\<forall>n d. rows_ok wire_safe (tab d) \<longrightarrow> rows_ok wire_safe (tab (s_others su n d))"
    and start: "accounted_by wire_safe ts mar (tab (w_db w)) (set (w_sent w))"
    and run: "RunScheduler (sql_env drv st mar su) cfg w = Some (r, w')"
    and idle: "\<forall>n. ctx_law (u_ctx vu n)" "v_committed v = 0" "v_pos v = 0"
    and store: "RunStorer js (sql_storer_env drv st vu) (partition_reader (\<lambda>k. w_sent w' ! k) vu) v = Some (r', v')"
    and all: "length (w_sent w') \<le> v_committed v'" "v_pos v' \<le> length (w_sent w')"
    and row: "tab (w_db w') i = Some (row, Some sent)"
  shows "\<exists>j k m n. j \<le> k \<and> k < length (w_sent w') \<and>
    decodeNotification js (snd (w_sent w' ! j)) = Inr m \<and> n_EventID m = c_id row \<and> n_Title m = c_title row \<and>
    n_UserID m = c_user_id row \<and> TimeEqual (ts (n_EventAt m)) (c_start_at row) \<and>
    decodeNotification js (snd (w_sent w' ! k)) = Inr n \<and> n_EventID n = c_id row \<and>
    saved (v_db v') (c_id row) = Some (n\<lparr>n_EventAt := ts (n_EventAt n)\<rparr>)"
proof -
  have "scheduler_on_sql drv tab saved ts due su wire_safe"
    using pg(1) others by (simp add: scheduler_on_sql_def scheduler_on_sql_axioms_def)
  then have "accounted_by wire_safe ts mar (tab (w_db w')) (set (w_sent w'))"
    using scheduler_on_sql.scheduler_accounted run start by blast
  then obtain n0 p where n0: "(c_id row, p) \<in> set (w_sent w')" "mar n0 = Inr p" "wire_safe n0" "ValidateNotification n0 = None"
      "n_EventID n0 = c_id row" "n_Title n0 = c_title row" "n_UserID n0 = c_user_id row" "TimeEqual (c_start_at row) (ts (n_EventAt n0))"
    using row unfolding accounted_by_def published_by_def by blast
  then obtain j where j: "j < length (w_sent w')" "snd (w_sent w' ! j) = p"
    by (metis in_set_conv_nth snd_conv)
  obtain m where m: "decodeNotification js p = Inr m" "same_note m n0" using codec_decodes [OF codec n0(3,2,4)] by blast
  have "TimeEqual (ts (n_EventAt m)) (ts (n_EventAt n0))" using pg(2) m(2) by (simp add: ts_law_def same_note_def)
  then have t: "TimeEqual (ts (n_EventAt m)) (c_start_at row)" using n0(8) by (simp add: TimeEqual_def)
  have "storer_on_sql drv tab saved ts due vu"
    using pg(1) idle(1) by (simp add: storer_on_sql_def storer_on_sql_axioms_def)
  then have "\<forall>k < v_committed v'. settled js ts (\<lambda>k. snd (w_sent w' ! k)) (v_pos v') (saved (v_db v')) k"
    using storer_on_sql.storer_no_loss [OF _ store] idle(2,3) by simp
  then have "settled js ts (\<lambda>k. snd (w_sent w' ! k)) (v_pos v') (saved (v_db v')) j" using j all(1) by auto
  then obtain k n where "j \<le> k" "k < v_pos v'" "decodeNotification js (snd (w_sent w' ! k)) = Inr n" "n_EventID n = n_EventID m"
      "saved (v_db v') (n_EventID m) = Some (n\<lparr>n_EventAt := ts (n_EventAt n)\<rparr>)"
    using m(1) j(2) by (auto simp: settled_def)
  then show ?thesis
    using m n0 j t all(2) by (intro exI [of _ j] exI [of _ k] exI [of _ m] exI [of _ n]) (auto simp: same_note_def)
qed

definition small_marshal :: "Notification \<Rightarrow> error + string" where
  "small_marshal n = (if n = standup_note then Inr ''{standup}'' else Inl (Err (LibError ''unsupported value'')))"

lemma small_codec: "codec_law small_marshal small_json"
  by (auto simp: codec_law_def small_marshal_def small_json_def TimeEqual_def split: if_splits)

definition drain_one :: storer_surroundings where
  "drain_one = draining 1 (Err EOF) (\<lambda>_. at_minute 20)"

theorem marked_events_reach_the_database_witness:
  "\<exists>w' v' n. map_option snd (RunScheduler (sql_env pg_driver connected small_marshal calm_world) daily (fresh_world pg_one)) = Some w' \<and>
     map_option snd (RunStorer small_json (sql_storer_env pg_driver connected drain_one)
       (partition_reader (\<lambda>k. w_sent w' ! k) drain_one) (idle_storer pg_one)) = Some v' \<and>
     map_of (nt_rows (v_db v')) ''a'' = Some n \<and> n_Title n = ''standup''"
proof -
  let ?run = "RunScheduler (sql_env pg_driver connected small_marshal calm_world) daily (fresh_world pg_one)"
  have "map_option (\<lambda>(r, w). (w_sent w, map_option (\<lambda>(r, s). (c_id r, s)) (pg_tab (w_db w) ''a''))) ?run =
      Some ([(''a'', ''{standup}'')], Some (''a'', Some (at_minute 20)))"
    by code_simp
  then obtain r w' row where run: "?run = Some (r, w')" and sent: "w_sent w' = [(''a'', ''{standup}'')]"
      and row: "pg_tab (w_db w') ''a'' = Some (row, Some (at_minute 20))" "c_id row = ''a''"
    by auto
  let ?store = "\<lambda>msgs. RunStorer small_json (sql_storer_env pg_driver connected drain_one)
      (partition_reader msgs drain_one) (idle_storer pg_one)"
  have "map_option (\<lambda>(r, v). (v_committed v, v_pos v)) (?store (\<lambda>k. [(''a'', ''{standup}'')] ! k)) = Some (1, 1)" by code_simp
  then obtain r' v' where store: "?store (\<lambda>k. w_sent w' ! k) = Some (r', v')" "v_committed v' = 1" "v_pos v' = 1"
    by (auto simp: sent)
  have safe: "wire_safe (notification_of standup)" by code_simp
  have acc: "accounted_by wire_safe pg_ts small_marshal (pg_tab (w_db (fresh_world pg_one))) (set (w_sent (fresh_world pg_one)))"
    using safe by (auto simp: accounted_by_def rows_ok_def fresh_world_def pg_one_def pg_tab_def)
  have quiet: "\<forall>n d. rows_ok wire_safe (pg_tab d) \<longrightarrow> rows_ok wire_safe (pg_tab (s_others calm_world n d))"
    by (simp add: calm_world_def undisturbed_def)
  have live: "\<forall>n. ctx_law (u_ctx drain_one n)" by (simp add: drain_one_def draining_def)
  have "\<exists>n. decodeNotification small_json ''{standup}'' = Inr n \<and> map_of (nt_rows (v_db v')) ''a'' = Some (n\<lparr>n_EventAt := pg_ts (n_EventAt n)\<rparr>)"
    using marked_events_reach_the_database [OF pg.postgres_axioms pg_ts_law small_codec calm_world_lawful quiet acc run live _ _ store(1) _ _ row(1)]
    by (auto simp: idle_storer_def sent store(2,3) row(2))
  moreover have "n_Title standup_note = ''standup''" by code_simp
  ultimately have "\<exists>n. map_of (nt_rows (v_db v')) ''a'' = Some n \<and> n_Title n = ''standup''"
    using standup_decoded by auto
  with run store(1) show ?thesis by auto
qed

end
